(* ===== verification/Prelude.thy ===== *)
theory Prelude
  imports Main "HOL-Library.Word" "HOL-Library.Multiset" "HOL-Library.Char_ord" "HOL-Library.List_Lexorder"
begin

text \<open>
  Shared vocabulary of the development: Go strings and byte slices, error values, and
  the part of Go's standard library (\<open>strings\<close>, \<open>encoding/hex\<close>, \<open>strconv\<close>, \<open>sort\<close>)
  that the repository uses, with the lemmas every component needs.

  A Go string is a sequence of bytes, modelled as \<^typ>\<open>string\<close> (a \<^typ>\<open>char\<close> is one
  byte); a digest's \<open>[]byte\<close> is a list of \<open>8 word\<close>.  File contents are byte
  sequences that the code converts between \<open>string\<close> and \<open>[]byte\<close> without change, so they
  are strings here.  Go compares strings bytewise and lexicographically, which is the
  order of \<open>List_Lexorder\<close> over \<open>Char_ord\<close>.
\<close>

named_theorems go_strings
named_theorems store_reads
named_theorems store_writes

section \<open>Types and error values\<close>

type_synonym byte = "8 word"

text \<open>Instants are nanoseconds counted from Go's zero time, so \<open>t.IsZero()\<close> is \<open>t = 0\<close>.\<close>

type_synonym time = int

text \<open>Codes of \<open>gocloud.dev/gcerrors\<close> that the code tests for, and the Connect codes it returns.\<close>

datatype gcode = GC_NotFound | GC_AlreadyExists | GC_Other string

datatype ccode = CodeUnimplemented | CodeNotFound | CodeInternal | CodeInvalidArgument
  | CodeUnauthenticated

text \<open>
  Go errors.  \<open>ErrNotFound\<close> and \<open>ErrAlreadyExists\<close> are the sentinels of
  \<open>storage/metadata.go\<close>, compared by identity in the code; \<open>GCErr\<close> is an error of the
  storage backend with its code; \<open>Errorf\<close> a fresh error with its text (arguments are
  appended verbatim, \<open>%q\<close> quotes are dropped); \<open>Wrapf\<close> a \<open>fmt.Errorf\<close> with a \<open>%w\<close>
  argument; \<open>ConnectErr\<close> a \<open>connect.NewError\<close>, whose error may be nil; \<open>Panic\<close> stands for a
  run-time panic (a nil pointer), which ends the request.
\<close>

datatype goerr =
    ErrNotFound
  | ErrAlreadyExists
  | GCErr gcode
  | Errorf string
  | Wrapf string goerr
  | ConnectErr ccode "goerr option"
  | Panic

type_synonym 'a res = "goerr + 'a"

definition gcCode :: "goerr \<Rightarrow> gcode option" where
  "gcCode e = (case e of GCErr c \<Rightarrow> Some c | _ \<Rightarrow> None)"

lemma gcCode_GCErr [simp]: "gcCode (GCErr c) = Some c"
  by (simp add: gcCode_def)

lemma gcCode_eq_Some [simp]: "gcCode e = Some c \<longleftrightarrow> e = GCErr c"
  by (cases e) (auto simp: gcCode_def)

text \<open>Sequencing of fallible computations without state: the \<open>if err != nil\<close> of Go.\<close>

fun mapRes :: "('a \<Rightarrow> 'b res) \<Rightarrow> 'a list \<Rightarrow> 'b list res" where
  "mapRes f [] = Inr []"
| "mapRes f (x # xs) =
     (case f x of
        Inl e \<Rightarrow> Inl e
      | Inr y \<Rightarrow> (case mapRes f xs of Inl e \<Rightarrow> Inl e | Inr ys \<Rightarrow> Inr (y # ys)))"

lemma mapRes_Inr_iff:
  "mapRes f xs = Inr ys \<longleftrightarrow> list_all2 (\<lambda>x y. f x = Inr y) xs ys"
proof (induction xs arbitrary: ys)
  case Nil
  show ?case by auto
next
  case (Cons x xs)
  show ?case
  proof (cases "mapRes f xs")
    case (Inl e)
    then show ?thesis using Cons.IH by (auto simp: list_all2_Cons1 split: sum.splits)
  next
    case (Inr zs)
    then have "list_all2 (\<lambda>x y. f x = Inr y) xs vs \<longleftrightarrow> vs = zs" for vs
      using Cons.IH [of vs] by auto
    then show ?thesis using Inr by (auto simp: list_all2_Cons1 split: sum.splits)
  qed
qed

lemma mapRes_Inr_length: "mapRes f xs = Inr ys \<Longrightarrow> length ys = length xs"
  by (simp add: mapRes_Inr_iff list_all2_lengthD)

lemma mapRes_Inr_set: "mapRes f xs = Inr ys \<Longrightarrow> y \<in> set ys \<Longrightarrow> \<exists>x \<in> set xs. f x = Inr y"
  unfolding mapRes_Inr_iff list_all2_conv_all_nth by (metis in_set_conv_nth)

lemma mapRes_total: "(\<And>x. x \<in> set xs \<Longrightarrow> f x = Inr (g x)) \<Longrightarrow> mapRes f xs = Inr (map g xs)"
  by (induction xs) auto

lemma mapRes_first_error:
  assumes "mapRes f xs = Inl e"
  shows "\<exists>ys x zs. xs = ys @ x # zs \<and> f x = Inl e \<and> (\<forall>y \<in> set ys. \<exists>v. f y = Inr v)"
  using assms
proof (induction xs)
  case Nil
  then show ?case by simp
next
  case (Cons x xs)
  show ?case
  proof (cases "f x")
    case (Inl e')
    with Cons.prems have "x # xs = [] @ x # xs \<and> f x = Inl e" by simp
    then show ?thesis by fastforce
  next
    case (Inr v)
    with Cons.prems have "mapRes f xs = Inl e" by (auto split: sum.splits)
    then obtain ys x' zs where
      "xs = ys @ x' # zs" "f x' = Inl e" "\<forall>y \<in> set ys. \<exists>v. f y = Inr v"
      using Cons.IH by blast
    with Inr have "x # xs = (x # ys) @ x' # zs \<and> f x' = Inl e \<and>
        (\<forall>y \<in> set (x # ys). \<exists>v. f y = Inr v)" by simp
    then show ?thesis by blast
  qed
qed

section \<open>Package strings\<close>

definition HasPrefix :: "string \<Rightarrow> string \<Rightarrow> bool" where
  "HasPrefix s p \<longleftrightarrow> take (length p) s = p"

definition HasSuffix :: "string \<Rightarrow> string \<Rightarrow> bool" where
  "HasSuffix s p \<longleftrightarrow> length p \<le> length s \<and> drop (length s - length p) s = p"

definition TrimPrefix :: "string \<Rightarrow> string \<Rightarrow> string" where
  "TrimPrefix s p = (if HasPrefix s p then drop (length p) s else s)"

definition TrimSuffix :: "string \<Rightarrow> string \<Rightarrow> string" where
  "TrimSuffix s p = (if HasSuffix s p then take (length s - length p) s else s)"

lemma HasPrefix_append [simp]: "HasPrefix (p @ s) p"
  by (simp add: HasPrefix_def)

lemma TrimPrefix_append [simp]: "TrimPrefix (p @ s) p = s"
  by (simp add: TrimPrefix_def)

lemma HasPrefix_iff: "HasPrefix s p \<longleftrightarrow> (\<exists>t. s = p @ t)"
  by (metis HasPrefix_append HasPrefix_def append_take_drop_id)

lemma HasSuffix_append [simp]: "HasSuffix (s @ p) p"
  by (simp add: HasSuffix_def)

text \<open>\<open>strings.Split(s, sep)\<close> for a one-byte separator: always at least one part.\<close>

fun SplitByte :: "char \<Rightarrow> string \<Rightarrow> string list" where
  "SplitByte c [] = [[]]"
| "SplitByte c (x # xs) =
     (if x = c then [] # SplitByte c xs
      else (case SplitByte c xs of [] \<Rightarrow> [[x]] | p # ps \<Rightarrow> (x # p) # ps))"

lemma SplitByte_not_Nil [simp]: "SplitByte c s \<noteq> []"
  by (induction s) (auto split: list.splits)

lemma SplitByte_no_sep: "c \<notin> set s \<Longrightarrow> SplitByte c s = [s]"
  by (induction s) auto

lemma SplitByte_append_sep: "c \<notin> set p \<Longrightarrow> SplitByte c (p @ c # s) = p # SplitByte c s"
  by (induction p) auto

lemma SplitByte_parts: "p \<in> set (SplitByte c s) \<Longrightarrow> c \<notin> set p"
  by (induction s arbitrary: p) (auto split: if_splits list.splits)

text \<open>\<open>strings.SplitN(s, sep, 2)\<close> with the separator of two spaces: \<open>None\<close> when it does not occur.\<close>

fun CutTwoSpaces :: "string \<Rightarrow> (string \<times> string) option" where
  "CutTwoSpaces (a # b # r) =
     (if a = CHR '' '' \<and> b = CHR '' '' then Some ([], r)
      else map_option (\<lambda>(p, q). (a # p, q)) (CutTwoSpaces (b # r)))"
| "CutTwoSpaces _ = None"

lemma CutTwoSpaces_append:
  "CHR '' '' \<notin> set p \<Longrightarrow> CutTwoSpaces (p @ CHR '' '' # CHR '' '' # q) = Some (p, q)"
proof (induction p)
  case Nil
  then show ?case by simp
next
  case (Cons x p)
  then show ?case by (cases p) auto
qed

text \<open>\<open>strings.Join(parts, sep)\<close>.\<close>

fun JoinWith :: "string \<Rightarrow> string list \<Rightarrow> string" where
  "JoinWith sep [] = []"
| "JoinWith sep [x] = x"
| "JoinWith sep (x # y # r) = x @ sep @ JoinWith sep (y # r)"

lemma SplitByte_Join:
  "xs \<noteq> [] \<Longrightarrow> \<forall>x \<in> set xs. c \<notin> set x \<Longrightarrow> SplitByte c (JoinWith [c] xs) = xs"
proof (induction "[c]" xs rule: JoinWith.induct)
  case 1
  then show ?case by simp
next
  case (2 x)
  then show ?case by (simp add: SplitByte_no_sep)
next
  case (3 x y r)
  then show ?case by (simp add: SplitByte_append_sep)
qed

lemma JoinWith_inj:
  assumes "xs \<noteq> []" "ys \<noteq> []" "\<forall>x \<in> set xs. c \<notin> set x" "\<forall>y \<in> set ys. c \<notin> set y"
    and "JoinWith [c] xs = JoinWith [c] ys"
  shows "xs = ys"
  using assms SplitByte_Join by metis

text \<open>
  \<open>strings.TrimSpace\<close>: white space is \<open>unicode.IsSpace\<close>, so besides the ASCII spaces the
  UTF-8 encodings of the Unicode ones are trimmed too.
\<close>

definition spaceRunes :: "string list" where
  "spaceRunes =
     [[CHR 0x09], [CHR 0x0A], [CHR 0x0B], [CHR 0x0C], [CHR 0x0D], [CHR 0x20],
      [CHR 0xC2, CHR 0x85], [CHR 0xC2, CHR 0xA0], [CHR 0xE1, CHR 0x9A, CHR 0x80],
      [CHR 0xE2, CHR 0x80, CHR 0x80], [CHR 0xE2, CHR 0x80, CHR 0x81],
      [CHR 0xE2, CHR 0x80, CHR 0x82], [CHR 0xE2, CHR 0x80, CHR 0x83],
      [CHR 0xE2, CHR 0x80, CHR 0x84], [CHR 0xE2, CHR 0x80, CHR 0x85],
      [CHR 0xE2, CHR 0x80, CHR 0x86], [CHR 0xE2, CHR 0x80, CHR 0x87],
      [CHR 0xE2, CHR 0x80, CHR 0x88], [CHR 0xE2, CHR 0x80, CHR 0x89],
      [CHR 0xE2, CHR 0x80, CHR 0x8A], [CHR 0xE2, CHR 0x80, CHR 0xA8],
      [CHR 0xE2, CHR 0x80, CHR 0xA9], [CHR 0xE2, CHR 0x80, CHR 0xAF],
      [CHR 0xE2, CHR 0x81, CHR 0x9F], [CHR 0xE3, CHR 0x80, CHR 0x80]]"

definition dropOneOf :: "string list \<Rightarrow> string \<Rightarrow> string option" where
  "dropOneOf ws s = (case find (HasPrefix s) ws of None \<Rightarrow> None | Some w \<Rightarrow> Some (drop (length w) s))"

function trimLeftOf :: "string list \<Rightarrow> string \<Rightarrow> string" where
  "trimLeftOf ws s =
     (case dropOneOf ws s of
        None \<Rightarrow> s
      | Some s' \<Rightarrow> if length s' < length s then trimLeftOf ws s' else s)"
  by pat_completeness auto
termination
  by (relation "measure (\<lambda>(ws, s). length s)") auto

declare trimLeftOf.simps [simp del]

definition TrimLeftSpace :: "string \<Rightarrow> string" where
  "TrimLeftSpace s = trimLeftOf spaceRunes s"

definition TrimRightSpace :: "string \<Rightarrow> string" where
  "TrimRightSpace s = rev (trimLeftOf (map rev spaceRunes) (rev s))"

definition TrimSpace :: "string \<Rightarrow> string" where
  "TrimSpace s = TrimRightSpace (TrimLeftSpace s)"

text \<open>\<open>strings.ReplaceAll(s, "-", "")\<close>.\<close>

definition removeDashes :: "string \<Rightarrow> string" where
  "removeDashes s = filter (\<lambda>c. c \<noteq> CHR ''-'') s"

section \<open>Package encoding/hex\<close>

definition hexDigit :: "nat \<Rightarrow> char" where
  "hexDigit n = ''0123456789abcdef'' ! n"

definition fromHexChar :: "char \<Rightarrow> nat option" where
  "fromHexChar c =
     (let n = (of_char c :: nat) in
      if 48 \<le> n \<and> n \<le> 57 then Some (n - 48)
      else if 97 \<le> n \<and> n \<le> 102 then Some (n - 97 + 10)
      else if 65 \<le> n \<and> n \<le> 70 then Some (n - 65 + 10)
      else None)"

definition hexByte :: "byte \<Rightarrow> string" where
  "hexByte b = [hexDigit (unat b div 16), hexDigit (unat b mod 16)]"

definition EncodeToString :: "byte list \<Rightarrow> string" where
  "EncodeToString bs = concat (map hexByte bs)"

definition hexInvalidByte :: "char \<Rightarrow> goerr" where
  "hexInvalidByte c = Errorf (''encoding/hex: invalid byte: '' @ [c])"

definition hexErrLength :: goerr where
  "hexErrLength = Errorf ''encoding/hex: odd length hex string''"

fun DecodeString :: "string \<Rightarrow> byte list res" where
  "DecodeString [] = Inr []"
| "DecodeString [p] =
     (case fromHexChar p of None \<Rightarrow> Inl (hexInvalidByte p) | Some _ \<Rightarrow> Inl hexErrLength)"
| "DecodeString (p # q # r) =
     (case fromHexChar p of
        None \<Rightarrow> Inl (hexInvalidByte p)
      | Some a \<Rightarrow>
          (case fromHexChar q of
             None \<Rightarrow> Inl (hexInvalidByte q)
           | Some b \<Rightarrow>
               (case DecodeString r of
                  Inl e \<Rightarrow> Inl e
                | Inr bs \<Rightarrow> Inr (word_of_nat (16 * a + b) # bs))))"

lemma DecodeString_length: "DecodeString s = Inr bs \<Longrightarrow> length s = 2 * length bs"
  by (induction s arbitrary: bs rule: DecodeString.induct)
    (auto split: option.splits sum.splits)

lemma all_less_16: "(\<forall>n < 16. P n) \<longleftrightarrow> (\<forall>n \<in> set [0 ..< 16]. P (n::nat))"
  by auto

lemma fromHexChar_hexDigit: "n < 16 \<Longrightarrow> fromHexChar (hexDigit n) = Some n"
proof -
  have "\<forall>n < 16. fromHexChar (hexDigit n) = Some n"
    unfolding all_less_16 by code_simp
  then show "n < 16 \<Longrightarrow> fromHexChar (hexDigit n) = Some n" by blast
qed

definition isLowerHex :: "char \<Rightarrow> bool" where
  "isLowerHex c \<longleftrightarrow> c \<in> set ''0123456789abcdef''"

lemma hexDigit_isLowerHex: "n < 16 \<Longrightarrow> isLowerHex (hexDigit n)"
  unfolding isLowerHex_def hexDigit_def by (rule nth_mem) simp

lemma unat_byte_less: "unat (b :: byte) < 256"
  using unsigned_less [of b] by simp

lemma DecodeString_EncodeToString [simp, go_strings]: "DecodeString (EncodeToString bs) = Inr bs"
proof (induction bs)
  case Nil
  show ?case by (simp add: EncodeToString_def)
next
  case (Cons b bs)
  have "unat b div 16 < 16" using unat_byte_less [of b] by (simp add: less_mult_imp_div_less)
  moreover have "word_of_nat (16 * (unat b div 16) + unat b mod 16) = b"
    by (simp add: mult.commute div_mult_mod_eq)
  ultimately show ?case
    using Cons.IH by (simp add: EncodeToString_def hexByte_def fromHexChar_hexDigit)
qed

lemma length_EncodeToString [simp, go_strings]: "length (EncodeToString bs) = 2 * length bs"
  by (induction bs) (auto simp: EncodeToString_def hexByte_def)

lemma EncodeToString_isLowerHex: "c \<in> set (EncodeToString bs) \<Longrightarrow> isLowerHex c"
proof (induction bs)
  case Nil
  then show ?case by (simp add: EncodeToString_def)
next
  case (Cons b bs)
  have "unat b div 16 < 16" using unat_byte_less [of b] by (simp add: less_mult_imp_div_less)
  then show ?case
    using Cons by (auto simp: EncodeToString_def hexByte_def hexDigit_isLowerHex)
qed

lemma EncodeToString_inject [simp]: "EncodeToString xs = EncodeToString ys \<longleftrightarrow> xs = ys"
  by (metis DecodeString_EncodeToString sum.inject(2))

lemma isLowerHex_not_special:
  "isLowerHex c \<Longrightarrow> c \<noteq> CHR '':'' \<and> c \<noteq> CHR '' '' \<and> c \<noteq> CHR ''/'' \<and> c \<noteq> CHR ''-''
     \<and> c \<noteq> CHR 0x0A \<and> c \<noteq> CHR 0x0D"
  by (auto simp: isLowerHex_def)

lemma EncodeToString_not_special:
  "CHR '':'' \<notin> set (EncodeToString bs)" "CHR '' '' \<notin> set (EncodeToString bs)"
  "CHR ''/'' \<notin> set (EncodeToString bs)" "CHR 0x0A \<notin> set (EncodeToString bs)"
  "CHR 0x0D \<notin> set (EncodeToString bs)"
  using EncodeToString_isLowerHex isLowerHex_not_special by blast+

section \<open>Decimal printing (the verb %d)\<close>

fun showNat :: "nat \<Rightarrow> string" where
  "showNat n =
     (if n < 10 then [hexDigit n] else showNat (n div 10) @ [hexDigit (n mod 10)])"

declare showNat.simps [simp del]

definition showInt :: "int \<Rightarrow> string" where
  "showInt i = (if i < 0 then CHR ''-'' # showNat (nat (- i)) else showNat (nat i))"

section \<open>Package sort\<close>

text \<open>
  \<open>sort.Slice\<close> and \<open>sort.Strings\<close> return a sorted permutation; where the keys are
  distinct there is exactly one, which is \<open>sort_key\<close>.  With equal keys the order of
  \<open>sort.Slice\<close> is not specified by Go; the model takes the stable one.
\<close>

lemma sort_key_unique:
  assumes "mset ys = mset xs" "sorted (map f ys)" "distinct (map f xs)"
  shows "ys = sort_key f xs"
proof -
  have "inj_on f (set xs)" using assms(3) by (simp add: distinct_map)
  moreover have "set ys = set xs" using assms(1) by (metis mset_eq_setD)
  ultimately have "inj_on f (set ys)" by simp
  then have *: "map f ys = sort (map f xs)"
  proof -
    have "mset (map f ys) = mset (map f xs)" using assms(1) by simp
    then show ?thesis using assms(2) by (metis properties_for_sort)
  qed
  have "map f (sort_key f xs) = sort (map f xs)"
    by (metis mset_map mset_sort properties_for_sort sorted_sort_key)
  then have "map f ys = map f (sort_key f xs)" using * by simp
  moreover have "inj_on f (set ys \<union> set (sort_key f xs))"
    using \<open>inj_on f (set ys)\<close> \<open>set ys = set xs\<close> by simp
  ultimately show ?thesis by (rule map_inj_on)
qed

lemma mset_map_inject:
  assumes "inj_on f A" "set xs \<subseteq> A" "set ys \<subseteq> A" "mset (map f xs) = mset (map f ys)"
  shows "mset xs = mset ys"
proof -
  have id: "map (inv_into A f) (map f zs) = zs" if "set zs \<subseteq> A" for zs
    using that assms(1) by (induction zs) auto
  have "mset xs = image_mset (inv_into A f) (mset (map f xs))"
    using id [OF assms(2)] by (metis mset_map)
  also have "\<dots> = mset ys"
    using id [OF assms(3)] assms(4) by (metis mset_map)
  finally show ?thesis .
qed

lemma sort_key_perm_cong:
  assumes "mset xs = mset ys" "distinct (map f xs)"
  shows "sort_key f xs = sort_key f ys"
proof -
  have "distinct (map f ys)"
    using assms by (metis mset_eq_imp_distinct_iff mset_map)
  then show ?thesis
    using assms by (metis mset_sort sorted_sort_key sort_key_unique)
qed

end
