(* ===== verification/Digest.thy ===== *)
theory Digest
  imports Prelude
begin

text \<open>
  Digests (\<open>internal/storage/storage.go\<close>): the content digest \<open>Digest\<close> of blobs and
  manifests, the typed \<open>ModuleDigest\<close> of commits, and their textual forms.
  \<open>DigestType\<close> is a Go \<open>int\<close> with two named values, so other values can occur.
\<close>

definition DigestAlgorithmShake256 :: string where
  "DigestAlgorithmShake256 = ''shake256''"

type_synonym DigestType = int

definition DigestTypeB4 :: DigestType where "DigestTypeB4 = 1"

definition DigestTypeB5 :: DigestType where "DigestTypeB5 = 2"

definition DigestType_String :: "DigestType \<Rightarrow> string" where
  "DigestType_String dt =
     (if dt = DigestTypeB4 then DigestAlgorithmShake256
      else if dt = DigestTypeB5 then ''b5''
      else ''unknown('' @ showInt dt @ '')'')"

definition ParseDigestType :: "string \<Rightarrow> DigestType res" where
  "ParseDigestType s =
     (if s = DigestAlgorithmShake256 then Inr DigestTypeB4
      else if s = ''b5'' then Inr DigestTypeB5
      else Inl (Errorf (''unknown digest type: '' @ s)))"

record ModuleDigest =
  md_Type :: DigestType
  md_Value :: "byte list"

definition ModuleDigest_String :: "ModuleDigest \<Rightarrow> string" where
  "ModuleDigest_String md = DigestType_String (md_Type md) @ '':'' @ EncodeToString (md_Value md)"

definition ModuleDigest_Hex :: "ModuleDigest \<Rightarrow> string" where
  "ModuleDigest_Hex md = EncodeToString (md_Value md)"

text \<open>The loop \<open>for i, c := range s { if c == ':' \<dots>\<close>: the text before and after the first colon.\<close>

fun cutColon :: "string \<Rightarrow> (string \<times> string) option" where
  "cutColon [] = None"
| "cutColon (c # s) =
     (if c = CHR '':'' then Some ([], s)
      else map_option (\<lambda>(p, q). (c # p, q)) (cutColon s))"

definition ParseModuleDigest :: "string \<Rightarrow> ModuleDigest res" where
  "ParseModuleDigest s =
     (case cutColon s of
        Some (typeStr, hexStr) \<Rightarrow>
          (case ParseDigestType typeStr of
             Inl err \<Rightarrow> Inl err
           | Inr dt \<Rightarrow>
               (case DecodeString hexStr of
                  Inl err \<Rightarrow> Inl (Wrapf ''invalid module digest hex: '' err)
                | Inr val \<Rightarrow>
                    if length val \<noteq> 64
                    then Inl (Errorf (''invalid module digest length: expected 64 bytes, got ''
                           @ showInt (int (length val))))
                    else Inr \<lparr>md_Type = dt, md_Value = val\<rparr>))
      | None \<Rightarrow> Inl (Errorf ''invalid module digest format: missing type prefix''))"

record Digest =
  d_Algorithm :: string
  d_Value :: "byte list"

definition Digest_String :: "Digest \<Rightarrow> string" where
  "Digest_String d = d_Algorithm d @ '':'' @ EncodeToString (d_Value d)"

definition Digest_Hex :: "Digest \<Rightarrow> string" where
  "Digest_Hex d = EncodeToString (d_Value d)"

text \<open>\<open>h[:n]\<close> panics for a negative \<open>n\<close>, which is \<open>None\<close>.\<close>

definition ShortHex :: "Digest \<Rightarrow> int \<Rightarrow> string option" where
  "ShortHex d n =
     (let h = Digest_Hex d
      in if int (length h) < n then Some h
         else if n < 0 then None
         else Some (take (nat n) h))"

definition ParseDigest :: "string \<Rightarrow> Digest res" where
  "ParseDigest s =
     (case cutColon s of
        Some (algorithm, hexStr) \<Rightarrow>
          (case DecodeString hexStr of
             Inl err \<Rightarrow> Inl (Wrapf ''invalid digest hex: '' err)
           | Inr val \<Rightarrow> Inr \<lparr>d_Algorithm = algorithm, d_Value = val\<rparr>)
      | None \<Rightarrow> Inl (Errorf ''invalid digest format: missing algorithm prefix''))"

section \<open>Lemmas\<close>

lemma cutColon_append: "CHR '':'' \<notin> set p \<Longrightarrow> cutColon (p @ CHR '':'' # q) = Some (p, q)"
  by (induction p) auto

lemma cutColon_Some: "cutColon s = Some (p, q) \<Longrightarrow> s = p @ CHR '':'' # q \<and> CHR '':'' \<notin> set p"
  by (induction s arbitrary: p q) (auto split: if_splits)

lemma showNat_digits: "c \<in> set (showNat n) \<Longrightarrow> isLowerHex c"
proof (induction n rule: showNat.induct)
  case (1 n)
  then show ?case
    by (subst (asm) (2) showNat.simps)
      (auto simp: hexDigit_isLowerHex split: if_splits)
qed

lemma no_colon_showInt: "CHR '':'' \<notin> set (showInt i)"
  by (auto simp: showInt_def dest!: showNat_digits isLowerHex_not_special)

lemma no_colon_DigestType: "CHR '':'' \<notin> set (DigestType_String dt)"
  by (simp add: DigestType_String_def DigestAlgorithmShake256_def no_colon_showInt)

definition knownType :: "DigestType \<Rightarrow> bool" where
  "knownType dt \<longleftrightarrow> dt = DigestTypeB4 \<or> dt = DigestTypeB5"

lemma ParseDigestType_String: "knownType dt \<Longrightarrow> ParseDigestType (DigestType_String dt) = Inr dt"
  by (auto simp: knownType_def ParseDigestType_def DigestType_String_def DigestTypeB4_def
      DigestTypeB5_def DigestAlgorithmShake256_def)

lemma ParseDigestType_unknown:
  "\<not> knownType dt \<Longrightarrow> \<exists>e. ParseDigestType (DigestType_String dt) = Inl e"
  by (auto simp: knownType_def ParseDigestType_def DigestType_String_def
      DigestAlgorithmShake256_def)

lemma ParseDigestType_known: "ParseDigestType s = Inr dt \<Longrightarrow> knownType dt \<and> DigestType_String dt = s"
  by (auto simp: knownType_def ParseDigestType_def DigestType_String_def DigestTypeB4_def
      DigestTypeB5_def split: if_splits)

definition validModuleDigest :: "ModuleDigest \<Rightarrow> bool" where
  "validModuleDigest md \<longleftrightarrow> knownType (md_Type md) \<and> length (md_Value md) = 64"

lemma ParseModuleDigest_parts:
  "ParseModuleDigest (ModuleDigest_String md) =
     (case ParseDigestType (DigestType_String (md_Type md)) of
        Inl err \<Rightarrow> Inl err
      | Inr dt \<Rightarrow>
          if length (md_Value md) \<noteq> 64
          then Inl (Errorf (''invalid module digest length: expected 64 bytes, got ''
                 @ showInt (int (length (md_Value md)))))
          else Inr \<lparr>md_Type = dt, md_Value = md_Value md\<rparr>)"
  by (simp add: ParseModuleDigest_def ModuleDigest_String_def cutColon_append
      no_colon_DigestType split: sum.split)

lemma ParseModuleDigest_valid: "ParseModuleDigest s = Inr md \<Longrightarrow> validModuleDigest md"
  by (auto simp: ParseModuleDigest_def validModuleDigest_def dest: ParseDigestType_known
      split: option.splits prod.splits sum.splits if_splits)

lemma ParseModuleDigest_String:
  "validModuleDigest md \<Longrightarrow> ParseModuleDigest (ModuleDigest_String md) = Inr md"
  by (simp add: ParseModuleDigest_parts validModuleDigest_def ParseDigestType_String)

lemma ParseDigest_String [go_strings]:
  "CHR '':'' \<notin> set (d_Algorithm d) \<Longrightarrow> ParseDigest (Digest_String d) = Inr d"
  by (simp add: ParseDigest_def Digest_String_def cutColon_append)

lemma ParseDigest_no_colon: "ParseDigest s = Inr d \<Longrightarrow> CHR '':'' \<notin> set (d_Algorithm d)"
  by (auto simp: ParseDigest_def dest!: cutColon_Some
      split: option.splits prod.splits sum.splits)

lemma Digest_String_shake_inject:
  assumes "d_Algorithm d = DigestAlgorithmShake256" "d_Algorithm d' = DigestAlgorithmShake256"
  shows "Digest_String d = Digest_String d' \<longleftrightarrow> d = d'"
  using assms by (auto simp: Digest_String_def intro: Digest.equality)

lemma ModuleDigest_String_inject_B5:
  assumes "md_Type a = DigestTypeB5" "md_Type b = DigestTypeB5"
  shows "ModuleDigest_String a = ModuleDigest_String b \<longleftrightarrow> a = b"
  using assms by (auto simp: ModuleDigest_String_def intro: ModuleDigest.equality)

section \<open>Properties\<close>

text \<open>
  The textual form of a module digest parses back to the same digest exactly for the
  digests of a known type (B4, B5) with 64 bytes; every other \<open>ModuleDigest\<close> value, in
  particular the zero value, prints to a text that \<open>ParseModuleDigest\<close> rejects.
\<close>

theorem module_digest_roundtrip:
  "ParseModuleDigest (ModuleDigest_String md) = Inr md \<longleftrightarrow> validModuleDigest md"
  using ParseModuleDigest_String ParseModuleDigest_valid by blast

text \<open>
  What \<open>ParseModuleDigest\<close> accepts is a valid digest whose canonical text differs
  from the input at most in the case of the hexadecimal part: the type prefix is kept, and
  printing and parsing again gives the same digest.
\<close>

theorem parse_module_digest_canonical:
  assumes "ParseModuleDigest s = Inr md"
  shows "validModuleDigest md
    \<and> (\<exists>hexStr. s = DigestType_String (md_Type md) @ '':'' @ hexStr \<and> length hexStr = 128
         \<and> DecodeString hexStr = Inr (md_Value md))
    \<and> ParseModuleDigest (ModuleDigest_String md) = Inr md"
proof -
  from assms obtain typeStr hexStr where cut: "cutColon s = Some (typeStr, hexStr)"
    and ty: "ParseDigestType typeStr = Inr (md_Type md)"
    and hx: "DecodeString hexStr = Inr (md_Value md)" and len: "length (md_Value md) = 64"
    by (auto simp: ParseModuleDigest_def split: option.splits prod.splits sum.splits if_splits)
  have "s = DigestType_String (md_Type md) @ '':'' @ hexStr"
    using cutColon_Some [OF cut] ParseDigestType_known [OF ty] by simp
  moreover have "length hexStr = 128"
    using DecodeString_length [OF hx] len by simp
  ultimately show ?thesis
    using hx ParseModuleDigest_valid [OF assms] ParseModuleDigest_String by blast
qed

theorem parse_module_digest_canonical_witness:
  "\<exists>md. ParseModuleDigest (''b5:'' @ replicate 128 (CHR ''A'')) = Inr md
     \<and> validModuleDigest md \<and> ParseModuleDigest (ModuleDigest_String md) = Inr md"
proof -
  have p: "ParseModuleDigest (''b5:'' @ replicate 128 (CHR ''A'')) =
      Inr \<lparr>md_Type = DigestTypeB5, md_Value = replicate 64 0xAA\<rparr>"
    by code_simp
  show ?thesis using p parse_module_digest_canonical [OF p] by blast
qed

end
