(* ===== verification/Manifest.thy ===== *)
theory Manifest
  imports Digest
begin

text \<open>
  Manifests (\<open>internal/storage/manifest.go\<close>, the pure part): the canonical text of a
  file list, its parser, and the B4 and B5 module digests computed from it.  SHAKE256
  comes from \<open>golang.org/x/crypto\<close>, which is not part of the repository: it is the
  argument \<open>shake\<close> of every definition that hashes (its 64 output bytes as a function of
  the hashed content).
\<close>

record ManifestEntry =
  me_Digest :: Digest
  me_Path :: string

record Manifest =
  mf_Entries :: "ManifestEntry list"

section \<open>Serialization\<close>

definition entryLine :: "ManifestEntry \<Rightarrow> string" where
  "entryLine entry = Digest_String (me_Digest entry) @ ''  '' @ me_Path entry"

definition SerializeManifest :: "Manifest \<Rightarrow> string" where
  "SerializeManifest m =
     (let entries = sort_key me_Path (mf_Entries m)
      in concat (map (\<lambda>entry. entryLine entry @ [CHR 0x0A]) entries))"

section \<open>Parsing\<close>

text \<open>
  \<open>bufio.Scanner\<close> with its default split function and limit: the content is cut at line
  feeds, an empty rest is no line, one trailing carriage return is dropped, and a line of
  64 KiB or more ends the scan with \<open>bufio.ErrTooLong\<close>.
\<close>

definition maxTokenSize :: nat where
  "maxTokenSize = 65536"

definition errTooLong :: goerr where
  "errTooLong = Errorf ''bufio.Scanner: token too long''"

definition scanLines :: "string \<Rightarrow> string list" where
  "scanLines content =
     (let ls = SplitByte (CHR 0x0A) content in if last ls = [] then butlast ls else ls)"

definition dropCR :: "string \<Rightarrow> string" where
  "dropCR l = (if l \<noteq> [] \<and> last l = CHR 0x0D then butlast l else l)"

fun ParseLines :: "string list \<Rightarrow> ManifestEntry list res" where
  "ParseLines [] = Inr []"
| "ParseLines (raw # rest) =
     (if maxTokenSize \<le> length raw then Inl errTooLong
      else
        let line = dropCR raw in
        if line = [] then ParseLines rest
        else
          (case CutTwoSpaces line of
             None \<Rightarrow> Inl (Errorf (''invalid manifest line: '' @ line))
           | Some (digestStr, path) \<Rightarrow>
               (case ParseDigest digestStr of
                  Inl err \<Rightarrow> Inl (Wrapf ''invalid digest in manifest: '' err)
                | Inr digest \<Rightarrow>
                    (case ParseLines rest of
                       Inl err \<Rightarrow> Inl err
                     | Inr entries \<Rightarrow>
                         Inr (\<lparr>me_Digest = digest, me_Path = path\<rparr> # entries)))))"

definition ParseManifest :: "string \<Rightarrow> Manifest res" where
  "ParseManifest content =
     (case ParseLines (scanLines content) of
        Inl err \<Rightarrow> Inl err
      | Inr entries \<Rightarrow> Inr \<lparr>mf_Entries = entries\<rparr>)"

section \<open>Digests of a manifest\<close>

definition computeFilesDigest :: "(string \<Rightarrow> byte list) \<Rightarrow> string \<Rightarrow> Digest" where
  "computeFilesDigest shake content =
     \<lparr>d_Algorithm = DigestAlgorithmShake256, d_Value = shake content\<rparr>"

fun collectDepStrings :: "ModuleDigest list \<Rightarrow> string list res" where
  "collectDepStrings [] = Inr []"
| "collectDepStrings (d # ds) =
     (if md_Type d \<noteq> DigestTypeB5
      then Inl (Errorf (''dependency digest must be B5, got '' @ DigestType_String (md_Type d)))
      else (case collectDepStrings ds of
              Inl err \<Rightarrow> Inl err
            | Inr strs \<Rightarrow> Inr (ModuleDigest_String d # strs)))"

definition b5Input :: "(string \<Rightarrow> byte list) \<Rightarrow> Manifest \<Rightarrow> string list \<Rightarrow> string" where
  "b5Input shake manifest depDigestStrings =
     JoinWith [CHR 0x0A]
       (Digest_String (computeFilesDigest shake (SerializeManifest manifest))
        # sort depDigestStrings)"

definition ComputeB5Digest ::
  "(string \<Rightarrow> byte list) \<Rightarrow> Manifest \<Rightarrow> ModuleDigest list \<Rightarrow> ModuleDigest res" where
  "ComputeB5Digest shake manifest depDigests =
     (case collectDepStrings depDigests of
        Inl err \<Rightarrow> Inl err
      | Inr strs \<Rightarrow>
          Inr \<lparr>md_Type = DigestTypeB5, md_Value = shake (b5Input shake manifest strs)\<rparr>)"

definition ComputeB4Digest :: "(string \<Rightarrow> byte list) \<Rightarrow> Manifest \<Rightarrow> ModuleDigest" where
  "ComputeB4Digest shake manifest =
     (let digest = computeFilesDigest shake (SerializeManifest manifest)
      in \<lparr>md_Type = DigestTypeB4, md_Value = d_Value digest\<rparr>)"

section \<open>Lemmas\<close>

text \<open>What an entry needs to survive the line format.\<close>

definition wfEntry :: "ManifestEntry \<Rightarrow> bool" where
  "wfEntry e \<longleftrightarrow>
     CHR '':'' \<notin> set (d_Algorithm (me_Digest e)) \<and>
     CHR '' '' \<notin> set (d_Algorithm (me_Digest e)) \<and>
     CHR 0x0A \<notin> set (d_Algorithm (me_Digest e)) \<and>
     CHR 0x0A \<notin> set (me_Path e) \<and>
     (me_Path e \<noteq> [] \<longrightarrow> last (me_Path e) \<noteq> CHR 0x0D) \<and>
     length (entryLine e) < maxTokenSize"

lemma scanLines_concat:
  "\<forall>l \<in> set ls. CHR 0x0A \<notin> set l \<Longrightarrow> scanLines (concat (map (\<lambda>l. l @ [CHR 0x0A]) ls)) = ls"
proof -
  assume "\<forall>l \<in> set ls. CHR 0x0A \<notin> set l"
  then have "SplitByte (CHR 0x0A) (concat (map (\<lambda>l. l @ [CHR 0x0A]) ls)) = ls @ [[]]"
    by (induction ls) (auto simp: SplitByte_append_sep)
  then show ?thesis by (simp add: scanLines_def)
qed

lemma no_space_Digest_String:
  "CHR '' '' \<notin> set (d_Algorithm d) \<Longrightarrow> CHR '' '' \<notin> set (Digest_String d)"
  by (simp add: Digest_String_def EncodeToString_not_special)

lemma no_nl_entryLine: "wfEntry e \<Longrightarrow> CHR 0x0A \<notin> set (entryLine e)"
  by (simp add: wfEntry_def entryLine_def Digest_String_def EncodeToString_not_special)

lemma dropCR_entryLine: "wfEntry e \<Longrightarrow> dropCR (entryLine e) = entryLine e"
  by (cases "me_Path e = []") (auto simp: dropCR_def entryLine_def wfEntry_def)

lemma CutTwoSpaces_entryLine:
  "wfEntry e \<Longrightarrow> CutTwoSpaces (entryLine e) = Some (Digest_String (me_Digest e), me_Path e)"
  by (simp add: entryLine_def CutTwoSpaces_append no_space_Digest_String wfEntry_def)

lemma entryLine_not_Nil: "entryLine e \<noteq> []"
  by (simp add: entryLine_def Digest_String_def)

lemma ParseLines_entryLines:
  "\<forall>e \<in> set es. wfEntry e \<Longrightarrow> ParseLines (map entryLine es) = Inr es"
proof (induction es)
  case Nil
  show ?case by simp
next
  case (Cons e es)
  then have wf: "wfEntry e" by simp
  then have "ParseDigest (Digest_String (me_Digest e)) = Inr (me_Digest e)"
    by (simp add: wfEntry_def ParseDigest_String)
  moreover have "\<not> maxTokenSize \<le> length (entryLine e)" using wf by (simp add: wfEntry_def)
  ultimately show ?case
    using Cons wf
    by (simp add: dropCR_entryLine CutTwoSpaces_entryLine entryLine_not_Nil Let_def)
qed

lemma ParseManifest_SerializeManifest [go_strings]:
  assumes "\<forall>e \<in> set (mf_Entries m). wfEntry e"
  shows "ParseManifest (SerializeManifest m) = Inr \<lparr>mf_Entries = sort_key me_Path (mf_Entries m)\<rparr>"
proof -
  let ?es = "sort_key me_Path (mf_Entries m)"
  have wf: "\<forall>e \<in> set ?es. wfEntry e" using assms by simp
  have "SerializeManifest m = concat (map (\<lambda>l. l @ [CHR 0x0A]) (map entryLine ?es))"
    by (simp add: SerializeManifest_def Let_def comp_def)
  moreover have "\<forall>l \<in> set (map entryLine ?es). CHR 0x0A \<notin> set l"
    using wf no_nl_entryLine by auto
  ultimately have "scanLines (SerializeManifest m) = map entryLine ?es"
    using scanLines_concat by metis
  then show ?thesis by (simp add: ParseManifest_def ParseLines_entryLines [OF wf])
qed

lemma collectDepStrings_B5:
  "\<forall>d \<in> set ds. md_Type d = DigestTypeB5 \<Longrightarrow>
   collectDepStrings ds = Inr (map ModuleDigest_String ds)"
  by (induction ds) auto

lemma collectDepStrings_types:
  "collectDepStrings ds = Inr strs \<Longrightarrow> \<forall>d \<in> set ds. md_Type d = DigestTypeB5"
  by (induction ds arbitrary: strs) (auto split: if_splits sum.splits)

lemma collectDepStrings_Inr:
  "collectDepStrings ds = Inr strs \<longleftrightarrow>
     (\<forall>d \<in> set ds. md_Type d = DigestTypeB5) \<and> strs = map ModuleDigest_String ds"
  using collectDepStrings_B5 [of ds] collectDepStrings_types [of ds strs] by auto

lemma no_nl_ModuleDigest_B5:
  "md_Type d = DigestTypeB5 \<Longrightarrow> CHR 0x0A \<notin> set (ModuleDigest_String d)"
  by (simp add: ModuleDigest_String_def DigestType_String_def DigestTypeB5_def DigestTypeB4_def
      EncodeToString_not_special)

lemma no_nl_filesDigest: "CHR 0x0A \<notin> set (Digest_String (computeFilesDigest shake c))"
  by (simp add: Digest_String_def computeFilesDigest_def DigestAlgorithmShake256_def
      EncodeToString_not_special)

lemma inj_on_B5_String: "inj_on ModuleDigest_String {d. md_Type d = DigestTypeB5}"
  by (auto simp: inj_on_def ModuleDigest_String_inject_B5)

lemma ComputeB5Digest_B5:
  "\<forall>d \<in> set ds. md_Type d = DigestTypeB5 \<Longrightarrow>
   ComputeB5Digest shake m ds =
     Inr \<lparr>md_Type = DigestTypeB5,
          md_Value = shake (b5Input shake m (map ModuleDigest_String ds))\<rparr>"
  by (simp add: ComputeB5Digest_def collectDepStrings_B5)

lemma ComputeB5Digest_types:
  "ComputeB5Digest shake m ds = Inr md \<Longrightarrow> \<forall>d \<in> set ds. md_Type d = DigestTypeB5"
  by (auto simp: ComputeB5Digest_def dest: collectDepStrings_types split: sum.splits)

lemma ComputeB5Digest_Type: "ComputeB5Digest shake m ds = Inr md \<Longrightarrow> md_Type md = DigestTypeB5"
  by (auto simp: ComputeB5Digest_def split: sum.splits)

lemma ComputeB5Digest_valid:
  assumes "ComputeB5Digest shake m ds = Inr md" and "\<And>c. length (shake c) = 64"
  shows "validModuleDigest md"
  using assms
  by (auto simp: ComputeB5Digest_def validModuleDigest_def knownType_def split: sum.splits)

text \<open>The hashed text determines the files digest and the multiset of dependency digests.\<close>

lemma b5Input_inject:
  assumes eq: "b5Input shake m (map ModuleDigest_String ds) =
      b5Input shake m' (map ModuleDigest_String ds')"
    and B5: "\<forall>d \<in> set ds \<union> set ds'. md_Type d = DigestTypeB5"
  shows "shake (SerializeManifest m) = shake (SerializeManifest m') \<and> mset ds = mset ds'"
proof -
  let ?f = "\<lambda>m. Digest_String (computeFilesDigest shake (SerializeManifest m))"
  have nl: "\<forall>x \<in> set (?f k # sort (map ModuleDigest_String es)). CHR 0x0A \<notin> set x"
    if "\<forall>d \<in> set es. md_Type d = DigestTypeB5" for k es
    using that by (auto simp: no_nl_filesDigest dest: no_nl_ModuleDigest_B5)
  have "?f m # sort (map ModuleDigest_String ds) = ?f m' # sort (map ModuleDigest_String ds')"
    using eq B5 unfolding b5Input_def by (intro JoinWith_inj [where c = "CHR 0x0A"] nl) auto
  then have f: "?f m = ?f m'"
    and s: "sort (map ModuleDigest_String ds) = sort (map ModuleDigest_String ds')" by auto
  from f have "shake (SerializeManifest m) = shake (SerializeManifest m')"
    by (simp add: Digest_String_shake_inject computeFilesDigest_def)
  moreover from s have "mset (map ModuleDigest_String ds) = mset (map ModuleDigest_String ds')"
    by (metis mset_sort)
  then have "mset ds = mset ds'"
    using B5 mset_map_inject [OF inj_on_B5_String] by auto
  ultimately show ?thesis by simp
qed

section \<open>Properties\<close>

text \<open>
  C27. Round trip of the manifest format: parsing the serialized manifest returns its
  entries sorted by path, for entries whose algorithm has no separator, whose path has
  no line feed and no trailing carriage return, and whose line is below bufio's limit.
\<close>

theorem manifest_roundtrip:
  assumes "\<forall>e \<in> set (mf_Entries m). wfEntry e"
  shows "ParseManifest (SerializeManifest m) = Inr \<lparr>mf_Entries = sort_key me_Path (mf_Entries m)\<rparr>"
  by (rule ParseManifest_SerializeManifest [OF assms])

definition exampleEntry :: "byte \<Rightarrow> string \<Rightarrow> ManifestEntry" where
  "exampleEntry b path =
     \<lparr>me_Digest = \<lparr>d_Algorithm = DigestAlgorithmShake256, d_Value = [b, 0xFF]\<rparr>, me_Path = path\<rparr>"

theorem manifest_roundtrip_witness:
  "ParseManifest (SerializeManifest
     \<lparr>mf_Entries = [exampleEntry 1 ''pet/v1/pet.proto'', exampleEntry 2 ''buf  lock'']\<rparr>)
   = Inr \<lparr>mf_Entries = [exampleEntry 2 ''buf  lock'', exampleEntry 1 ''pet/v1/pet.proto'']\<rparr>"
proof -
  have wf: "\<forall>e \<in> set (mf_Entries
      \<lparr>mf_Entries = [exampleEntry 1 ''pet/v1/pet.proto'', exampleEntry 2 ''buf  lock'']\<rparr>). wfEntry e"
    by (simp add: exampleEntry_def wfEntry_def entryLine_def Digest_String_def maxTokenSize_def
        EncodeToString_def hexByte_def hexDigit_def DigestAlgorithmShake256_def)
  have so: "sort_key me_Path [exampleEntry 1 ''pet/v1/pet.proto'', exampleEntry 2 ''buf  lock'']
      = [exampleEntry 2 ''buf  lock'', exampleEntry 1 ''pet/v1/pet.proto'']"
    by code_simp
  show ?thesis using manifest_roundtrip [OF wf] so by simp
qed

text \<open>
  The canonical text does not depend on how the entries were ordered or how they were
  sorted: for distinct paths, any path-sorted permutation of any permutation of the
  entries (all that \<open>sort.Slice\<close> promises) prints the text of \<open>SerializeManifest\<close>.
\<close>

theorem serialize_canonical:
  assumes "mset es = mset (mf_Entries m)" and "sorted (map me_Path es)"
    and "distinct (map me_Path (mf_Entries m))"
  shows "concat (map (\<lambda>entry. entryLine entry @ [CHR 0x0A]) es) = SerializeManifest m
    \<and> (\<forall>m'. mset (mf_Entries m') = mset es \<longrightarrow> SerializeManifest m' = SerializeManifest m)"
proof -
  have "es = sort_key me_Path (mf_Entries m)" using assms by (rule sort_key_unique)
  moreover have "sort_key me_Path (mf_Entries m') = sort_key me_Path (mf_Entries m)"
    if "mset (mf_Entries m') = mset es" for m'
    using that assms by (metis sort_key_perm_cong)
  ultimately show ?thesis unfolding SerializeManifest_def Let_def by metis
qed

theorem serialize_canonical_witness:
  "SerializeManifest \<lparr>mf_Entries = [exampleEntry 1 ''b'', exampleEntry 2 ''a'']\<rparr> =
   SerializeManifest \<lparr>mf_Entries = [exampleEntry 2 ''a'', exampleEntry 1 ''b'']\<rparr>"
proof -
  let ?a = "exampleEntry 2 ''a''" and ?b = "exampleEntry 1 ''b''"
  have path: "me_Path ?a = ''a''" "me_Path ?b = ''b''" by (simp_all add: exampleEntry_def)
  have m: "mset [?a, ?b] = mset (mf_Entries \<lparr>mf_Entries = [?b, ?a]\<rparr>)"
    by (simp only: Manifest.simps mset.simps add_mset_commute)
  have s: "sorted (map me_Path [?a, ?b])" by (simp add: path)
  have d: "distinct (map me_Path (mf_Entries \<lparr>mf_Entries = [?b, ?a]\<rparr>))" by (simp add: path)
  show ?thesis
    using serialize_canonical [OF m s d, THEN conjunct2, rule_format, of "\<lparr>mf_Entries = [?a, ?b]\<rparr>"]
    by (simp only: Manifest.simps)
qed

text \<open>
  The B5 digest does not depend on the order in which the dependency digests are
  collected, and it is refused (with no digest) exactly when some dependency digest is
  not of type B5.
\<close>

theorem b5_dependency_order:
  assumes "mset ds = mset ds'"
  shows "((\<exists>err. ComputeB5Digest shake m ds = Inl err) \<longleftrightarrow>
            (\<exists>d \<in> set ds. md_Type d \<noteq> DigestTypeB5))
    \<and> ((\<forall>d \<in> set ds. md_Type d = DigestTypeB5) \<longrightarrow>
         ComputeB5Digest shake m ds = ComputeB5Digest shake m ds')"
proof -
  have "set ds = set ds'" using assms by (metis mset_eq_setD)
  moreover have "sort (map ModuleDigest_String ds) = sort (map ModuleDigest_String ds')"
    using assms by (metis mset_map properties_for_sort sorted_sort mset_sort)
  ultimately have "ComputeB5Digest shake m ds = ComputeB5Digest shake m ds'"
    if "\<forall>d \<in> set ds. md_Type d = DigestTypeB5"
    using that by (simp add: ComputeB5Digest_B5 b5Input_def)
  moreover have "(\<exists>err. ComputeB5Digest shake m ds = Inl err) \<longleftrightarrow>
      (\<exists>d \<in> set ds. md_Type d \<noteq> DigestTypeB5)"
    by (metis ComputeB5Digest_B5 ComputeB5Digest_types Inl_Inr_False sum.exhaust)
  ultimately show ?thesis by blast
qed

definition exampleDep :: "byte \<Rightarrow> ModuleDigest" where
  "exampleDep b = \<lparr>md_Type = DigestTypeB5, md_Value = [b]\<rparr>"

theorem b5_dependency_order_witness:
  "ComputeB5Digest (\<lambda>c. map of_char c) \<lparr>mf_Entries = []\<rparr> [exampleDep 1, exampleDep 2] =
   ComputeB5Digest (\<lambda>c. map of_char c) \<lparr>mf_Entries = []\<rparr> [exampleDep 2, exampleDep 1]"
proof -
  have h: "mset [exampleDep 1, exampleDep 2] = mset [exampleDep 2, exampleDep 1]" by simp
  show ?thesis
    using b5_dependency_order [OF h, of "\<lambda>c. map of_char c" "\<lparr>mf_Entries = []\<rparr>"]
    by (simp add: exampleDep_def)
qed

text \<open>
  C26. A B5 digest binds the files and the whole dependency tree: unless SHAKE256 collides
  on one of the texts that were hashed, equal B5 digests mean the same canonical manifest
  text and the same multiset of dependency digests.
\<close>

theorem b5_binding:
  assumes "ComputeB5Digest shake m ds = Inr md" and "ComputeB5Digest shake m' ds' = Inr md"
    and "inj_on shake {SerializeManifest m, SerializeManifest m',
           b5Input shake m (map ModuleDigest_String ds),
           b5Input shake m' (map ModuleDigest_String ds')}"
  shows "SerializeManifest m = SerializeManifest m' \<and> mset ds = mset ds'"
proof -
  let ?i = "b5Input shake m (map ModuleDigest_String ds)"
  let ?i' = "b5Input shake m' (map ModuleDigest_String ds')"
  have B5: "\<forall>d \<in> set ds \<union> set ds'. md_Type d = DigestTypeB5"
    using ComputeB5Digest_types assms(1,2) by blast
  then have "shake ?i = shake ?i'" using assms(1,2) by (auto simp: ComputeB5Digest_B5)
  then have "?i = ?i'" using assms(3) by (auto dest: inj_onD)
  from b5Input_inject [OF this B5] show ?thesis using assms(3) by (auto dest: inj_onD)
qed

theorem b5_binding_witness:
  "\<exists>md. ComputeB5Digest (\<lambda>c. if c = [] then [0] else [1]) \<lparr>mf_Entries = []\<rparr> [exampleDep 1, exampleDep 2] = Inr md
     \<and> ComputeB5Digest (\<lambda>c. if c = [] then [0] else [1]) \<lparr>mf_Entries = []\<rparr> [exampleDep 2, exampleDep 1] = Inr md
     \<and> mset [exampleDep 1, exampleDep 2] = mset [exampleDep 2, exampleDep 1]"
proof -
  let ?shake = "\<lambda>c :: string. if c = [] then [0] else [1 :: byte]"
  let ?m = "\<lparr>mf_Entries = []\<rparr> :: Manifest"
  let ?ds = "[exampleDep 1, exampleDep 2]" and ?ds' = "[exampleDep 2, exampleDep 1]"
  have perm: "sort (map ModuleDigest_String ?ds) = sort (map ModuleDigest_String ?ds')"
  proof -
    have "mset (map ModuleDigest_String ?ds) = mset (map ModuleDigest_String ?ds')" by simp
    then show ?thesis by (metis mset_sort properties_for_sort sorted_sort)
  qed
  have i: "b5Input ?shake ?m (map ModuleDigest_String ?ds) =
      b5Input ?shake ?m (map ModuleDigest_String ?ds')"
    unfolding b5Input_def perm ..
  have B5: "\<forall>d \<in> set ?ds. md_Type d = DigestTypeB5" "\<forall>d \<in> set ?ds'. md_Type d = DigestTypeB5"
    by (simp_all add: exampleDep_def)
  have nonempty: "b5Input ?shake ?m strs \<noteq> []" for strs
    by (cases "sort strs") (simp_all add: b5Input_def Digest_String_def)
  have inj: "inj_on ?shake {SerializeManifest ?m, SerializeManifest ?m,
      b5Input ?shake ?m (map ModuleDigest_String ?ds), b5Input ?shake ?m (map ModuleDigest_String ?ds')}"
    using nonempty unfolding i by (simp add: inj_on_def SerializeManifest_def)
  note r = ComputeB5Digest_B5 [OF B5(1), of ?shake ?m] ComputeB5Digest_B5 [OF B5(2), of ?shake ?m, folded i]
  from b5_binding [OF r inj] r show ?thesis by blast
qed

end
