(* ===== verification/Backend.thy ===== *)
theory Backend
  imports Manifest
begin

text \<open>
  What the repository stores and the third-party services it stores it in.

  The documents (\<open>OwnerDoc\<close>, \<open>ModuleDoc\<close>, \<open>CommitDoc\<close>, \<open>LabelDoc\<close> of
  \<open>storage/docstore.go\<close>) are records with the field names of their \<open>docstore\<close> tags.
  The Go Cloud bucket (\<open>gocloud.dev/blob\<close>), the four document collections
  (\<open>gocloud.dev/docstore\<close>), the clock, the UUIDv7 generator (\<open>google/uuid\<close>) and SHAKE256
  (\<open>x/crypto/sha3\<close>) are not in the repository: \<open>backend\<close> is the record of their
  operations over an arbitrary state type, and every definition that uses one takes the
  record as an argument.  The locales state what the code relies on: reads answer from the
  current contents, a write that returns no error has taken effect, a write that fails has
  changed nothing, \<open>Create\<close> refuses an existing key, and a new UUIDv7 is greater than all
  earlier ones.  Contents are seen through an abstraction \<open>view\<close> into the maps of \<open>store\<close>.
  An in-memory backend interprets the locales and serves the witnesses.
\<close>

section \<open>Documents\<close>

record OwnerDoc =
  odoc_ID :: string
  odoc_Name :: string
  odoc_CreateTime :: time

record ModuleDoc =
  mdoc_ID :: string
  mdoc_OwnerID :: string
  mdoc_Owner :: string
  mdoc_Name :: string
  mdoc_Description :: string
  mdoc_DefaultLabelName :: string
  mdoc_CreateTime :: time
  mdoc_UpdateTime :: time

record CommitDoc =
  cdoc_ID :: string
  cdoc_ModuleID :: string
  cdoc_OwnerID :: string
  cdoc_FilesDigest :: string
  cdoc_ModuleDigest :: string
  cdoc_CreateTime :: time
  cdoc_CreatedByUserID :: string
  cdoc_SourceControlURL :: string
  cdoc_DepCommitIDs :: "string list"

record LabelDoc =
  ldoc_ID :: string
  ldoc_ModuleID :: string
  ldoc_Name :: string
  ldoc_CommitID :: string

text \<open>The string-valued fields by their tags, as a query names them.\<close>

definition OwnerDoc_field :: "OwnerDoc \<Rightarrow> string \<Rightarrow> string option" where
  "OwnerDoc_field d = map_of [(''id'', odoc_ID d), (''name'', odoc_Name d)]"

definition ModuleDoc_field :: "ModuleDoc \<Rightarrow> string \<Rightarrow> string option" where
  "ModuleDoc_field d =
     map_of [(''id'', mdoc_ID d), (''owner_id'', mdoc_OwnerID d), (''owner'', mdoc_Owner d),
       (''name'', mdoc_Name d), (''description'', mdoc_Description d),
       (''default_label_name'', mdoc_DefaultLabelName d)]"

definition CommitDoc_field :: "CommitDoc \<Rightarrow> string \<Rightarrow> string option" where
  "CommitDoc_field d =
     map_of [(''id'', cdoc_ID d), (''module_id'', cdoc_ModuleID d), (''owner_id'', cdoc_OwnerID d),
       (''files_digest'', cdoc_FilesDigest d), (''module_digest'', cdoc_ModuleDigest d),
       (''created_by_user_id'', cdoc_CreatedByUserID d),
       (''source_control_url'', cdoc_SourceControlURL d)]"

definition LabelDoc_field :: "LabelDoc \<Rightarrow> string \<Rightarrow> string option" where
  "LabelDoc_field d =
     map_of [(''id'', ldoc_ID d), (''module_id'', ldoc_ModuleID d), (''name'', ldoc_Name d),
       (''commit_id'', ldoc_CommitID d)]"

definition matches :: "('d \<Rightarrow> string \<Rightarrow> string option) \<Rightarrow> (string \<times> string) list \<Rightarrow> 'd \<Rightarrow> bool" where
  "matches fld fs d \<longleftrightarrow> list_all (\<lambda>(f, v). fld d f = Some v) fs"

section \<open>Operations of the third-party services\<close>

text \<open>
  \<open>bkNewReader\<close> is \<open>bucket.NewReader\<close>; its value is what \<open>io.ReadAll\<close> on the reader
  gives.  \<open>bkWrite\<close> is \<open>NewWriter\<close>, \<open>io.Copy\<close> and \<open>Close\<close> together (the code returns
  the error of whichever fails).  A query is a list of \<open>Where(field, "=", value)\<close>; its
  result is the documents the iterator yields and the error, if any, that ends it before
  \<open>io.EOF\<close>.
\<close>

record 's bucket =
  bkNewReader :: "'s \<Rightarrow> string \<Rightarrow> string res res"
  bkExists :: "'s \<Rightarrow> string \<Rightarrow> bool res"
  bkWrite :: "'s \<Rightarrow> string \<Rightarrow> string \<Rightarrow> 's \<times> goerr option"
  bkDelete :: "'s \<Rightarrow> string \<Rightarrow> 's \<times> goerr option"

record ('s, 'd) collection =
  coGet :: "'s \<Rightarrow> string \<Rightarrow> 'd res"
  coCreate :: "'s \<Rightarrow> 'd \<Rightarrow> 's \<times> goerr option"
  coPut :: "'s \<Rightarrow> 'd \<Rightarrow> 's \<times> goerr option"
  coReplace :: "'s \<Rightarrow> 'd \<Rightarrow> 's \<times> goerr option"
  coDelete :: "'s \<Rightarrow> string \<Rightarrow> 's \<times> goerr option"
  coQuery :: "'s \<Rightarrow> (string \<times> string) list \<Rightarrow> 'd list \<times> goerr option"

record 's backend =
  b_bucket :: "'s bucket"
  b_owners :: "('s, OwnerDoc) collection"
  b_modules :: "('s, ModuleDoc) collection"
  b_commits :: "('s, CommitDoc) collection"
  b_labels :: "('s, LabelDoc) collection"
  timeNow :: "'s \<Rightarrow> time \<times> 's"
  uuidNewV7 :: "'s \<Rightarrow> string \<times> 's"
  shake256 :: "string \<Rightarrow> byte list"

section \<open>Abstract contents and laws\<close>

record store =
  vBlobs :: "string \<rightharpoonup> string"
  vOwners :: "string \<rightharpoonup> OwnerDoc"
  vModules :: "string \<rightharpoonup> ModuleDoc"
  vCommits :: "string \<rightharpoonup> CommitDoc"
  vLabels :: "string \<rightharpoonup> LabelDoc"
  vIds :: "string set"

locale bucket_laws =
  fixes bk :: "'s bucket" and view :: "'s \<Rightarrow> store"
  assumes read: "bkNewReader bk s k =
      (case vBlobs (view s) k of None \<Rightarrow> Inl (GCErr GC_NotFound) | Some c \<Rightarrow> Inr (Inr c))"
    and exists: "bkExists bk s k = Inr (vBlobs (view s) k \<noteq> None)"
    and write_ok: "bkWrite bk s k c = (s', None) \<Longrightarrow>
      view s' = (view s)\<lparr>vBlobs := (vBlobs (view s))(k \<mapsto> c)\<rparr>"
    and write_err: "bkWrite bk s k c = (s', Some e) \<Longrightarrow> view s' = view s"
    and delete_ok: "bkDelete bk s k = (s', None) \<Longrightarrow>
      view s' = (view s)\<lparr>vBlobs := (vBlobs (view s))(k := None)\<rparr>"
    and delete_err: "bkDelete bk s k = (s', Some e) \<Longrightarrow>
      view s' = view s \<and> (e = GCErr GC_NotFound \<longrightarrow> vBlobs (view s) k = None)"

locale collection_laws =
  fixes co :: "('s, 'd) collection" and view :: "'s \<Rightarrow> store"
    and sel :: "store \<Rightarrow> string \<rightharpoonup> 'd" and upd :: "(string \<rightharpoonup> 'd) \<Rightarrow> store \<Rightarrow> store"
    and key :: "'d \<Rightarrow> string" and fld :: "'d \<Rightarrow> string \<Rightarrow> string option"
  assumes get: "coGet co s k =
      (case sel (view s) k of None \<Rightarrow> Inl (GCErr GC_NotFound) | Some d \<Rightarrow> Inr d)"
    and create_ok: "coCreate co s d = (s', None) \<Longrightarrow>
      sel (view s) (key d) = None \<and> view s' = upd ((sel (view s))(key d \<mapsto> d)) (view s)"
    and create_err: "coCreate co s d = (s', Some e) \<Longrightarrow>
      view s' = view s \<and> e \<noteq> ErrNotFound \<and> e \<noteq> ErrAlreadyExists \<and>
      (e = GCErr GC_AlreadyExists \<longrightarrow> sel (view s) (key d) \<noteq> None)"
    and create_exists: "sel (view s) (key d) \<noteq> None \<Longrightarrow> snd (coCreate co s d) = Some (GCErr GC_AlreadyExists)"
    and put_ok: "coPut co s d = (s', None) \<Longrightarrow> view s' = upd ((sel (view s))(key d \<mapsto> d)) (view s)"
    and put_err: "coPut co s d = (s', Some e) \<Longrightarrow> view s' = view s"
    and replace_ok: "coReplace co s d = (s', None) \<Longrightarrow>
      sel (view s) (key d) \<noteq> None \<and> view s' = upd ((sel (view s))(key d \<mapsto> d)) (view s)"
    and replace_err: "coReplace co s d = (s', Some e) \<Longrightarrow> view s' = view s"
    and delete_ok: "coDelete co s k = (s', None) \<Longrightarrow> view s' = upd ((sel (view s))(k := None)) (view s)"
    and delete_err: "coDelete co s k = (s', Some e) \<Longrightarrow>
      view s' = view s \<and> (e = GCErr GC_NotFound \<longrightarrow> sel (view s) k = None)"
    and query: "\<exists>ds. coQuery co s fs = (ds, None) \<and> distinct ds \<and>
      set ds = {d. sel (view s) (key d) = Some d \<and> matches fld fs d}"
    and keyed: "sel (view s) k = Some d \<Longrightarrow> key d = k"
    and finite_dom: "finite (dom (sel (view s)))"

locale backend_laws =
  bk: bucket_laws "b_bucket B" view +
  ow: collection_laws "b_owners B" view vOwners "\<lambda>m st. st\<lparr>vOwners := m\<rparr>" odoc_ID OwnerDoc_field +
  mo: collection_laws "b_modules B" view vModules "\<lambda>m st. st\<lparr>vModules := m\<rparr>" mdoc_ID ModuleDoc_field +
  cm: collection_laws "b_commits B" view vCommits "\<lambda>m st. st\<lparr>vCommits := m\<rparr>" cdoc_ID CommitDoc_field +
  la: collection_laws "b_labels B" view vLabels "\<lambda>m st. st\<lparr>vLabels := m\<rparr>" ldoc_ID LabelDoc_field
  for B :: "'s backend" and view :: "'s \<Rightarrow> store" +
  assumes shake_length: "length (shake256 B c) = 64"
    and now_abs: "view (snd (timeNow B s)) = view s"
    and uuid_new: "uuidNewV7 B s = (u, s') \<Longrightarrow>
      removeDashes u \<noteq> [] \<and> (\<forall>x \<in> vIds (view s). x < removeDashes u)
      \<and> view s' = (view s)\<lparr>vIds := insert (removeDashes u) (vIds (view s))\<rparr>"

section \<open>An in-memory backend\<close>

text \<open>
  The counterpart of \<open>memblob\<close> and \<open>memdocstore\<close>, which the repository's tests use: lists
  of entries, a counter for the clock and for identifiers, and a checksum with a prefix in the place
  of SHAKE256.  It never fails a write.
\<close>

record mem =
  m_blobs :: "(string \<times> string) list"
  m_owners :: "OwnerDoc list"
  m_modules :: "ModuleDoc list"
  m_commits :: "CommitDoc list"
  m_labels :: "LabelDoc list"
  m_tick :: nat

definition memEmpty :: mem where
  "memEmpty = \<lparr>m_blobs = [], m_owners = [], m_modules = [], m_commits = [], m_labels = [], m_tick = 0\<rparr>"

definition memFind :: "('d \<Rightarrow> string) \<Rightarrow> 'd list \<Rightarrow> string \<Rightarrow> 'd option" where
  "memFind key xs k = find (\<lambda>d. key d = k) xs"

definition memStore :: "('d \<Rightarrow> string) \<Rightarrow> 'd \<Rightarrow> 'd list \<Rightarrow> 'd list" where
  "memStore key d xs = filter (\<lambda>x. key x \<noteq> key d) xs @ [d]"

definition memCollection ::
  "(mem \<Rightarrow> 'd list) \<Rightarrow> ('d list \<Rightarrow> mem \<Rightarrow> mem) \<Rightarrow> ('d \<Rightarrow> string)
   \<Rightarrow> ('d \<Rightarrow> string \<Rightarrow> string option) \<Rightarrow> (mem, 'd) collection" where
  "memCollection gt st key fld =
     \<lparr>coGet = (\<lambda>s k. case memFind key (gt s) k of None \<Rightarrow> Inl (GCErr GC_NotFound) | Some d \<Rightarrow> Inr d),
      coCreate = (\<lambda>s d. case memFind key (gt s) (key d) of
          Some _ \<Rightarrow> (s, Some (GCErr GC_AlreadyExists))
        | None \<Rightarrow> (st (memStore key d (gt s)) s, None)),
      coPut = (\<lambda>s d. (st (memStore key d (gt s)) s, None)),
      coReplace = (\<lambda>s d. case memFind key (gt s) (key d) of
          None \<Rightarrow> (s, Some (GCErr GC_NotFound))
        | Some _ \<Rightarrow> (st (memStore key d (gt s)) s, None)),
      coDelete = (\<lambda>s k. (st (filter (\<lambda>x. key x \<noteq> k) (gt s)) s, None)),
      coQuery = (\<lambda>s fs. (filter (matches fld fs)
          (remdups (filter (\<lambda>d. memFind key (gt s) (key d) = Some d) (gt s))), None))\<rparr>"

definition memBucket :: "mem bucket" where
  "memBucket =
     \<lparr>bkNewReader = (\<lambda>s k. case map_of (m_blobs s) k of
          None \<Rightarrow> Inl (GCErr GC_NotFound) | Some c \<Rightarrow> Inr (Inr c)),
      bkExists = (\<lambda>s k. Inr (map_of (m_blobs s) k \<noteq> None)),
      bkWrite = (\<lambda>s k c. (s\<lparr>m_blobs := (k, c) # m_blobs s\<rparr>, None)),
      bkDelete = (\<lambda>s k. (s\<lparr>m_blobs := filter (\<lambda>(k', _). k' \<noteq> k) (m_blobs s)\<rparr>, None))\<rparr>"

definition memUuid :: "nat \<Rightarrow> string" where
  "memUuid n = ''0-'' @ replicate n (CHR ''a'')"

definition memShake :: "string \<Rightarrow> byte list" where
  "memShake c =
     foldl (\<lambda>acc x. acc * 31 + of_char x + 1) 7 c # take 63 (map of_char c @ replicate 63 0)"

definition memBackend :: "mem backend" where
  "memBackend =
     \<lparr>b_bucket = memBucket,
      b_owners = memCollection m_owners (\<lambda>xs s. s\<lparr>m_owners := xs\<rparr>) odoc_ID OwnerDoc_field,
      b_modules = memCollection m_modules (\<lambda>xs s. s\<lparr>m_modules := xs\<rparr>) mdoc_ID ModuleDoc_field,
      b_commits = memCollection m_commits (\<lambda>xs s. s\<lparr>m_commits := xs\<rparr>) cdoc_ID CommitDoc_field,
      b_labels = memCollection m_labels (\<lambda>xs s. s\<lparr>m_labels := xs\<rparr>) ldoc_ID LabelDoc_field,
      timeNow = (\<lambda>s. (int (m_tick s) + 1, s)),
      uuidNewV7 = (\<lambda>s. (memUuid (m_tick s), s\<lparr>m_tick := Suc (m_tick s)\<rparr>)),
      shake256 = memShake\<rparr>"

definition memView :: "mem \<Rightarrow> store" where
  "memView s =
     \<lparr>vBlobs = map_of (m_blobs s), vOwners = memFind odoc_ID (m_owners s),
      vModules = memFind mdoc_ID (m_modules s), vCommits = memFind cdoc_ID (m_commits s),
      vLabels = memFind ldoc_ID (m_labels s),
      vIds = (\<lambda>n. removeDashes (memUuid n)) ` {..< m_tick s}\<rparr>"

lemma memFind_store: "memFind key (memStore key d xs) = (memFind key xs)(key d \<mapsto> d)"
proof
  fix k
  show "memFind key (memStore key d xs) k = ((memFind key xs)(key d \<mapsto> d)) k"
    by (induction xs) (auto simp: memFind_def memStore_def)
qed

lemma memFind_delete: "memFind key (filter (\<lambda>x. key x \<noteq> k) xs) = (memFind key xs)(k := None)"
proof
  fix k'
  show "memFind key (filter (\<lambda>x. key x \<noteq> k) xs) k' = ((memFind key xs)(k := None)) k'"
    by (induction xs) (auto simp: memFind_def)
qed

lemma memFind_keyed: "memFind key xs k = Some d \<Longrightarrow> key d = k \<and> d \<in> set xs"
  by (auto simp: memFind_def find_Some_iff)

lemma finite_memFind: "finite (dom (memFind key xs))"
proof (rule finite_subset)
  show "dom (memFind key xs) \<subseteq> key ` set xs" using memFind_keyed by fastforce
qed simp

lemma memCollection_laws:
  assumes view: "\<And>s. sel (vw s) = memFind key (gt s)"
    and upd: "\<And>s xs. vw (st xs s) = upd (memFind key xs) (vw s)"
  shows "collection_laws (memCollection gt st key fld) vw sel upd key fld"
proof
  fix s fs
  show "\<exists>ds. coQuery (memCollection gt st key fld) s fs = (ds, None) \<and> distinct ds \<and>
      set ds = {d. sel (vw s) (key d) = Some d \<and> matches fld fs d}"
    by (auto simp: memCollection_def view dest: memFind_keyed)
qed (auto simp: memCollection_def view upd memFind_store memFind_delete finite_memFind
       dest: memFind_keyed split: option.splits)

lemma less_append_nonempty: "ys \<noteq> [] \<Longrightarrow> (xs :: string) < xs @ ys"
  by (induction xs) (auto simp: neq_Nil_conv)

lemma removeDashes_memUuid: "removeDashes (memUuid n) = CHR ''0'' # replicate n (CHR ''a'')"
  by (simp add: removeDashes_def memUuid_def)

lemma memUuid_less: "m < n \<Longrightarrow> removeDashes (memUuid m) < removeDashes (memUuid n)"
proof -
  assume "m < n"
  then have "replicate n (CHR ''a'') = replicate m (CHR ''a'') @ replicate (n - m) (CHR ''a'')"
    by (simp flip: replicate_add)
  moreover have "replicate (n - m) (CHR ''a'') \<noteq> []" using \<open>m < n\<close> by simp
  ultimately show ?thesis
    using less_append_nonempty [of "replicate (n - m) (CHR ''a'')"] by (simp add: removeDashes_memUuid)
qed

lemma map_of_delete: "map_of (filter (\<lambda>(k', _). k' \<noteq> k) xs) = (map_of xs)(k := None)"
  by (induction xs) (auto simp: fun_eq_iff)

lemma memBucket_laws: "bucket_laws memBucket memView"
  by unfold_locales (auto simp: memBucket_def memView_def map_of_delete split: option.splits)

interpretation mem: backend_laws memBackend memView
proof (intro backend_laws.intro backend_laws_axioms.intro)
  show "bucket_laws (b_bucket memBackend) memView"
    by (simp add: memBackend_def memBucket_laws)
  show "collection_laws (b_owners memBackend) memView vOwners (\<lambda>m st. st\<lparr>vOwners := m\<rparr>)
      odoc_ID OwnerDoc_field"
    unfolding memBackend_def backend.simps
    by (rule memCollection_laws) (simp_all add: memView_def)
  show "collection_laws (b_modules memBackend) memView vModules (\<lambda>m st. st\<lparr>vModules := m\<rparr>)
      mdoc_ID ModuleDoc_field"
    unfolding memBackend_def backend.simps
    by (rule memCollection_laws) (simp_all add: memView_def)
  show "collection_laws (b_commits memBackend) memView vCommits (\<lambda>m st. st\<lparr>vCommits := m\<rparr>)
      cdoc_ID CommitDoc_field"
    unfolding memBackend_def backend.simps
    by (rule memCollection_laws) (simp_all add: memView_def)
  show "collection_laws (b_labels memBackend) memView vLabels (\<lambda>m st. st\<lparr>vLabels := m\<rparr>)
      ldoc_ID LabelDoc_field"
    unfolding memBackend_def backend.simps
    by (rule memCollection_laws) (simp_all add: memView_def)
  show "length (shake256 memBackend c) = 64" for c
    by (simp add: memBackend_def memShake_def Let_def)
  show "memView (snd (timeNow memBackend s)) = memView s" for s
    by (simp add: memBackend_def)
  show "removeDashes u \<noteq> [] \<and> (\<forall>x \<in> vIds (memView s). x < removeDashes u) \<and>
      memView s' = (memView s)\<lparr>vIds := insert (removeDashes u) (vIds (memView s))\<rparr>"
    if "uuidNewV7 memBackend s = (u, s')" for s u s'
  proof -
    have u: "u = memUuid (m_tick s)" "s' = s\<lparr>m_tick := Suc (m_tick s)\<rparr>"
      using that by (simp_all add: memBackend_def)
    have "\<forall>x \<in> vIds (memView s). x < removeDashes u"
      by (auto simp: memView_def u memUuid_less)
    moreover have "removeDashes u \<noteq> []" by (simp add: u removeDashes_memUuid)
    ultimately show ?thesis by (simp add: memView_def u lessThan_Suc)
  qed
qed

end
