(* ===== verification/Blob_Store.thy ===== *)
theory Blob_Store
  imports Backend
begin

text \<open>
  The content-addressable stores: \<open>BlobStoreImpl\<close> (\<open>storage/blob.go\<close>) for file contents
  and \<open>ManifestStoreImpl\<close> (\<open>storage/manifest.go\<close>) for manifests.  Both live in the same
  bucket under different keys.  The locales \<open>blob_store\<close> and \<open>manifest_store\<close> are the
  contracts behind the Go interfaces \<open>BlobStore\<close> and \<open>ManifestStore\<close>; the implementations
  satisfy them over every backend that keeps its laws.
\<close>

section \<open>BlobStoreImpl\<close>

definition blobKey :: "Digest \<Rightarrow> string" where
  "blobKey digest =
     (let hex = Digest_Hex digest
      in if length hex < 2 then d_Algorithm digest @ ''/'' @ hex
         else d_Algorithm digest @ ''/'' @ take 2 hex @ ''/'' @ hex)"

definition Blob_Get :: "'s backend \<Rightarrow> 's \<Rightarrow> Digest \<Rightarrow> string res res" where
  "Blob_Get B s digest =
     (case bkNewReader (b_bucket B) s (blobKey digest) of
        Inl err \<Rightarrow> if gcCode err = Some GC_NotFound then Inl ErrNotFound else Inl err
      | Inr r \<Rightarrow> Inr r)"

text \<open>The reader argument is given by what \<open>io.ReadAll\<close> returns on it.\<close>

definition Blob_Put :: "'s backend \<Rightarrow> 's \<Rightarrow> string res \<Rightarrow> 's \<times> Digest res" where
  "Blob_Put B s r =
     (case r of
        Inl err \<Rightarrow> (s, Inl err)
      | Inr content \<Rightarrow>
          let digest = \<lparr>d_Algorithm = DigestAlgorithmShake256, d_Value = shake256 B content\<rparr>;
              key = blobKey digest
          in (case bkExists (b_bucket B) s key of
                Inl err \<Rightarrow> (s, Inl err)
              | Inr exists \<Rightarrow>
                  if exists then (s, Inr digest)
                  else (case bkWrite (b_bucket B) s key content of
                          (s', Some err) \<Rightarrow> (s', Inl err)
                        | (s', None) \<Rightarrow> (s', Inr digest))))"

definition Blob_Exists :: "'s backend \<Rightarrow> 's \<Rightarrow> Digest \<Rightarrow> bool res" where
  "Blob_Exists B s digest = bkExists (b_bucket B) s (blobKey digest)"

definition Blob_Delete :: "'s backend \<Rightarrow> 's \<Rightarrow> Digest \<Rightarrow> 's \<times> goerr option" where
  "Blob_Delete B s digest =
     (case bkDelete (b_bucket B) s (blobKey digest) of
        (s', Some err) \<Rightarrow> if gcCode err = Some GC_NotFound then (s', None) else (s', Some err)
      | (s', None) \<Rightarrow> (s', None))"

section \<open>ManifestStoreImpl\<close>

definition manifestPath :: "Digest \<Rightarrow> string" where
  "manifestPath digest = ''manifests/'' @ d_Algorithm digest @ ''/'' @ Digest_Hex digest"

definition GetManifest :: "'s backend \<Rightarrow> 's \<Rightarrow> Digest \<Rightarrow> Manifest res" where
  "GetManifest B s digest =
     (case bkNewReader (b_bucket B) s (manifestPath digest) of
        Inl err \<Rightarrow> if gcCode err = Some GC_NotFound then Inl ErrNotFound else Inl err
      | Inr r \<Rightarrow> (case r of Inl err \<Rightarrow> Inl err | Inr content \<Rightarrow> ParseManifest content))"

definition PutManifest :: "'s backend \<Rightarrow> 's \<Rightarrow> Manifest \<Rightarrow> 's \<times> Digest res" where
  "PutManifest B s manifest =
     (let content = SerializeManifest manifest;
          digest = computeFilesDigest (shake256 B) content;
          key = manifestPath digest
      in (case bkExists (b_bucket B) s key of
            Inl err \<Rightarrow> (s, Inl err)
          | Inr exists \<Rightarrow>
              if exists then (s, Inr digest)
              else (case bkWrite (b_bucket B) s key content of
                      (s', Some err) \<Rightarrow> (s', Inl err)
                    | (s', None) \<Rightarrow> (s', Inr digest))))"

definition Manifest_Exists :: "'s backend \<Rightarrow> 's \<Rightarrow> Digest \<Rightarrow> bool res" where
  "Manifest_Exists B s digest = bkExists (b_bucket B) s (manifestPath digest)"

section \<open>Contracts\<close>

text \<open>
  A content-addressed store: \<open>put\<close> answers with the hash of the text and makes some text
  readable under it, without touching what is stored under other keys.
\<close>

locale cas_store =
  fixes hash :: "string \<Rightarrow> Digest" and key :: "Digest \<Rightarrow> string"
    and stored :: "'s \<Rightarrow> Digest \<Rightarrow> string option"
    and put :: "'s \<Rightarrow> string \<Rightarrow> 's \<times> Digest res"
  assumes put_ok: "put s c = (s', Inr d) \<Longrightarrow> d = hash c \<and>
      stored s' d' = (if key d' = key (hash c)
        then Some (case stored s d' of Some c0 \<Rightarrow> c0 | None \<Rightarrow> c) else stored s d')"
    and put_err: "put s c = (s', Inl e) \<Longrightarrow> stored s' = stored s"
    and key_hash: "key (hash a) = key (hash b) \<Longrightarrow> hash a = hash b"
    and stored_key: "key d = key d' \<Longrightarrow> stored s d = stored s d'"
begin

text \<open>Every text stored under a hash has that hash.\<close>

definition consistent :: "'s \<Rightarrow> bool" where
  "consistent s \<longleftrightarrow> (\<forall>a c. stored s (hash a) = Some c \<longrightarrow> hash a = hash c)"

lemma consistentD: "consistent s \<Longrightarrow> stored s (hash a) = Some c \<Longrightarrow> hash a = hash c"
  unfolding consistent_def by blast

lemma put_consistent: "put s c = (s', r) \<Longrightarrow> consistent s \<Longrightarrow> consistent s'"
proof (cases r)
  case (Inl e)
  assume "put s c = (s', r)" "consistent s"
  then show ?thesis using put_err Inl by (simp add: consistent_def)
next
  case (Inr d)
  assume p: "put s c = (s', r)" and con: "consistent s"
  show ?thesis unfolding consistent_def
  proof (intro allI impI)
    fix a c'
    assume st: "stored s' (hash a) = Some c'"
    show "hash a = hash c'"
    proof (cases "key (hash a) = key (hash c)")
      case True
      then have a: "hash a = hash c" by (rule key_hash)
      show ?thesis
        using put_ok [OF p [unfolded Inr], of "hash a"] st True consistentD [OF con, of a] a
        by (auto split: option.splits)
    next
      case False
      then show ?thesis
        using put_ok [OF p [unfolded Inr], of "hash a"] st consistentD [OF con, of a] by simp
    qed
  qed
qed

text \<open>The text found under the hash of \<open>c\<close> after a \<open>put\<close> is \<open>c\<close>, unless the hash collides.\<close>

lemma put_stored:
  assumes "put s c = (s', Inr d)" "consistent s"
    and "\<And>c0. stored s (hash c) = Some c0 \<Longrightarrow> hash c0 = hash c \<Longrightarrow> c0 = c"
  shows "d = hash c \<and> stored s' (hash c) = Some c"
proof -
  have "stored s' (hash c) = Some (case stored s (hash c) of Some c0 \<Rightarrow> c0 | None \<Rightarrow> c)"
    using put_ok [OF assms(1), of "hash c"] by simp
  moreover have "c0 = c" if "stored s (hash c) = Some c0" for c0
    using consistentD [OF assms(2) that] assms(3) [OF that] by simp
  ultimately show ?thesis
    using put_ok [OF assms(1)] by (auto split: option.splits)
qed

lemma put_keeps: "put s c = (s', r) \<Longrightarrow> stored s d = Some x \<Longrightarrow> stored s' d = Some x"
  by (cases r) (auto dest: put_err put_ok [where d' = d] split: if_splits)

lemma put_again:
  assumes "put s c = (s', Inr d)" "put s' c = (s'', Inr d2)"
  shows "d2 = d \<and> stored s'' = stored s'"
proof
  show "d2 = d" using put_ok [OF assms(1)] put_ok [OF assms(2)] by simp
  show "stored s'' = stored s'"
  proof
    fix x
    show "stored s'' x = stored s' x"
      using put_ok [OF assms(1), of x] put_ok [OF assms(2), of x] by auto
  qed
qed

end

text \<open>The interface \<open>BlobStore\<close>: reading answers from what is stored, deleting removes it.\<close>

locale blob_store = cas_store hash key stored "\<lambda>s c. put s (Inr c)"
  for hash :: "string \<Rightarrow> Digest" and key :: "Digest \<Rightarrow> string"
    and stored :: "'s \<Rightarrow> Digest \<Rightarrow> string option"
    and put :: "'s \<Rightarrow> string res \<Rightarrow> 's \<times> Digest res" +
  fixes get :: "'s \<Rightarrow> Digest \<Rightarrow> string res res"
    and exists :: "'s \<Rightarrow> Digest \<Rightarrow> bool res"
    and delete :: "'s \<Rightarrow> Digest \<Rightarrow> 's \<times> goerr option"
  assumes get_stored: "get s d =
      (case stored s d of None \<Rightarrow> Inl ErrNotFound | Some c \<Rightarrow> Inr (Inr c))"
    and exists_stored: "exists s d = Inr (stored s d \<noteq> None)"
    and put_unreadable: "put s (Inl e) = (s, Inl e)"
    and delete_ok: "delete s d = (s', None) \<Longrightarrow>
      stored s' d' = (if key d' = key d then None else stored s d')"
    and delete_err: "delete s d = (s', Some e) \<Longrightarrow> stored s' = stored s"
begin

lemma put_get:
  assumes "put s (Inr c) = (s', Inr d)" "consistent s"
    and "\<And>c0. stored s (hash c) = Some c0 \<Longrightarrow> hash c0 = hash c \<Longrightarrow> c0 = c"
  shows "get s' d = Inr (Inr c)"
  using put_stored [OF assms] by (simp add: get_stored)

lemma delete_get: "delete s d = (s', None) \<Longrightarrow> get s' d = Inl ErrNotFound"
  by (simp add: get_stored delete_ok)

lemma delete_consistent: "delete s d = (s', r) \<Longrightarrow> consistent s \<Longrightarrow> consistent s'"
  by (cases r) (auto simp: consistent_def delete_ok dest: delete_err split: if_splits)

end

text \<open>The interface \<open>ManifestStore\<close>, over the same notion of a content-addressed store.\<close>

locale manifest_store = cas_store hash key stored put
  for hash :: "string \<Rightarrow> Digest" and key :: "Digest \<Rightarrow> string"
    and stored :: "'s \<Rightarrow> Digest \<Rightarrow> string option"
    and put :: "'s \<Rightarrow> string \<Rightarrow> 's \<times> Digest res" +
  fixes putM :: "'s \<Rightarrow> Manifest \<Rightarrow> 's \<times> Digest res"
    and getM :: "'s \<Rightarrow> Digest \<Rightarrow> Manifest res"
    and existsM :: "'s \<Rightarrow> Digest \<Rightarrow> bool res"
  assumes putM_put: "putM s m = put s (SerializeManifest m)"
    and getM_stored: "getM s d =
      (case stored s d of None \<Rightarrow> Inl ErrNotFound | Some c \<Rightarrow> ParseManifest c)"
    and existsM_stored: "existsM s d = Inr (stored s d \<noteq> None)"
begin

lemma putM_getM:
  assumes "putM s m = (s', Inr d)" "consistent s" "\<forall>e \<in> set (mf_Entries m). wfEntry e"
    and "\<And>c0. stored s (hash (SerializeManifest m)) = Some c0 \<Longrightarrow>
           hash c0 = hash (SerializeManifest m) \<Longrightarrow> c0 = SerializeManifest m"
  shows "getM s' d = Inr \<lparr>mf_Entries = sort_key me_Path (mf_Entries m)\<rparr>"
  using put_stored [OF assms(1) [unfolded putM_put] assms(2,4)]
  by (simp add: getM_stored ParseManifest_SerializeManifest assms(3))

end

section \<open>The implementations keep the contracts\<close>

text \<open>Both \<open>Put\<close> operations, reduced to one function of the key.\<close>

definition putText :: "'s backend \<Rightarrow> (Digest \<Rightarrow> string) \<Rightarrow> 's \<Rightarrow> string \<Rightarrow> 's \<times> Digest res" where
  "putText B key s c =
     (let digest = computeFilesDigest (shake256 B) c
      in (case bkExists (b_bucket B) s (key digest) of
            Inl err \<Rightarrow> (s, Inl err)
          | Inr exists \<Rightarrow>
              if exists then (s, Inr digest)
              else (case bkWrite (b_bucket B) s (key digest) c of
                      (s', Some err) \<Rightarrow> (s', Inl err)
                    | (s', None) \<Rightarrow> (s', Inr digest))))"

lemma Blob_Put_putText: "Blob_Put B s (Inr c) = putText B blobKey s c"
  by (simp add: Blob_Put_def putText_def computeFilesDigest_def Let_def)

lemma PutManifest_putText: "PutManifest B s m = putText B manifestPath s (SerializeManifest m)"
  by (simp add: PutManifest_def putText_def Let_def)

lemma blobKey_shake:
  assumes "\<And>c. length (shake c) = 64"
  shows "blobKey (computeFilesDigest shake c) =
    ''shake256/'' @ take 2 (EncodeToString (shake c)) @ ''/'' @ EncodeToString (shake c)"
  using assms by (simp add: blobKey_def Let_def computeFilesDigest_def Digest_Hex_def
      DigestAlgorithmShake256_def)

lemma manifestPath_shake:
  "manifestPath (computeFilesDigest shake c) = ''manifests/shake256/'' @ EncodeToString (shake c)"
  by (simp add: manifestPath_def computeFilesDigest_def Digest_Hex_def DigestAlgorithmShake256_def)

lemma blobKey_shake_inject:
  assumes "\<And>c. length (shake c) = 64"
  shows "blobKey (computeFilesDigest shake a) = blobKey (computeFilesDigest shake b)
    \<longleftrightarrow> shake a = shake b"
proof
  assume eq: "blobKey (computeFilesDigest shake a) = blobKey (computeFilesDigest shake b)"
  have "length (take 2 (EncodeToString (shake a))) = length (take 2 (EncodeToString (shake b)))"
    using assms by simp
  then show "shake a = shake b" using eq by (simp add: blobKey_shake assms)
qed (simp add: computeFilesDigest_def)

lemma manifestPath_shake_inject:
  "manifestPath (computeFilesDigest shake a) = manifestPath (computeFilesDigest shake b)
    \<longleftrightarrow> shake a = shake b"
  by (simp add: manifestPath_shake)

lemma blobKey_manifestPath:
  assumes "\<And>c. length (shake c) = 64"
  shows "blobKey (computeFilesDigest shake a) \<noteq> manifestPath (computeFilesDigest shake b)"
  by (simp add: blobKey_shake assms manifestPath_shake)

definition insertBlob :: "string \<Rightarrow> string \<Rightarrow> store \<Rightarrow> store" where
  "insertBlob k c st =
     (if vBlobs st k = None then st\<lparr>vBlobs := (vBlobs st)(k \<mapsto> c)\<rparr> else st)"

lemma vBlobs_insertBlob:
  "vBlobs (insertBlob k c st) k' =
     (if k' = k then Some (case vBlobs st k of Some c0 \<Rightarrow> c0 | None \<Rightarrow> c) else vBlobs st k')"
  by (auto simp: insertBlob_def)

lemma insertBlob_frame [simp]:
  "vOwners (insertBlob k c st) = vOwners st" "vModules (insertBlob k c st) = vModules st"
  "vCommits (insertBlob k c st) = vCommits st" "vLabels (insertBlob k c st) = vLabels st"
  "vIds (insertBlob k c st) = vIds st"
  by (simp_all add: insertBlob_def)

context backend_laws
begin

lemma putText_ok [store_writes]:
  "putText B key s c = (s', Inr d) \<Longrightarrow>
   d = computeFilesDigest (shake256 B) c \<and>
   view s' = insertBlob (key (computeFilesDigest (shake256 B) c)) c (view s)"
  by (auto simp: putText_def Let_def bk.exists insertBlob_def
      dest: bk.write_ok split: if_splits prod.splits option.splits)

lemma putText_err [store_writes]: "putText B key s c = (s', Inl e) \<Longrightarrow> view s' = view s"
  by (auto simp: putText_def Let_def bk.exists
      dest: bk.write_err split: if_splits prod.splits option.splits)

lemma putText_cas:
  assumes inj: "\<And>a b. key (computeFilesDigest (shake256 B) a) = key (computeFilesDigest (shake256 B) b)
      \<Longrightarrow> shake256 B a = shake256 B b"
  shows "cas_store (computeFilesDigest (shake256 B)) key (\<lambda>s d. vBlobs (view s) (key d)) (putText B key)"
proof (unfold_locales, goal_cases)
  case (1 s c s' d d')
  from putText_ok [OF 1] have d: "d = computeFilesDigest (shake256 B) c"
    and v: "view s' = insertBlob (key (computeFilesDigest (shake256 B) c)) c (view s)" by auto
  show ?case unfolding v vBlobs_insertBlob using d by auto
next
  case (2 s c s' e)
  from putText_err [OF this] show ?case by simp
next
  case (3 a b)
  from inj [OF this] show ?case by (simp add: computeFilesDigest_def)
next
  case (4 d d' s)
  then show ?case by simp
qed

lemma Blob_Get_view [store_reads]:
  "Blob_Get B s d =
     (case vBlobs (view s) (blobKey d) of None \<Rightarrow> Inl ErrNotFound | Some c \<Rightarrow> Inr (Inr c))"
  by (simp add: Blob_Get_def bk.read split: option.splits)

lemma GetManifest_view [store_reads]:
  "GetManifest B s d =
     (case vBlobs (view s) (manifestPath d) of None \<Rightarrow> Inl ErrNotFound | Some c \<Rightarrow> ParseManifest c)"
  by (simp add: GetManifest_def bk.read split: option.splits)

lemma Blob_Delete_ok:
  "Blob_Delete B s d = (s', None) \<Longrightarrow>
   view s' = (view s)\<lparr>vBlobs := (vBlobs (view s))(blobKey d := None)\<rparr>"
proof -
  assume "Blob_Delete B s d = (s', None)"
  then consider "bkDelete (b_bucket B) s (blobKey d) = (s', None)"
    | "bkDelete (b_bucket B) s (blobKey d) = (s', Some (GCErr GC_NotFound))"
    by (auto simp: Blob_Delete_def split: prod.splits option.splits if_splits)
  then show ?thesis
  proof cases
    case 1
    then show ?thesis by (rule bk.delete_ok)
  next
    case 2
    then have "view s' = view s" "vBlobs (view s) (blobKey d) = None"
      using bk.delete_err by blast+
    then show ?thesis by (simp add: fun_upd_idem)
  qed
qed

lemma Blob_Delete_err: "Blob_Delete B s d = (s', Some e) \<Longrightarrow> view s' = view s"
  by (auto simp: Blob_Delete_def dest: bk.delete_err split: prod.splits option.splits if_splits)

end

sublocale backend_laws \<subseteq> bs: blob_store "computeFilesDigest (shake256 B)" blobKey
  "\<lambda>s d. vBlobs (view s) (blobKey d)" "Blob_Put B" "Blob_Get B" "Blob_Exists B" "Blob_Delete B"
proof (intro blob_store.intro blob_store_axioms.intro)
  show "cas_store (computeFilesDigest (shake256 B)) blobKey
      (\<lambda>s d. vBlobs (view s) (blobKey d)) (\<lambda>s c. Blob_Put B s (Inr c))"
    unfolding Blob_Put_putText
    by (rule putText_cas) (simp add: blobKey_shake_inject shake_length)
qed (auto simp: Blob_Get_view Blob_Exists_def bk.exists Blob_Put_def
       dest: Blob_Delete_ok Blob_Delete_err)

sublocale backend_laws \<subseteq> ms: manifest_store "computeFilesDigest (shake256 B)" manifestPath
  "\<lambda>s d. vBlobs (view s) (manifestPath d)" "putText B manifestPath" "PutManifest B"
  "GetManifest B" "Manifest_Exists B"
proof (intro manifest_store.intro manifest_store_axioms.intro)
  show "cas_store (computeFilesDigest (shake256 B)) manifestPath
      (\<lambda>s d. vBlobs (view s) (manifestPath d)) (putText B manifestPath)"
    by (rule putText_cas) (simp add: manifestPath_shake_inject)
qed (auto simp: PutManifest_putText GetManifest_view Manifest_Exists_def bk.exists)

section \<open>Consistency of the whole bucket\<close>

definition casOK :: "(string \<Rightarrow> byte list) \<Rightarrow> store \<Rightarrow> bool" where
  "casOK shake st \<longleftrightarrow>
     (\<forall>a c. vBlobs st (blobKey (computeFilesDigest shake a)) = Some c \<longrightarrow> shake a = shake c) \<and>
     (\<forall>a c. vBlobs st (manifestPath (computeFilesDigest shake a)) = Some c \<longrightarrow> shake a = shake c)"

context backend_laws
begin

lemma casOK_consistent:
  "casOK (shake256 B) (view s) \<longleftrightarrow> bs.consistent s \<and> ms.consistent s"
  by (auto simp: casOK_def bs.consistent_def ms.consistent_def computeFilesDigest_def)

lemma casOK_insertBlob:
  assumes "casOK (shake256 B) st"
    and "key = blobKey \<or> key = manifestPath"
  shows "casOK (shake256 B) (insertBlob (key (computeFilesDigest (shake256 B) c)) c st)"
  using assms
  by (auto simp: casOK_def vBlobs_insertBlob blobKey_shake_inject [OF shake_length]
      manifestPath_shake_inject blobKey_manifestPath [OF shake_length]
      blobKey_manifestPath [OF shake_length, symmetric] split: if_splits option.splits)

lemma Blob_Put_view:
  "Blob_Put B s (Inr c) = (s', r) \<Longrightarrow>
   (case r of Inl _ \<Rightarrow> view s' = view s
    | Inr d \<Rightarrow> d = computeFilesDigest (shake256 B) c \<and>
        view s' = insertBlob (blobKey (computeFilesDigest (shake256 B) c)) c (view s))"
  unfolding Blob_Put_putText by (auto dest: putText_ok putText_err split: sum.split)

lemma PutManifest_view:
  "PutManifest B s m = (s', r) \<Longrightarrow>
   (case r of Inl _ \<Rightarrow> view s' = view s
    | Inr d \<Rightarrow> d = computeFilesDigest (shake256 B) (SerializeManifest m) \<and>
        view s' = insertBlob (manifestPath (computeFilesDigest (shake256 B) (SerializeManifest m)))
          (SerializeManifest m) (view s))"
  unfolding PutManifest_putText by (auto dest: putText_ok putText_err split: sum.split)

lemma casOK_Blob_Put: "Blob_Put B s (Inr c) = (s', r) \<Longrightarrow> casOK (shake256 B) (view s) \<Longrightarrow> casOK (shake256 B) (view s')"
  by (drule Blob_Put_view) (auto intro: casOK_insertBlob split: sum.splits)

lemma casOK_PutManifest: "PutManifest B s m = (s', r) \<Longrightarrow> casOK (shake256 B) (view s) \<Longrightarrow> casOK (shake256 B) (view s')"
  by (drule PutManifest_view) (auto intro: casOK_insertBlob split: sum.splits)

lemma casOK_Blob_Delete: "Blob_Delete B s d = (s', r) \<Longrightarrow> casOK (shake256 B) (view s) \<Longrightarrow> casOK (shake256 B) (view s')"
  by (cases r) (auto simp: casOK_def dest: Blob_Delete_ok Blob_Delete_err split: if_splits)

end

end
