(* ===== verification/Metadata.thy ===== *)
theory Metadata
  imports Blob_Store
begin

text \<open>
  The metadata store (\<open>internal/storage/metadata.go\<close> and \<open>docstore.go\<close>): the records of
  owners, modules, commits and labels, their conversion to and from documents, and every
  operation of \<open>MetadataStoreImpl\<close> over the four collections of the backend.  The lemmas
  reduce each operation to the maps of the abstract \<open>store\<close>, and show the hand-written
  sort and the page loop of \<open>ListCommits\<close> correct.
\<close>

section \<open>Records (metadata.go)\<close>

record OwnerRecord =
  owner_ID :: string
  owner_Name :: string
  owner_CreateTime :: time

record ModuleRecord =
  module_ID :: string
  module_OwnerID :: string
  module_Owner :: string
  module_Name :: string
  module_Description :: string
  module_DefaultLabelName :: string
  module_CreateTime :: time
  module_UpdateTime :: time

record CommitRecord =
  commit_ID :: string
  commit_ModuleID :: string
  commit_OwnerID :: string
  commit_FilesDigest :: Digest
  commit_ModuleDigest :: ModuleDigest
  commit_CreateTime :: time
  commit_CreatedByUserID :: string
  commit_SourceControlURL :: string
  commit_DepCommitIDs :: "string list"

record LabelRecord =
  label_ID :: string
  label_ModuleID :: string
  label_Name :: string
  label_CommitID :: string

text \<open>Go's zero values, used where a field is not set.\<close>

definition zeroModuleDigest :: ModuleDigest where
  "zeroModuleDigest = \<lparr>md_Type = 0, md_Value = []\<rparr>"

section \<open>Owners\<close>

definition ownerDocToRecord :: "OwnerDoc \<Rightarrow> OwnerRecord" where
  "ownerDocToRecord doc =
     \<lparr>owner_ID = odoc_ID doc, owner_Name = odoc_Name doc, owner_CreateTime = odoc_CreateTime doc\<rparr>"

definition Meta_GetOwner :: "'s backend \<Rightarrow> 's \<Rightarrow> string \<Rightarrow> OwnerRecord res" where
  "Meta_GetOwner B s oid =
     (case coGet (b_owners B) s oid of
        Inl err \<Rightarrow> if gcCode err = Some GC_NotFound then Inl ErrNotFound else Inl err
      | Inr doc \<Rightarrow> Inr (ownerDocToRecord doc))"

text \<open>The first answer of an iterator: \<open>io.EOF\<close> at once is \<open>ErrNotFound\<close>.\<close>

definition firstDoc :: "'d list \<times> goerr option \<Rightarrow> 'd res" where
  "firstDoc r =
     (case r of
        (doc # _, _) \<Rightarrow> Inr doc
      | ([], None) \<Rightarrow> Inl ErrNotFound
      | ([], Some err) \<Rightarrow> Inl err)"

text \<open>All answers of an iterator, up to \<open>io.EOF\<close>; another error discards them.\<close>

definition allDocs :: "'d list \<times> goerr option \<Rightarrow> 'd list res" where
  "allDocs r = (case r of (docs, None) \<Rightarrow> Inr docs | (_, Some err) \<Rightarrow> Inl err)"

definition Meta_GetOwnerByName :: "'s backend \<Rightarrow> 's \<Rightarrow> string \<Rightarrow> OwnerRecord res" where
  "Meta_GetOwnerByName B s name =
     (case firstDoc (coQuery (b_owners B) s [(''name'', name)]) of
        Inl err \<Rightarrow> Inl err
      | Inr doc \<Rightarrow> Inr (ownerDocToRecord doc))"

definition ownerRecordToDoc :: "OwnerRecord \<Rightarrow> OwnerDoc" where
  "ownerRecordToDoc owner =
     \<lparr>odoc_ID = owner_ID owner, odoc_Name = owner_Name owner,
      odoc_CreateTime = owner_CreateTime owner\<rparr>"

definition Meta_CreateOwner :: "'s backend \<Rightarrow> 's \<Rightarrow> OwnerRecord \<Rightarrow> 's \<times> goerr option" where
  "Meta_CreateOwner B s owner =
     (case coCreate (b_owners B) s (ownerRecordToDoc owner) of
        (s', Some err) \<Rightarrow>
          if gcCode err = Some GC_AlreadyExists then (s', Some ErrAlreadyExists) else (s', Some err)
      | (s', None) \<Rightarrow> (s', None))"

definition Meta_ListOwners :: "'s backend \<Rightarrow> 's \<Rightarrow> OwnerRecord list res" where
  "Meta_ListOwners B s =
     (case allDocs (coQuery (b_owners B) s []) of
        Inl err \<Rightarrow> Inl err
      | Inr docs \<Rightarrow> Inr (map ownerDocToRecord docs))"

section \<open>Modules\<close>

definition moduleDocToRecord :: "ModuleDoc \<Rightarrow> ModuleRecord" where
  "moduleDocToRecord doc =
     \<lparr>module_ID = mdoc_ID doc, module_OwnerID = mdoc_OwnerID doc, module_Owner = mdoc_Owner doc,
      module_Name = mdoc_Name doc, module_Description = mdoc_Description doc,
      module_DefaultLabelName = mdoc_DefaultLabelName doc,
      module_CreateTime = mdoc_CreateTime doc, module_UpdateTime = mdoc_UpdateTime doc\<rparr>"

definition moduleRecordToDoc :: "ModuleRecord \<Rightarrow> ModuleDoc" where
  "moduleRecordToDoc m =
     \<lparr>mdoc_ID = module_ID m, mdoc_OwnerID = module_OwnerID m, mdoc_Owner = module_Owner m,
      mdoc_Name = module_Name m, mdoc_Description = module_Description m,
      mdoc_DefaultLabelName = module_DefaultLabelName m,
      mdoc_CreateTime = module_CreateTime m, mdoc_UpdateTime = module_UpdateTime m\<rparr>"

definition Meta_GetModule :: "'s backend \<Rightarrow> 's \<Rightarrow> string \<Rightarrow> ModuleRecord res" where
  "Meta_GetModule B s mid =
     (case coGet (b_modules B) s mid of
        Inl err \<Rightarrow> if gcCode err = Some GC_NotFound then Inl ErrNotFound else Inl err
      | Inr doc \<Rightarrow> Inr (moduleDocToRecord doc))"

definition Meta_GetModuleByName :: "'s backend \<Rightarrow> 's \<Rightarrow> string \<Rightarrow> string \<Rightarrow> ModuleRecord res" where
  "Meta_GetModuleByName B s owner name =
     (case firstDoc (coQuery (b_modules B) s [(''owner'', owner), (''name'', name)]) of
        Inl err \<Rightarrow> Inl err
      | Inr doc \<Rightarrow> Inr (moduleDocToRecord doc))"

definition Meta_ListModules :: "'s backend \<Rightarrow> 's \<Rightarrow> string \<Rightarrow> ModuleRecord list res" where
  "Meta_ListModules B s ownerID =
     (case allDocs (coQuery (b_modules B) s [(''owner_id'', ownerID)]) of
        Inl err \<Rightarrow> Inl err
      | Inr docs \<Rightarrow> Inr (map moduleDocToRecord docs))"

definition Meta_CreateModule :: "'s backend \<Rightarrow> 's \<Rightarrow> ModuleRecord \<Rightarrow> 's \<times> goerr option" where
  "Meta_CreateModule B s m =
     (case coCreate (b_modules B) s (moduleRecordToDoc m) of
        (s', Some err) \<Rightarrow>
          if gcCode err = Some GC_AlreadyExists then (s', Some ErrAlreadyExists) else (s', Some err)
      | (s', None) \<Rightarrow> (s', None))"

definition Meta_UpdateModule :: "'s backend \<Rightarrow> 's \<Rightarrow> ModuleRecord \<Rightarrow> 's \<times> goerr option" where
  "Meta_UpdateModule B s m = coReplace (b_modules B) s (moduleRecordToDoc m)"

definition Meta_DeleteModule :: "'s backend \<Rightarrow> 's \<Rightarrow> string \<Rightarrow> 's \<times> goerr option" where
  "Meta_DeleteModule B s mid =
     (case coDelete (b_modules B) s mid of
        (s', Some err) \<Rightarrow> if gcCode err = Some GC_NotFound then (s', None) else (s', Some err)
      | (s', None) \<Rightarrow> (s', None))"

section \<open>Commits\<close>

definition commitDocToRecord :: "CommitDoc \<Rightarrow> CommitRecord res" where
  "commitDocToRecord doc =
     (case ParseDigest (cdoc_FilesDigest doc) of
        Inl err \<Rightarrow> Inl err
      | Inr filesDigest \<Rightarrow>
          (case (if cdoc_ModuleDigest doc \<noteq> [] then ParseModuleDigest (cdoc_ModuleDigest doc)
                 else Inr zeroModuleDigest) of
             Inl err \<Rightarrow> Inl err
           | Inr moduleDigest \<Rightarrow>
               Inr \<lparr>commit_ID = cdoc_ID doc, commit_ModuleID = cdoc_ModuleID doc,
                    commit_OwnerID = cdoc_OwnerID doc, commit_FilesDigest = filesDigest,
                    commit_ModuleDigest = moduleDigest, commit_CreateTime = cdoc_CreateTime doc,
                    commit_CreatedByUserID = cdoc_CreatedByUserID doc,
                    commit_SourceControlURL = cdoc_SourceControlURL doc,
                    commit_DepCommitIDs = cdoc_DepCommitIDs doc\<rparr>))"

definition commitRecordToDoc :: "CommitRecord \<Rightarrow> CommitDoc" where
  "commitRecordToDoc c =
     \<lparr>cdoc_ID = commit_ID c, cdoc_ModuleID = commit_ModuleID c, cdoc_OwnerID = commit_OwnerID c,
      cdoc_FilesDigest = Digest_String (commit_FilesDigest c),
      cdoc_ModuleDigest = ModuleDigest_String (commit_ModuleDigest c),
      cdoc_CreateTime = commit_CreateTime c, cdoc_CreatedByUserID = commit_CreatedByUserID c,
      cdoc_SourceControlURL = commit_SourceControlURL c, cdoc_DepCommitIDs = commit_DepCommitIDs c\<rparr>"

definition Meta_GetCommit :: "'s backend \<Rightarrow> 's \<Rightarrow> string \<Rightarrow> CommitRecord res" where
  "Meta_GetCommit B s cid =
     (case coGet (b_commits B) s cid of
        Inl err \<Rightarrow> if gcCode err = Some GC_NotFound then Inl ErrNotFound else Inl err
      | Inr doc \<Rightarrow> commitDocToRecord doc)"

definition Meta_GetCommitByFilesDigest :: "'s backend \<Rightarrow> 's \<Rightarrow> Digest \<Rightarrow> CommitRecord res" where
  "Meta_GetCommitByFilesDigest B s digest =
     (case firstDoc (coQuery (b_commits B) s [(''files_digest'', Digest_String digest)]) of
        Inl err \<Rightarrow> Inl err
      | Inr doc \<Rightarrow> commitDocToRecord doc)"

definition Meta_CreateCommit :: "'s backend \<Rightarrow> 's \<Rightarrow> CommitRecord \<Rightarrow> 's \<times> goerr option" where
  "Meta_CreateCommit B s commit =
     (case coCreate (b_commits B) s (commitRecordToDoc commit) of
        (s', Some err) \<Rightarrow> if gcCode err = Some GC_AlreadyExists then (s', None) else (s', Some err)
      | (s', None) \<Rightarrow> (s', None))"

text \<open>The loop that collects the commits; a document that does not convert is skipped.\<close>

fun collectCommits :: "CommitDoc list \<Rightarrow> CommitRecord list" where
  "collectCommits [] = []"
| "collectCommits (doc # docs) =
     (case commitDocToRecord doc of
        Inl _ \<Rightarrow> collectCommits docs
      | Inr commit \<Rightarrow> commit # collectCommits docs)"

text \<open>\<open>sortCommitsByIDDesc\<close>: the inner loop over \<open>j\<close> and the outer loop over \<open>i\<close>.\<close>

function sortInner :: "nat \<Rightarrow> nat \<Rightarrow> CommitRecord list \<Rightarrow> CommitRecord list" where
  "sortInner i j commits =
     (if j < length commits
      then sortInner i (Suc j)
             (if commit_ID (commits ! i) < commit_ID (commits ! j)
              then commits[i := commits ! j, j := commits ! i]
              else commits)
      else commits)"
  by pat_completeness auto
termination
  by (relation "measure (\<lambda>(i, j, commits). length commits - j)") auto

declare sortInner.simps [simp del]

lemma length_sortInner [simp]: "length (sortInner i j commits) = length commits"
proof (induction i j commits rule: sortInner.induct)
  case (1 i j commits)
  then show ?case by (subst sortInner.simps) (auto split: if_splits)
qed

function sortOuter :: "nat \<Rightarrow> CommitRecord list \<Rightarrow> CommitRecord list" where
  "sortOuter i commits =
     (if i < length commits then sortOuter (Suc i) (sortInner i (Suc i) commits) else commits)"
  by pat_completeness auto
termination
  by (relation "measure (\<lambda>(i, commits). length commits - i)") auto

declare sortOuter.simps [simp del]

definition sortCommitsByIDDesc :: "CommitRecord list \<Rightarrow> CommitRecord list" where
  "sortCommitsByIDDesc commits = sortOuter 0 commits"

text \<open>The start index after a page token: the first commit with that ID, else the beginning.\<close>

fun tokenStart :: "string \<Rightarrow> nat \<Rightarrow> CommitRecord list \<Rightarrow> nat" where
  "tokenStart pageToken i [] = 0"
| "tokenStart pageToken i (c # cs) =
     (if commit_ID c = pageToken then i + 1 else tokenStart pageToken (Suc i) cs)"

text \<open>\<open>for i := startIdx; i < len(allCommits) && len(commits) < limit; i++\<close>.\<close>

function pageLoop ::
  "int \<Rightarrow> CommitRecord list \<Rightarrow> nat \<Rightarrow> CommitRecord list \<Rightarrow> string \<Rightarrow> CommitRecord list \<times> string" where
  "pageLoop limit allCommits i commits nextToken =
     (if i < length allCommits \<and> int (length commits) < limit
      then
        let commits' = commits @ [allCommits ! i];
            nextToken' = (if int (length commits') = limit \<and> i + 1 < length allCommits
                          then commit_ID (allCommits ! i) else nextToken)
        in pageLoop limit allCommits (Suc i) commits' nextToken'
      else (commits, nextToken))"
  by pat_completeness auto
termination
  by (relation "measure (\<lambda>(limit, allCommits, i, commits, nextToken). length allCommits - i)") auto

declare pageLoop.simps [simp del]

definition pageOf :: "CommitRecord list \<Rightarrow> int \<Rightarrow> string \<Rightarrow> CommitRecord list \<times> string" where
  "pageOf allCommits limit pageToken =
     (let startIdx = (if pageToken \<noteq> [] then tokenStart pageToken 0 allCommits else 0)
      in pageLoop limit allCommits startIdx [] [])"

definition Meta_ListCommits ::
  "'s backend \<Rightarrow> 's \<Rightarrow> string \<Rightarrow> int \<Rightarrow> string \<Rightarrow> (CommitRecord list \<times> string) res" where
  "Meta_ListCommits B s moduleID limit0 pageToken =
     (let limit = (if limit0 \<le> 0 then 100 else limit0)
      in (case allDocs (coQuery (b_commits B) s [(''module_id'', moduleID)]) of
            Inl err \<Rightarrow> Inl err
          | Inr docs \<Rightarrow>
              let allCommits = sortCommitsByIDDesc (collectCommits docs)
              in Inr (pageOf allCommits limit pageToken)))"

section \<open>Closing\<close>

text \<open>
  \<open>Close\<close>, given what closing each of the four collections does: all four are closed whatever fails, and the first
  error is returned.
\<close>

definition Meta_Close ::
  "('s \<Rightarrow> 's \<times> goerr option) \<Rightarrow> ('s \<Rightarrow> 's \<times> goerr option) \<Rightarrow> ('s \<Rightarrow> 's \<times> goerr option) \<Rightarrow>
   ('s \<Rightarrow> 's \<times> goerr option) \<Rightarrow> 's \<Rightarrow> 's \<times> goerr option" where
  "Meta_Close closeOwners closeModules closeCommits closeLabels s =
     (let (s1, e1) = closeOwners s;
          (s2, e2) = closeModules s1;
          (s3, e3) = closeCommits s2;
          (s4, e4) = closeLabels s3;
          errs = concat (map (\<lambda>e. case e of None \<Rightarrow> [] | Some err \<Rightarrow> [err]) [e1, e2, e3, e4])
      in (s4, if errs \<noteq> [] then Some (hd errs) else None))"

lemma Meta_Close_all:
  "fst (Meta_Close f1 f2 f3 f4 s) = fst (f4 (fst (f3 (fst (f2 (fst (f1 s)))))))"
  "snd (Meta_Close f1 f2 f3 f4 s) = None \<Longrightarrow> snd (f1 s) = None \<and> snd (f2 (fst (f1 s))) = None"
  by (simp_all add: Meta_Close_def Let_def split: prod.splits if_splits option.splits)

section \<open>Labels\<close>

definition labelID :: "string \<Rightarrow> string \<Rightarrow> string" where
  "labelID moduleID name = moduleID @ ''/'' @ name"

definition labelDocToRecord :: "LabelDoc \<Rightarrow> LabelRecord" where
  "labelDocToRecord doc =
     \<lparr>label_ID = ldoc_ID doc, label_ModuleID = ldoc_ModuleID doc, label_Name = ldoc_Name doc,
      label_CommitID = ldoc_CommitID doc\<rparr>"

definition Meta_GetLabel :: "'s backend \<Rightarrow> 's \<Rightarrow> string \<Rightarrow> string \<Rightarrow> LabelRecord res" where
  "Meta_GetLabel B s moduleID name =
     (case coGet (b_labels B) s (labelID moduleID name) of
        Inl err \<Rightarrow> if gcCode err = Some GC_NotFound then Inl ErrNotFound else Inl err
      | Inr doc \<Rightarrow> Inr (labelDocToRecord doc))"

definition Meta_ListLabels :: "'s backend \<Rightarrow> 's \<Rightarrow> string \<Rightarrow> LabelRecord list res" where
  "Meta_ListLabels B s moduleID =
     (case allDocs (coQuery (b_labels B) s [(''module_id'', moduleID)]) of
        Inl err \<Rightarrow> Inl err
      | Inr docs \<Rightarrow> Inr (map labelDocToRecord docs))"

definition Meta_CreateOrUpdateLabel :: "'s backend \<Rightarrow> 's \<Rightarrow> LabelRecord \<Rightarrow> 's \<times> goerr option" where
  "Meta_CreateOrUpdateLabel B s label =
     coPut (b_labels B) s
       \<lparr>ldoc_ID = labelID (label_ModuleID label) (label_Name label),
        ldoc_ModuleID = label_ModuleID label, ldoc_Name = label_Name label,
        ldoc_CommitID = label_CommitID label\<rparr>"

definition Meta_DeleteLabel :: "'s backend \<Rightarrow> 's \<Rightarrow> string \<Rightarrow> string \<Rightarrow> 's \<times> goerr option" where
  "Meta_DeleteLabel B s moduleID name =
     (case coDelete (b_labels B) s (labelID moduleID name) of
        (s', Some err) \<Rightarrow> if gcCode err = Some GC_NotFound then (s', None) else (s', Some err)
      | (s', None) \<Rightarrow> (s', None))"

section \<open>Conversions\<close>

lemma moduleDoc_roundtrip [simp]: "moduleDocToRecord (moduleRecordToDoc m) = m"
  by (simp add: moduleDocToRecord_def moduleRecordToDoc_def)

lemma moduleRecord_roundtrip [simp]: "moduleRecordToDoc (moduleDocToRecord d) = d"
  by (simp add: moduleDocToRecord_def moduleRecordToDoc_def)

lemma ownerDoc_roundtrip [simp]: "ownerDocToRecord (ownerRecordToDoc r) = r"
  by (simp add: ownerDocToRecord_def ownerRecordToDoc_def)

lemma mdoc_ID_moduleRecordToDoc [simp]: "mdoc_ID (moduleRecordToDoc m) = module_ID m"
  by (simp add: moduleRecordToDoc_def)

lemma module_ID_moduleDocToRecord [simp]: "module_ID (moduleDocToRecord d) = mdoc_ID d"
  by (simp add: moduleDocToRecord_def)

lemma odoc_ID_ownerRecordToDoc [simp]: "odoc_ID (ownerRecordToDoc r) = owner_ID r"
  by (simp add: ownerRecordToDoc_def)

lemma cdoc_ID_commitRecordToDoc [simp]: "cdoc_ID (commitRecordToDoc c) = commit_ID c"
  by (simp add: commitRecordToDoc_def)

lemma commitDocToRecord_fields:
  "commitDocToRecord doc = Inr c \<Longrightarrow>
   commit_ID c = cdoc_ID doc \<and> commit_ModuleID c = cdoc_ModuleID doc \<and>
   commit_OwnerID c = cdoc_OwnerID doc \<and> commit_DepCommitIDs c = cdoc_DepCommitIDs doc \<and>
   ParseDigest (cdoc_FilesDigest doc) = Inr (commit_FilesDigest c)"
  by (auto simp: commitDocToRecord_def split: sum.splits if_splits)

definition validCommitRecord :: "CommitRecord \<Rightarrow> bool" where
  "validCommitRecord c \<longleftrightarrow>
     CHR '':'' \<notin> set (d_Algorithm (commit_FilesDigest c)) \<and> validModuleDigest (commit_ModuleDigest c)"

lemma commitDocToRecord_commitRecordToDoc:
  assumes "CHR '':'' \<notin> set (d_Algorithm (commit_FilesDigest c))"
  shows "commitDocToRecord (commitRecordToDoc c) =
    (case ParseModuleDigest (ModuleDigest_String (commit_ModuleDigest c)) of
       Inl err \<Rightarrow> Inl err
     | Inr md \<Rightarrow> Inr (c\<lparr>commit_ModuleDigest := md\<rparr>))"
proof -
  have "ModuleDigest_String (commit_ModuleDigest c) \<noteq> []" by (simp add: ModuleDigest_String_def)
  then show ?thesis
    using ParseDigest_String [OF assms]
    by (simp add: commitDocToRecord_def commitRecordToDoc_def split: sum.split)
qed

lemma commit_roundtrip:
  "validCommitRecord c \<Longrightarrow> commitDocToRecord (commitRecordToDoc c) = Inr c"
  by (simp add: commitDocToRecord_commitRecordToDoc validCommitRecord_def ParseModuleDigest_String)

section \<open>Reads\<close>

context collection_laws
begin

lemma first_query:
  assumes "firstDoc (coQuery co s fs) = Inr d"
  shows "sel (view s) (key d) = Some d \<and> matches fld fs d"
proof -
  obtain ds where ds: "coQuery co s fs = (ds, None)"
    "set ds = {d. sel (view s) (key d) = Some d \<and> matches fld fs d}" using query by blast
  have "\<exists>xs. ds = d # xs" using assms ds(1) by (cases ds) (simp_all add: firstDoc_def)
  then have "d \<in> set ds" by auto
  then show ?thesis unfolding ds(2) by blast
qed

lemma first_query_err:
  assumes "firstDoc (coQuery co s fs) = Inl e"
  shows "e = ErrNotFound \<and> (\<forall>d. sel (view s) (key d) = Some d \<longrightarrow> \<not> matches fld fs d)"
proof -
  obtain ds where ds: "coQuery co s fs = (ds, None)"
    "set ds = {d. sel (view s) (key d) = Some d \<and> matches fld fs d}" using query by blast
  then have "ds = [] \<and> e = ErrNotFound" using assms by (cases ds) (simp_all add: firstDoc_def)
  then show ?thesis using ds(2) by auto
qed

lemma first_query_unique:
  assumes "sel (view s) (key d) = Some d" "matches fld fs d"
    and "\<And>d'. sel (view s) (key d') = Some d' \<Longrightarrow> matches fld fs d' \<Longrightarrow> d' = d"
  shows "firstDoc (coQuery co s fs) = Inr d"
proof (cases "firstDoc (coQuery co s fs)")
  case (Inl e)
  then show ?thesis using first_query_err assms(1,2) by blast
next
  case (Inr d')
  then show ?thesis using first_query assms(3) by blast
qed

lemma all_query:
  "\<exists>ds. allDocs (coQuery co s fs) = Inr ds \<and> distinct ds \<and>
     set ds = {d. sel (view s) (key d) = Some d \<and> matches fld fs d}"
proof -
  obtain ds where "coQuery co s fs = (ds, None)" "distinct ds"
    "set ds = {d. sel (view s) (key d) = Some d \<and> matches fld fs d}" using query by blast
  then have "allDocs (coQuery co s fs) = Inr ds" by (simp add: allDocs_def)
  then show ?thesis using \<open>distinct ds\<close> \<open>set ds = _\<close> by blast
qed

end

context backend_laws
begin

lemma Meta_GetOwner_view [store_reads]:
  "Meta_GetOwner B s oid =
     (case vOwners (view s) oid of None \<Rightarrow> Inl ErrNotFound | Some d \<Rightarrow> Inr (ownerDocToRecord d))"
  by (simp add: Meta_GetOwner_def ow.get split: option.splits)

lemma Meta_GetModule_view [store_reads]:
  "Meta_GetModule B s mid =
     (case vModules (view s) mid of None \<Rightarrow> Inl ErrNotFound | Some d \<Rightarrow> Inr (moduleDocToRecord d))"
  by (simp add: Meta_GetModule_def mo.get split: option.splits)

lemma Meta_GetCommit_view [store_reads]:
  "Meta_GetCommit B s cid =
     (case vCommits (view s) cid of None \<Rightarrow> Inl ErrNotFound | Some d \<Rightarrow> commitDocToRecord d)"
  by (simp add: Meta_GetCommit_def cm.get split: option.splits)

lemma Meta_GetLabel_view [store_reads]:
  "Meta_GetLabel B s mid name =
     (case vLabels (view s) (labelID mid name) of
        None \<Rightarrow> Inl ErrNotFound | Some d \<Rightarrow> Inr (labelDocToRecord d))"
  by (simp add: Meta_GetLabel_def la.get split: option.splits)

lemma Meta_GetModuleByName_Inr:
  "Meta_GetModuleByName B s owner name = Inr m \<Longrightarrow>
   vModules (view s) (module_ID m) = Some (moduleRecordToDoc m) \<and>
   module_Owner m = owner \<and> module_Name m = name"
  by (auto simp: Meta_GetModuleByName_def matches_def ModuleDoc_field_def moduleDocToRecord_def
      moduleRecordToDoc_def dest!: mo.first_query split: sum.splits)

lemma Meta_GetModuleByName_Inl:
  "Meta_GetModuleByName B s owner name = Inl e \<Longrightarrow>
   e = ErrNotFound \<and>
   (\<forall>k d. vModules (view s) k = Some d \<longrightarrow> \<not> (mdoc_Owner d = owner \<and> mdoc_Name d = name))"
proof -
  assume "Meta_GetModuleByName B s owner name = Inl e"
  then have "firstDoc (coQuery (b_modules B) s [(''owner'', owner), (''name'', name)]) = Inl e"
    by (simp add: Meta_GetModuleByName_def split: sum.splits)
  from mo.first_query_err [OF this] show ?thesis
    by (auto simp: matches_def ModuleDoc_field_def) (metis mo.keyed)
qed

lemma Meta_GetModuleByName_unique:
  assumes "vModules (view s) k = Some d" "mdoc_Owner d = owner" "mdoc_Name d = name"
    and "\<And>k' d'. vModules (view s) k' = Some d' \<Longrightarrow> mdoc_Owner d' = owner \<Longrightarrow> mdoc_Name d' = name
      \<Longrightarrow> k' = k"
  shows "Meta_GetModuleByName B s owner name = Inr (moduleDocToRecord d)"
proof (cases "Meta_GetModuleByName B s owner name")
  case (Inl e)
  then show ?thesis using Meta_GetModuleByName_Inl assms(1-3) by blast
next
  case (Inr m)
  note m = Meta_GetModuleByName_Inr [OF Inr]
  then have "module_ID m = k"
    using assms(4) [of "module_ID m" "moduleRecordToDoc m"] by (simp add: moduleRecordToDoc_def)
  then have "d = moduleRecordToDoc m" using m assms(1) by simp
  then show ?thesis using Inr by simp
qed

lemma Meta_ListModules_view:
  "\<exists>ms. Meta_ListModules B s ownerID = Inr ms \<and> distinct ms \<and>
     set ms = {moduleDocToRecord d | k d. vModules (view s) k = Some d \<and> mdoc_OwnerID d = ownerID}"
proof -
  obtain ds where ds: "allDocs (coQuery (b_modules B) s [(''owner_id'', ownerID)]) = Inr ds"
    "distinct ds"
    "set ds = {d. vModules (view s) (mdoc_ID d) = Some d
                \<and> matches ModuleDoc_field [(''owner_id'', ownerID)] d}"
    using mo.all_query by blast
  have "inj moduleDocToRecord" by (metis injI moduleRecord_roundtrip)
  then have "distinct (map moduleDocToRecord ds)" using ds(2) by (simp add: distinct_map inj_on_def)
  moreover have "set ds = {d. \<exists>k. vModules (view s) k = Some d \<and> mdoc_OwnerID d = ownerID}"
    using ds(3) by (auto simp: matches_def ModuleDoc_field_def dest: mo.keyed)
  ultimately show ?thesis using ds(1) by (auto simp: Meta_ListModules_def)
qed

lemma Meta_ListOwners_view:
  "\<exists>os. Meta_ListOwners B s = Inr os \<and>
     set os = {ownerDocToRecord d | k d. vOwners (view s) k = Some d}"
proof -
  obtain ds where ds: "allDocs (coQuery (b_owners B) s []) = Inr ds"
    "set ds = {d. vOwners (view s) (odoc_ID d) = Some d \<and> matches OwnerDoc_field [] d}"
    using ow.all_query by blast
  have "set ds = {d. \<exists>k. vOwners (view s) k = Some d}"
    using ds(2) by (auto simp: matches_def dest: ow.keyed)
  then show ?thesis using ds(1) by (auto simp: Meta_ListOwners_def)
qed

lemma Meta_GetCommitByFilesDigest_Inr:
  "Meta_GetCommitByFilesDigest B s digest = Inr c \<Longrightarrow>
   \<exists>d. vCommits (view s) (commit_ID c) = Some d \<and> commitDocToRecord d = Inr c \<and>
       cdoc_FilesDigest d = Digest_String digest"
proof -
  assume "Meta_GetCommitByFilesDigest B s digest = Inr c"
  then obtain d where
    "firstDoc (coQuery (b_commits B) s [(''files_digest'', Digest_String digest)]) = Inr d"
    and c: "commitDocToRecord d = Inr c"
    by (auto simp: Meta_GetCommitByFilesDigest_def split: sum.splits)
  from cm.first_query [OF this(1)] show ?thesis
    using c commitDocToRecord_fields [OF c] by (auto simp: matches_def CommitDoc_field_def)
qed

end

section \<open>Writes\<close>

context backend_laws
begin

lemma Meta_CreateOwner_view [store_writes]:
  "Meta_CreateOwner B s owner = (s', r) \<Longrightarrow>
   (case r of
      None \<Rightarrow> vOwners (view s) (owner_ID owner) = None \<and>
        view s' = (view s)\<lparr>vOwners := (vOwners (view s))(owner_ID owner \<mapsto> ownerRecordToDoc owner)\<rparr>
    | Some e \<Rightarrow> view s' = view s \<and>
        (e = ErrAlreadyExists \<longrightarrow> vOwners (view s) (owner_ID owner) \<noteq> None))"
  by (auto simp: Meta_CreateOwner_def dest: ow.create_ok ow.create_err
      split: prod.splits option.splits if_splits)

lemma Meta_CreateModule_view [store_writes]:
  "Meta_CreateModule B s m = (s', r) \<Longrightarrow>
   (case r of
      None \<Rightarrow> vModules (view s) (module_ID m) = None \<and>
        view s' = (view s)\<lparr>vModules := (vModules (view s))(module_ID m \<mapsto> moduleRecordToDoc m)\<rparr>
    | Some e \<Rightarrow> view s' = view s \<and>
        (e = ErrAlreadyExists \<longrightarrow> vModules (view s) (module_ID m) \<noteq> None))"
  by (auto simp: Meta_CreateModule_def dest: mo.create_ok mo.create_err
      split: prod.splits option.splits if_splits)

lemma Meta_CreateModule_exists:
  "vModules (view s) (module_ID m) \<noteq> None \<Longrightarrow> snd (Meta_CreateModule B s m) = Some ErrAlreadyExists"
  using mo.create_exists [of s "moduleRecordToDoc m"]
  by (auto simp: Meta_CreateModule_def split: prod.splits option.splits)

lemma Meta_DeleteModule_view [store_writes]:
  "Meta_DeleteModule B s mid = (s', r) \<Longrightarrow>
   (case r of
      None \<Rightarrow> view s' = (view s)\<lparr>vModules := (vModules (view s))(mid := None)\<rparr>
    | Some e \<Rightarrow> view s' = view s)"
  by (auto simp: Meta_DeleteModule_def fun_upd_idem dest: mo.delete_ok mo.delete_err
      split: prod.splits option.splits if_splits dest!: mo.delete_err)

lemma Meta_CreateCommit_view [store_writes]:
  "Meta_CreateCommit B s c = (s', r) \<Longrightarrow>
   (case r of
      None \<Rightarrow> (if vCommits (view s) (commit_ID c) = None
         then view s' = (view s)\<lparr>vCommits := (vCommits (view s))(commit_ID c \<mapsto> commitRecordToDoc c)\<rparr>
         else view s' = view s)
    | Some e \<Rightarrow> view s' = view s)"
  by (auto simp: Meta_CreateCommit_def dest: cm.create_ok cm.create_err
      split: prod.splits option.splits if_splits)

lemma Meta_CreateOrUpdateLabel_view [store_writes]:
  "Meta_CreateOrUpdateLabel B s l = (s', r) \<Longrightarrow>
   (case r of
      None \<Rightarrow> view s' = (view s)\<lparr>vLabels := (vLabels (view s))
        (labelID (label_ModuleID l) (label_Name l) \<mapsto>
           \<lparr>ldoc_ID = labelID (label_ModuleID l) (label_Name l), ldoc_ModuleID = label_ModuleID l,
            ldoc_Name = label_Name l, ldoc_CommitID = label_CommitID l\<rparr>)\<rparr>
    | Some e \<Rightarrow> view s' = view s)"
  by (auto simp: Meta_CreateOrUpdateLabel_def dest: la.put_ok la.put_err split: option.splits)

end

end
