(* ===== verification/Listing.thy ===== *)
theory Listing
  imports Metadata
begin

text \<open>
  Listing commits: the exchange sort of \<open>docstore.go\<close> sorts, its page loop cuts the sorted
  list into pages, and a client that follows the page tokens sees every commit of the
  module exactly once, newest first.
\<close>

section \<open>The exchange sort\<close>

lemma nth_swap:
  "i < length xs \<Longrightarrow> j < length xs \<Longrightarrow> k < length xs \<Longrightarrow>
   (xs[i := xs ! j, j := xs ! i]) ! k = (if k = j then xs ! i else if k = i then xs ! j else xs ! k)"
  by (simp add: nth_list_update)

lemma mset_swap_update:
  "i < length xs \<Longrightarrow> j < length xs \<Longrightarrow> mset (xs[i := xs ! j, j := xs ! i]) = mset xs"
  by (cases "i = j") (simp_all add: list_update_swap mset_swap)

lemma sortInner_correct:
  assumes "i < j" "\<forall>k. i \<le> k \<and> k < j \<and> k < length xs \<longrightarrow> commit_ID (xs ! k) \<le> commit_ID (xs ! i)"
  shows "mset (sortInner i j xs) = mset xs \<and> take i (sortInner i j xs) = take i xs \<and>
    (\<forall>k. i \<le> k \<and> k < length xs \<longrightarrow> commit_ID (sortInner i j xs ! k) \<le> commit_ID (sortInner i j xs ! i))"
  using assms
proof (induction i j xs rule: sortInner.induct)
  case (1 i j xs)
  show ?case
  proof (cases "j < length xs")
    case False
    then have "sortInner i j xs = xs" by (subst sortInner.simps) simp
    moreover have "\<forall>k. i \<le> k \<and> k < length xs \<longrightarrow> commit_ID (xs ! k) \<le> commit_ID (xs ! i)"
      using "1.prems"(2) False by auto
    ultimately show ?thesis by simp
  next
    case True
    let ?ys = "if commit_ID (xs ! i) < commit_ID (xs ! j) then xs[i := xs ! j, j := xs ! i] else xs"
    have i: "i < length xs" using True "1.prems"(1) by simp
    have max: "\<forall>k. i \<le> k \<and> k < Suc j \<and> k < length ?ys \<longrightarrow> commit_ID (?ys ! k) \<le> commit_ID (?ys ! i)"
    proof (intro allI impI)
      fix k
      assume k: "i \<le> k \<and> k < Suc j \<and> k < length ?ys"
      show "commit_ID (?ys ! k) \<le> commit_ID (?ys ! i)"
      proof (cases "commit_ID (xs ! i) < commit_ID (xs ! j)")
        case True
        have le: "commit_ID (xs ! k) \<le> commit_ID (xs ! i)" if "k < j"
          using "1.prems"(2) k that \<open>j < length xs\<close> by auto
        have kl: "k < length xs" using k \<open>j < length xs\<close> by simp
        have "commit_ID (xs ! k) \<le> commit_ID (xs ! j)" if "k < j" using le [OF that] True by simp
        then show ?thesis
          using True order_less_imp_le [OF True] k kl i \<open>j < length xs\<close> "1.prems"(1)
          by (simp add: nth_swap [OF i \<open>j < length xs\<close> kl] nth_swap [OF i \<open>j < length xs\<close> i])
      next
        case False
        then show ?thesis using "1.prems"(2) k by (cases "k = j") auto
      qed
    qed
    have step: "sortInner i j xs = sortInner i (Suc j) ?ys" using True by (subst sortInner.simps) simp
    have mset: "mset ?ys = mset xs" using i True by (simp add: mset_swap_update)
    have tk: "take i ?ys = take i xs" using "1.prems"(1) by simp
    have len: "length ?ys = length xs" by simp
    from "1.IH" [OF True _ max] "1.prems"(1) show ?thesis
      unfolding step len using mset tk by simp
  qed
qed

lemma mset_sortInner: "i < j \<Longrightarrow> j = Suc i \<Longrightarrow> mset (sortInner i j xs) = mset xs"
  by (rule sortInner_correct [THEN conjunct1]) (auto simp: less_Suc_eq_le)

definition prefixDesc :: "nat \<Rightarrow> CommitRecord list \<Rightarrow> bool" where
  "prefixDesc i xs \<longleftrightarrow>
     (\<forall>a b. a < b \<and> a < i \<and> b < length xs \<longrightarrow> commit_ID (xs ! b) \<le> commit_ID (xs ! a))"

lemma sortInner_prefixDesc:
  assumes inv: "prefixDesc i xs" and i: "i < length xs"
  shows "prefixDesc (Suc i) (sortInner i (Suc i) xs)"
proof -
  let ?r = "sortInner i (Suc i) xs"
  have "\<forall>k. i \<le> k \<and> k < Suc i \<and> k < length xs \<longrightarrow> commit_ID (xs ! k) \<le> commit_ID (xs ! i)"
    by (auto simp: less_Suc_eq_le)
  from sortInner_correct [OF lessI this]
  have m: "mset ?r = mset xs" and t: "take i ?r = take i xs"
    and top: "\<forall>k. i \<le> k \<and> k < length xs \<longrightarrow> commit_ID (?r ! k) \<le> commit_ID (?r ! i)" by auto
  have "mset (take i ?r) + mset (drop i ?r) = mset (take i xs) + mset (drop i xs)"
    using m by (metis append_take_drop_id mset_append)
  then have d: "set (drop i ?r) = set (drop i xs)" using t by (metis add_left_imp_eq mset_eq_setD)
  have same: "?r ! a = xs ! a" if "a < i" for a using t that by (metis nth_take)
  show ?thesis unfolding prefixDesc_def
  proof (intro allI impI)
    fix a b
    assume ab: "a < b \<and> a < Suc i \<and> b < length ?r"
    show "commit_ID (?r ! b) \<le> commit_ID (?r ! a)"
    proof (cases "a = i")
      case True
      then show ?thesis using top ab by simp
    next
      case False
      then have a: "a < i" using ab by simp
      obtain b' where b': "a < b'" "b' < length xs" "?r ! b = xs ! b'"
      proof (cases "b < i")
        case True
        then show ?thesis using that [of b] ab same by simp
      next
        case False
        then have "drop i ?r ! (b - i) = ?r ! b" "b - i < length (drop i ?r)" using ab by auto
        then have "?r ! b \<in> set (drop i ?r)" by (metis nth_mem)
        then obtain n where "n < length (drop i xs)" "drop i xs ! n = ?r ! b"
          unfolding d by (metis in_set_conv_nth)
        then show ?thesis using that [of "i + n"] a i by simp
      qed
      then show ?thesis using inv a same unfolding prefixDesc_def by simp
    qed
  qed
qed

lemma sortOuter_correct:
  "prefixDesc i xs \<Longrightarrow> prefixDesc (length xs) (sortOuter i xs) \<and> mset (sortOuter i xs) = mset xs"
proof (induction i xs rule: sortOuter.induct)
  case (1 i xs)
  show ?case
  proof (cases "i < length xs")
    case True
    then have "prefixDesc (Suc i) (sortInner i (Suc i) xs)"
      using "1.prems" by (rule sortInner_prefixDesc [rotated])
    from "1.IH" [OF True this] show ?thesis
      using True mset_sortInner [of i "Suc i" xs] by (subst (1 2) sortOuter.simps) simp
  next
    case False
    then show ?thesis using "1.prems" by (subst (1 2) sortOuter.simps) (simp add: prefixDesc_def)
  qed
qed

lemma mset_sortCommits: "mset (sortCommitsByIDDesc xs) = mset xs"
  using sortOuter_correct [of 0 xs] by (simp add: sortCommitsByIDDesc_def prefixDesc_def)

lemma sorted_sortCommits:
  "sorted_wrt (\<lambda>a b. commit_ID b \<le> commit_ID a) (sortCommitsByIDDesc xs)"
proof -
  have "length (sortCommitsByIDDesc xs) = length xs" by (metis mset_sortCommits size_mset)
  then show ?thesis
    using sortOuter_correct [of 0 xs]
    by (simp add: sortCommitsByIDDesc_def prefixDesc_def sorted_wrt_iff_nth_less)
qed

text \<open>
  \<open>sortCommitsByIDDesc\<close> returns a permutation of its input in descending order of
  commit ID; with distinct IDs it equals the reference definition: sort ascending, reverse.
\<close>

theorem sort_commits_correct:
  "mset (sortCommitsByIDDesc xs) = mset xs
   \<and> sorted_wrt (\<lambda>a b. commit_ID b \<le> commit_ID a) (sortCommitsByIDDesc xs)
   \<and> (distinct (map commit_ID xs) \<longrightarrow> sortCommitsByIDDesc xs = rev (sort_key commit_ID xs))"
proof -
  have "rev (sortCommitsByIDDesc xs) = sort_key commit_ID xs" if "distinct (map commit_ID xs)"
    using that sorted_sortCommits [of xs]
    by (intro sort_key_unique) (simp_all add: mset_sortCommits sorted_map sorted_wrt_rev)
  then show ?thesis using mset_sortCommits sorted_sortCommits by (metis rev_rev_ident)
qed

definition exampleRecord :: "string \<Rightarrow> CommitRecord" where
  "exampleRecord cid =
     \<lparr>commit_ID = cid, commit_ModuleID = ''m'', commit_OwnerID = ''o'',
      commit_FilesDigest = \<lparr>d_Algorithm = ''shake256'', d_Value = [0]\<rparr>,
      commit_ModuleDigest = zeroModuleDigest, commit_CreateTime = 1, commit_CreatedByUserID = [],
      commit_SourceControlURL = [], commit_DepCommitIDs = []\<rparr>"

theorem sort_commits_correct_witness:
  "sortCommitsByIDDesc [exampleRecord ''a'', exampleRecord ''c'', exampleRecord ''b''] =
   rev (sort_key commit_ID [exampleRecord ''a'', exampleRecord ''c'', exampleRecord ''b''])"
proof -
  have "distinct (map commit_ID [exampleRecord ''a'', exampleRecord ''c'', exampleRecord ''b''])"
    by (simp add: exampleRecord_def)
  then show ?thesis using sort_commits_correct by blast
qed

section \<open>Pages\<close>

lemma pageLoop_eq:
  assumes "int (length cs) \<le> limit"
  shows "pageLoop limit xs i cs nt =
    (let n = nat (limit - int (length cs))
     in (cs @ take n (drop i xs),
         if 0 < n \<and> i + n < length xs then commit_ID (xs ! (i + n - 1)) else nt))"
  using assms
proof (induction limit xs i cs nt rule: pageLoop.induct)
  case (1 limit xs i cs nt)
  let ?n = "nat (limit - int (length cs))"
  show ?case
  proof (cases "i < length xs \<and> int (length cs) < limit")
    case False
    have "pageLoop limit xs i cs nt = (cs, nt)" using False by (subst pageLoop.simps) auto
    moreover have "?n = 0 \<or> length xs \<le> i" using False "1.prems" by linarith
    ultimately show ?thesis by (auto simp: Let_def)
  next
    case True
    let ?cs = "cs @ [xs ! i]"
    let ?nt = "if int (length ?cs) = limit \<and> i + 1 < length xs then commit_ID (xs ! i) else nt"
    have n: "?n = Suc (nat (limit - int (length ?cs)))" using True by (simp add: Suc_nat_eq_nat_zadd1)
    have le: "int (length ?cs) \<le> limit" using True by simp
    have "take ?n (drop i xs) = xs ! i # take (nat (limit - int (length ?cs))) (drop (Suc i) xs)"
      unfolding n using True by (simp add: Cons_nth_drop_Suc [symmetric])
    moreover have "pageLoop limit xs i cs nt = pageLoop limit xs (Suc i) ?cs ?nt"
      using True by (subst pageLoop.simps) (simp add: Let_def)
    ultimately show ?thesis
      using "1.IH" [OF True refl refl le] n by (auto simp: Let_def)
  qed
qed

lemma tokenStart_append:
  "commit_ID c = tok \<Longrightarrow> tok \<notin> commit_ID ` set pre \<Longrightarrow>
   tokenStart tok i (pre @ c # post) = i + length pre + 1"
  by (induction pre arbitrary: i) auto

lemma pageOf_first:
  assumes "0 < limit"
  shows "pageOf xs limit [] =
    (take (nat limit) xs, if nat limit < length xs then commit_ID (xs ! (nat limit - 1)) else [])"
  using assms by (simp add: pageOf_def pageLoop_eq Let_def)

lemma pageOf_token:
  assumes "0 < limit" "distinct (map commit_ID xs)" "n < length xs" "commit_ID (xs ! n) \<noteq> []"
  shows "pageOf xs limit (commit_ID (xs ! n)) =
    (take (nat limit) (drop (Suc n) xs),
     if Suc n + nat limit < length xs then commit_ID (xs ! (n + nat limit)) else [])"
proof -
  have "xs = take n xs @ xs ! n # drop (Suc n) xs" using assms(3) by (rule id_take_nth_drop)
  moreover have "commit_ID (xs ! n) \<notin> commit_ID ` set (take n xs)"
  proof
    assume "commit_ID (xs ! n) \<in> commit_ID ` set (take n xs)"
    then obtain k where k: "k < n" "commit_ID (xs ! n) = commit_ID (xs ! k)"
      using assms(3) by (auto simp: in_set_conv_nth)
    then show False
      using nth_eq_iff_index_eq [OF assms(2), of n k] assms(3) by simp
  qed
  ultimately have "tokenStart (commit_ID (xs ! n)) 0 xs = Suc n"
    using tokenStart_append [OF refl, of "xs ! n" "take n xs" 0 "drop (Suc n) xs"] assms(3) by simp
  then show ?thesis using assms(1,4) by (simp add: pageOf_def pageLoop_eq Let_def)
qed

text \<open>A client that follows the tokens from the first page until the token is empty.\<close>

fun followPages ::
  "(string \<Rightarrow> (CommitRecord list \<times> string) res) \<Rightarrow> nat \<Rightarrow> string \<Rightarrow> CommitRecord list res option" where
  "followPages page 0 tok = None"
| "followPages page (Suc fuel) tok =
     (case page tok of
        Inl err \<Rightarrow> Some (Inl err)
      | Inr (commits, nextToken) \<Rightarrow>
          if nextToken = [] then Some (Inr commits)
          else (case followPages page fuel nextToken of
                  None \<Rightarrow> None
                | Some (Inl err) \<Rightarrow> Some (Inl err)
                | Some (Inr rest) \<Rightarrow> Some (Inr (commits @ rest))))"

lemma followPages_from:
  assumes "0 < limit" "distinct (map commit_ID xs)" "\<forall>c \<in> set xs. commit_ID c \<noteq> []"
    and "n < length xs" "length xs - n \<le> fuel"
  shows "followPages (\<lambda>tok. Inr (pageOf xs limit tok)) fuel (commit_ID (xs ! n)) =
    Some (Inr (drop (Suc n) xs))"
  using assms(4,5)
proof (induction fuel arbitrary: n)
  case 0
  then show ?case by simp
next
  case (Suc fuel)
  have ne: "commit_ID (xs ! k) \<noteq> []" if "k < length xs" for k using assms(3) that by simp
  note page = pageOf_token [OF assms(1,2) Suc.prems(1) ne [OF Suc.prems(1)]]
  show ?case
  proof (cases "Suc n + nat limit < length xs")
    case False
    then have "take (nat limit) (drop (Suc n) xs) = drop (Suc n) xs" by simp
    then show ?thesis using page False by simp
  next
    case True
    then have "n + nat limit < length xs" "length xs - (n + nat limit) \<le> fuel"
      using Suc.prems assms(1) by auto
    from Suc.IH [OF this] ne [OF this(1)] page True
    have "followPages (\<lambda>tok. Inr (pageOf xs limit tok)) (Suc fuel) (commit_ID (xs ! n)) =
        Some (Inr (take (nat limit) (drop (Suc n) xs) @ drop (Suc (n + nat limit)) xs))" by simp
    moreover have "drop (Suc (n + nat limit)) xs = drop (nat limit) (drop (Suc n) xs)"
      by (simp add: add.commute)
    ultimately show ?thesis by (metis append_take_drop_id)
  qed
qed

lemma followPages_all:
  assumes "0 < limit" "distinct (map commit_ID xs)" "\<forall>c \<in> set xs. commit_ID c \<noteq> []"
    and "length xs < fuel"
  shows "followPages (\<lambda>tok. Inr (pageOf xs limit tok)) fuel [] = Some (Inr xs)"
proof (cases "nat limit < length xs")
  case False
  then show ?thesis using assms(1,4) by (cases fuel) (simp_all add: pageOf_first)
next
  case True
  obtain fuel' where fuel: "fuel = Suc fuel'" using assms(4) by (cases fuel) auto
  have n: "nat limit - 1 < length xs" "length xs - (nat limit - 1) \<le> fuel'"
    using True assms(1,4) fuel by auto
  have "commit_ID (xs ! (nat limit - 1)) \<noteq> []" using assms(3) n(1) by simp
  moreover have "Suc (nat limit - 1) = nat limit" using assms(1) by simp
  ultimately show ?thesis
    using followPages_from [OF assms(1-3) n] True unfolding fuel by (simp add: pageOf_first assms(1))
qed

section \<open>ListCommits over the store\<close>

text \<open>The commits of a module that \<open>ListCommits\<close> can show.\<close>

definition moduleCommits :: "store \<Rightarrow> string \<Rightarrow> CommitRecord set" where
  "moduleCommits st mid =
     {c. \<exists>k d. vCommits st k = Some d \<and> cdoc_ModuleID d = mid \<and> commitDocToRecord d = Inr c}"

lemma set_collectCommits: "set (collectCommits docs) = {c. \<exists>d \<in> set docs. commitDocToRecord d = Inr c}"
  by (induction docs) (auto split: sum.splits)

lemma distinct_collectCommits:
  "distinct (map cdoc_ID docs) \<Longrightarrow> distinct (map commit_ID (collectCommits docs))"
proof (induction docs)
  case Nil
  then show ?case by simp
next
  case (Cons d docs)
  show ?case
  proof (cases "commitDocToRecord d")
    case (Inl e)
    then show ?thesis using Cons by simp
  next
    case (Inr c)
    have "commit_ID c \<noteq> commit_ID c'" if c': "c' \<in> set (collectCommits docs)" for c'
    proof -
      obtain d' where d': "d' \<in> set docs" "commitDocToRecord d' = Inr c'"
        using c' unfolding set_collectCommits by blast
      then have "cdoc_ID d' \<noteq> cdoc_ID d" using Cons.prems by (metis distinct.simps(2) image_eqI list.set_map list.simps(9))
      then show ?thesis
        using commitDocToRecord_fields [OF d'(2)] commitDocToRecord_fields [OF Inr] by simp
    qed
    then show ?thesis using Inr Cons by auto
  qed
qed

context backend_laws
begin

lemma Meta_ListCommits_view:
  "\<exists>xs. (\<forall>limit tok. Meta_ListCommits B s mid limit tok =
            Inr (pageOf xs (if limit \<le> 0 then 100 else limit) tok))
      \<and> distinct (map commit_ID xs) \<and> set xs = moduleCommits (view s) mid
      \<and> sorted_wrt (\<lambda>a b. commit_ID b < commit_ID a) xs"
proof -
  obtain ds where ds: "allDocs (coQuery (b_commits B) s [(''module_id'', mid)]) = Inr ds"
    "distinct ds" "set ds = {d. vCommits (view s) (cdoc_ID d) = Some d
        \<and> matches CommitDoc_field [(''module_id'', mid)] d}"
    using cm.all_query by blast
  let ?xs = "sortCommitsByIDDesc (collectCommits ds)"
  have "inj_on cdoc_ID (set ds)"
  proof (rule inj_onI)
    fix d e
    assume de: "d \<in> set ds" "e \<in> set ds" "cdoc_ID d = cdoc_ID e"
    have "vCommits (view s) (cdoc_ID d) = Some d" using de(1) unfolding ds(3) by blast
    moreover have "vCommits (view s) (cdoc_ID e) = Some e" using de(2) unfolding ds(3) by blast
    ultimately have "Some d = Some e" unfolding de(3) by (rule subst)
    then show "d = e" by blast
  qed
  then have "distinct (map commit_ID (collectCommits ds))"
    using ds(2) by (intro distinct_collectCommits) (simp add: distinct_map)
  then have d: "distinct (map commit_ID ?xs)"
    by (metis mset_eq_imp_distinct_iff mset_map mset_sortCommits)
  have "set ?xs = set (collectCommits ds)" by (metis mset_eq_setD mset_sortCommits)
  also have "\<dots> = moduleCommits (view s) mid"
  proof -
    have "d \<in> set ds \<longleftrightarrow> (\<exists>k. vCommits (view s) k = Some d \<and> cdoc_ModuleID d = mid)" for d
      unfolding ds(3) matches_def CommitDoc_field_def using cm.keyed [of s _ d] by auto
    then show ?thesis unfolding set_collectCommits moduleCommits_def by blast
  qed
  finally have st: "set ?xs = moduleCommits (view s) mid" .
  have "sorted_wrt (\<lambda>a b. commit_ID b < commit_ID a) ?xs"
    using d sorted_sortCommits [of "collectCommits ds"]
    by (auto simp: sorted_wrt_iff_nth_less distinct_conv_nth order_less_le)
  moreover have "\<forall>limit tok. Meta_ListCommits B s mid limit tok =
      Inr (pageOf ?xs (if limit \<le> 0 then 100 else limit) tok)"
    using ds(1) by (simp add: Meta_ListCommits_def Let_def)
  ultimately show ?thesis using d st by blast
qed

lemma Meta_ListCommits_complete:
  assumes "\<And>d. vCommits (view s) [] = Some d \<Longrightarrow> False"
  shows "\<exists>xs. (\<forall>fuel > card (moduleCommits (view s) mid).
        followPages (Meta_ListCommits B s mid limit) fuel [] = Some (Inr xs))
      \<and> set xs = moduleCommits (view s) mid \<and> distinct (map commit_ID xs)
      \<and> sorted_wrt (\<lambda>a b. commit_ID b < commit_ID a) xs"
proof -
  obtain xs where xs: "\<forall>tok. Meta_ListCommits B s mid limit tok =
        Inr (pageOf xs (if limit \<le> 0 then 100 else limit) tok)"
    "distinct (map commit_ID xs)" "set xs = moduleCommits (view s) mid"
    "sorted_wrt (\<lambda>a b. commit_ID b < commit_ID a) xs"
    using Meta_ListCommits_view by blast
  have ne: "\<forall>c \<in> set xs. commit_ID c \<noteq> []"
  proof
    fix c
    assume "c \<in> set xs"
    then obtain k d where d: "vCommits (view s) k = Some d" "commitDocToRecord d = Inr c"
      unfolding xs(3) moduleCommits_def by blast
    have "k = commit_ID c" using cm.keyed [OF d(1)] commitDocToRecord_fields [OF d(2)] by simp
    then show "commit_ID c \<noteq> []" using assms d(1) by auto
  qed
  have card: "card (moduleCommits (view s) mid) = length xs"
    using xs(2,3) by (metis distinct_card distinct_map)
  have page: "Meta_ListCommits B s mid limit =
      (\<lambda>tok. Inr (pageOf xs (if limit \<le> 0 then 100 else limit) tok))"
    using xs(1) by auto
  have "\<forall>fuel > card (moduleCommits (view s) mid).
        followPages (Meta_ListCommits B s mid limit) fuel [] = Some (Inr xs)"
    unfolding page card by (auto intro!: followPages_all xs(2) ne)
  then show ?thesis using xs by blast
qed

end

section \<open>Property\<close>

text \<open>
  C28. Paging loses nothing: a client that starts with the empty token and follows the page
  tokens of \<open>ListCommits\<close> until one is empty has, after at most one request more than there
  are commits, collected each readable commit of the module exactly once, in descending order
  of ID, for every page size.  (No commit has the empty ID: IDs come from \<open>uuid.NewV7\<close>.)
\<close>

theorem list_commits_pages_complete:
  assumes "backend_laws B view" and "vCommits (view s) [] = None"
  shows "\<exists>xs. followPages (Meta_ListCommits B s mid limit)
           (card (moduleCommits (view s) mid) + 1) [] = Some (Inr xs)
      \<and> set xs = moduleCommits (view s) mid \<and> distinct (map commit_ID xs)
      \<and> sorted_wrt (\<lambda>a b. commit_ID b < commit_ID a) xs"
  using backend_laws.Meta_ListCommits_complete [OF assms(1), of s mid limit] assms(2) by auto

definition exampleCommit :: "string \<Rightarrow> CommitDoc" where
  "exampleCommit cid =
     \<lparr>cdoc_ID = cid, cdoc_ModuleID = ''m'', cdoc_OwnerID = ''o'', cdoc_FilesDigest = ''shake256:00'',
      cdoc_ModuleDigest = [], cdoc_CreateTime = 1, cdoc_CreatedByUserID = [],
      cdoc_SourceControlURL = [], cdoc_DepCommitIDs = []\<rparr>"

theorem list_commits_pages_complete_witness:
  "\<exists>xs. followPages
      (Meta_ListCommits memBackend (memEmpty\<lparr>m_commits := [exampleCommit ''1'', exampleCommit ''2'']\<rparr>) ''m'' 1)
      (card (moduleCommits
        (memView (memEmpty\<lparr>m_commits := [exampleCommit ''1'', exampleCommit ''2'']\<rparr>)) ''m'') + 1) []
    = Some (Inr xs) \<and> distinct (map commit_ID xs)"
  using list_commits_pages_complete [OF mem.backend_laws_axioms,
      of "memEmpty\<lparr>m_commits := [exampleCommit ''1'', exampleCommit ''2'']\<rparr>" "''m''" 1]
  by (auto simp: memView_def memFind_def exampleCommit_def)

end
