(* ===== verification/Util.thy ===== *)
theory Util
  imports Prelude
begin

unbundle bit_operations_syntax

text \<open>
  Package \<open>internal/util\<close>: the deterministic identifiers of owners and modules
  (\<open>util/id.go\<close>).  They are the first 32 hexadecimal characters of a SHA-256 hash, so
  the theory first models \<open>crypto/sha256\<close> of Go's standard library (FIPS 180-4) on
  32-bit words.
\<close>

section \<open>Package crypto/sha256\<close>

type_synonym w32 = "32 word"

definition rotr :: "nat \<Rightarrow> w32 \<Rightarrow> w32" where
  "rotr n x = (drop_bit n x) OR (push_bit (32 - n) x)"

text \<open>
  The constants of FIPS 180-4: the first 32 bits of the fractional parts of the cube roots
  (round constants) and square roots (initial state) of the first primes, computed from
  that definition bit by bit: the largest \<open>r\<close> with \<open>r ^ k \<le> p * 2 ^ (32 * k)\<close>, modulo \<open>2 ^ 32\<close>.
\<close>

definition rootBits :: "nat \<Rightarrow> int \<Rightarrow> w32" where
  "rootBits k p =
     word_of_int (foldl (\<lambda>r b. if (r + 2 ^ b) ^ k \<le> p * 2 ^ (32 * k) then r + 2 ^ b else r)
       0 (rev [0 ..< 37]))"

definition firstPrimes :: "int list" where
  "firstPrimes =
     filter (\<lambda>n. list_all (\<lambda>m. n mod m \<noteq> 0) [2 .. n - 1]) [2 .. 311]"

definition shaK :: "w32 list" where
  "shaK = map (rootBits 3) firstPrimes"

definition shaInit :: "w32 list" where
  "shaInit = map (rootBits 2) (take 8 firstPrimes)"

lemma length_shaInit: "length shaInit = 8"
proof -
  let ?P = "\<lambda>n :: int. list_all (\<lambda>m. n mod m \<noteq> 0) [2 .. n - 1]"
  have split: "[2 .. 311] = [2 .. 20 - 1] @ [20 .. 311 :: int]" by (rule upto_split1) simp_all
  have "length firstPrimes = length (filter ?P [2 .. 20 - 1]) + length (filter ?P [20 .. 311])"
    by (simp only: firstPrimes_def split filter_append length_append)
  moreover have "length (filter ?P [2 .. 20 - 1]) = 8" by code_simp
  ultimately have "8 \<le> length firstPrimes" by linarith
  then show ?thesis by (simp add: shaInit_def)
qed

text \<open>Big-endian bytes of a number, and the padding of a message to 64-byte blocks.\<close>

definition be64 :: "nat \<Rightarrow> byte list" where
  "be64 n =
     (let w = (word_of_nat n :: 64 word)
      in map (\<lambda>i. ucast (drop_bit i w)) [56, 48, 40, 32, 24, 16, 8, 0])"

definition shaPad :: "byte list \<Rightarrow> byte list" where
  "shaPad bs =
     bs @ 0x80 # replicate ((119 - length bs mod 64) mod 64) 0 @ be64 (8 * length bs)"

definition word32_of :: "byte list \<Rightarrow> w32" where
  "word32_of bs = foldl (\<lambda>acc b. push_bit 8 acc OR ucast b) 0 bs"

fun chunksOf :: "nat \<Rightarrow> 'a list \<Rightarrow> nat \<Rightarrow> 'a list list" where
  "chunksOf n xs 0 = []"
| "chunksOf n xs (Suc k) = take n xs # chunksOf n (drop n xs) k"

text \<open>
  The message schedule keeps the last sixteen words; each round consumes the oldest and
  appends \<open>w(i-16) + s0(w(i-15)) + w(i-7) + s1(w(i-2))\<close>.
\<close>

definition schedNext :: "w32 list \<Rightarrow> w32" where
  "schedNext ws =
     (let x = ws ! 1; y = ws ! 14;
          s0 = rotr 7 x XOR rotr 18 x XOR drop_bit 3 x;
          s1 = rotr 17 y XOR rotr 19 y XOR drop_bit 10 y
      in ws ! 0 + s0 + ws ! 9 + s1)"

definition shaRound :: "w32 \<Rightarrow> w32 \<Rightarrow> w32 list \<Rightarrow> w32 list" where
  "shaRound k w st =
     (case st of
        [a, b, c, d, e, f, g, h] \<Rightarrow>
          let S1 = rotr 6 e XOR rotr 11 e XOR rotr 25 e;
              ch = (e AND f) XOR (NOT e AND g);
              t1 = h + S1 + ch + k + w;
              S0 = rotr 2 a XOR rotr 13 a XOR rotr 22 a;
              maj = (a AND b) XOR (a AND c) XOR (b AND c)
          in [t1 + (S0 + maj), a, b, c, d + t1, e, f, g]
      | _ \<Rightarrow> st)"

fun shaRounds :: "w32 list \<Rightarrow> w32 list \<Rightarrow> w32 list \<Rightarrow> w32 list" where
  "shaRounds [] ws st = st"
| "shaRounds (k # ks) ws st =
     shaRounds ks (tl ws @ [schedNext ws]) (shaRound k (hd ws) st)"

definition shaBlock :: "w32 list \<Rightarrow> byte list \<Rightarrow> w32 list" where
  "shaBlock h blk =
     map2 (+) h (shaRounds shaK (map word32_of (chunksOf 4 blk 16)) h)"

definition be32 :: "w32 \<Rightarrow> byte list" where
  "be32 w = [ucast (drop_bit 24 w), ucast (drop_bit 16 w), ucast (drop_bit 8 w), ucast w]"

definition bytes_of :: "string \<Rightarrow> byte list" where
  "bytes_of s = map of_char s"

definition Sum256 :: "string \<Rightarrow> byte list" where
  "Sum256 s =
     (let p = shaPad (bytes_of s)
      in concat (map be32 (foldl shaBlock shaInit (chunksOf 64 p (length p div 64)))))"

lemma length_shaRound: "length st = 8 \<Longrightarrow> length (shaRound k w st) = 8"
  by (auto simp: shaRound_def Let_def split: list.splits)

lemma length_shaRounds: "length st = 8 \<Longrightarrow> length (shaRounds ks ws st) = 8"
  by (induction ks ws st rule: shaRounds.induct) (auto simp: length_shaRound)

lemma length_shaBlock: "length h = 8 \<Longrightarrow> length (shaBlock h blk) = 8"
  by (simp add: shaBlock_def length_shaRounds)

lemma length_foldl_shaBlock: "length h = 8 \<Longrightarrow> length (foldl shaBlock h blks) = 8"
  by (induction blks arbitrary: h) (auto simp: length_shaBlock)

lemma length_concat_be32: "length (concat (map be32 ws)) = 4 * length ws"
  by (induction ws) (auto simp: be32_def)

lemma length_Sum256 [simp]: "length (Sum256 s) = 32"
proof -
  show ?thesis
    by (simp add: Sum256_def Let_def length_concat_be32 length_foldl_shaBlock length_shaInit)
qed

section \<open>Identifiers (util/id.go)\<close>

definition fakeUUID :: "string \<Rightarrow> string" where
  "fakeUUID input =
     (let hash = Sum256 input;
          hexString = EncodeToString hash
      in if length hexString > 32 then take 32 hexString else hexString)"

definition OwnerID :: "string \<Rightarrow> string" where
  "OwnerID name = fakeUUID name"

definition ModuleID :: "string \<Rightarrow> string \<Rightarrow> string" where
  "ModuleID ownerID name = fakeUUID (ownerID @ ''/'' @ name)"

lemma fakeUUID_prefix: "fakeUUID s = take 32 (EncodeToString (Sum256 s))"
  by (simp add: fakeUUID_def)

lemma length_fakeUUID [simp]: "length (fakeUUID s) = 32"
  by (simp add: fakeUUID_prefix)

lemma fakeUUID_isLowerHex: "c \<in> set (fakeUUID s) \<Longrightarrow> isLowerHex c"
  using EncodeToString_isLowerHex by (auto simp: fakeUUID_prefix dest: in_set_takeD)

lemma no_slash_fakeUUID: "CHR ''/'' \<notin> set (fakeUUID s)"
  using fakeUUID_isLowerHex isLowerHex_not_special by blast

text \<open>
  C38. Every owner and module identifier consists of exactly 32 lower-case hexadecimal
  characters, whatever the names are (empty, long, or with arbitrary bytes); in
  particular it never contains the slash that separates the parts of derived keys.
\<close>

theorem identifiers_are_32_hex:
  "length (OwnerID owner) = 32 \<and> length (ModuleID oid name) = 32
   \<and> list_all isLowerHex (OwnerID owner) \<and> list_all isLowerHex (ModuleID oid name)
   \<and> CHR ''/'' \<notin> set (OwnerID owner) \<and> CHR ''/'' \<notin> set (ModuleID oid name)"
  by (auto simp: OwnerID_def ModuleID_def list_all_iff no_slash_fakeUUID
      intro: fakeUUID_isLowerHex)

end
