(* ===== verification/Buf_Lock.thy ===== *)
theory Buf_Lock
  imports Prelude
begin

text \<open>
  The hand-written parser of \<open>buf.lock\<close> files (\<open>ParseBufLock\<close> in
  \<open>internal/registry/registry.go\<close>).  It scans the trimmed lines with the dependency under
  construction as its state; it never fails.  The lemmas show that it reads back the
  version 1 layout that \<open>buf\<close> writes.
\<close>

section \<open>The parser\<close>

record BufLockDep =
  bl_Remote :: string
  bl_Owner :: string
  bl_Repository :: string
  bl_Commit :: string
  bl_Digest :: string

record BufLock =
  bl_Deps :: "BufLockDep list"

definition fieldValue :: "string \<Rightarrow> string \<Rightarrow> string" where
  "fieldValue line key = TrimSpace (TrimPrefix line key)"

definition newDep :: "string \<Rightarrow> BufLockDep" where
  "newDep remote =
     \<lparr>bl_Remote = remote, bl_Owner = [], bl_Repository = [], bl_Commit = [], bl_Digest = []\<rparr>"

text \<open>The chain of \<open>else if\<close> that sets a field of the current dependency.\<close>

definition depField :: "string \<Rightarrow> BufLockDep \<Rightarrow> BufLockDep" where
  "depField line dep =
     (if HasPrefix line ''owner:'' then dep\<lparr>bl_Owner := fieldValue line ''owner:''\<rparr>
      else if HasPrefix line ''repository:''
        then dep\<lparr>bl_Repository := fieldValue line ''repository:''\<rparr>
      else if HasPrefix line ''commit:'' then dep\<lparr>bl_Commit := fieldValue line ''commit:''\<rparr>
      else if HasPrefix line ''digest:'' then dep\<lparr>bl_Digest := fieldValue line ''digest:''\<rparr>
      else dep)"

fun bufLockLines ::
  "string list \<Rightarrow> BufLockDep list \<Rightarrow> BufLockDep option \<Rightarrow> BufLockDep list" where
  "bufLockLines [] deps currentDep =
     (case currentDep of None \<Rightarrow> deps | Some dep \<Rightarrow> deps @ [dep])"
| "bufLockLines (raw # rest) deps currentDep =
     (let line = TrimSpace raw in
      if line = [] \<or> HasPrefix line ''#'' then bufLockLines rest deps currentDep
      else if line = ''deps:'' then bufLockLines rest deps currentDep
      else if HasPrefix line ''- remote:''
        then bufLockLines rest
               (case currentDep of None \<Rightarrow> deps | Some dep \<Rightarrow> deps @ [dep])
               (Some (newDep (fieldValue line ''- remote:'')))
      else (case currentDep of
              None \<Rightarrow> bufLockLines rest deps None
            | Some dep \<Rightarrow> bufLockLines rest deps (Some (depField line dep))))"

definition ParseBufLock :: "string \<Rightarrow> BufLock res" where
  "ParseBufLock content = Inr \<lparr>bl_Deps = bufLockLines (SplitByte (CHR 0x0A) content) [] None\<rparr>"

section \<open>Trimming\<close>

text \<open>A printable ASCII character: it begins no space rune and ends none.\<close>

definition plain :: "char \<Rightarrow> bool" where
  "plain c \<longleftrightarrow> 0x21 \<le> (of_char c :: nat) \<and> (of_char c :: nat) \<le> 0x7E"

definition plainWord :: "string \<Rightarrow> bool" where
  "plainWord x \<longleftrightarrow> x \<noteq> [] \<and> list_all plain x"

lemma plain_not_space:
  "plain c \<Longrightarrow> \<not> HasPrefix (c # s) w" if "w \<in> set spaceRunes \<or> w \<in> set (map rev spaceRunes)" for w
  using that by (auto simp: spaceRunes_def plain_def HasPrefix_def)

lemma trimLeft_plain:
  assumes "plain c" "ws = spaceRunes \<or> ws = map rev spaceRunes"
  shows "trimLeftOf ws (c # s) = c # s"
proof -
  have "find (HasPrefix (c # s)) ws = None"
    using assms plain_not_space unfolding find_None_iff by blast
  then show ?thesis by (subst trimLeftOf.simps) (simp add: dropOneOf_def)
qed

lemma trimLeft_space: "trimLeftOf spaceRunes (CHR '' '' # s) = trimLeftOf spaceRunes s"
  by (subst trimLeftOf.simps) (simp add: dropOneOf_def spaceRunes_def HasPrefix_def)

lemma TrimSpace_plain:
  assumes "plain a" "plain b" "x = a # xs" "x = ys @ [b]"
  shows "TrimSpace (replicate n (CHR '' '') @ x) = x"
proof -
  have "TrimLeftSpace (replicate n (CHR '' '') @ x) = TrimLeftSpace x"
    unfolding TrimLeftSpace_def by (induction n) (simp_all add: trimLeft_space)
  also have "\<dots> = x" using assms(1,3) by (simp add: TrimLeftSpace_def trimLeft_plain)
  finally show ?thesis using assms(2,4)
    by (simp add: TrimSpace_def TrimRightSpace_def trimLeft_plain)
qed

lemma TrimSpace_key:
  assumes "plainWord k" "plainWord x"
  shows "TrimSpace (replicate n (CHR '' '') @ k @ CHR '' '' # x) = k @ CHR '' '' # x"
proof -
  obtain a k' where "k = a # k'" "plain a" using assms(1) by (cases k) (auto simp: plainWord_def)
  moreover obtain b x' where "x = x' @ [b]" "plain b"
    using assms(2) by (cases x rule: rev_cases) (auto simp: plainWord_def)
  ultimately show ?thesis
    using TrimSpace_plain [of a b "k @ CHR '' '' # x" "k' @ CHR '' '' # x" "k @ CHR '' '' # x'" n]
    by simp
qed

lemma TrimSpace_value: "plainWord x \<Longrightarrow> TrimSpace (CHR '' '' # x) = x"
proof -
  assume x: "plainWord x"
  obtain a x' where "x = a # x'" "plain a" using x by (cases x) (auto simp: plainWord_def)
  moreover obtain b x'' where "x = x'' @ [b]" "plain b"
    using x by (cases x rule: rev_cases) (auto simp: plainWord_def)
  ultimately show ?thesis using TrimSpace_plain [of a b x x' x'' 1] by simp
qed

lemma fieldValue_key:
  "plainWord x \<Longrightarrow> fieldValue (k @ CHR '' '' # x) k = x"
  by (simp add: fieldValue_def TrimSpace_value)

section \<open>The layout of version 1 lock files\<close>

definition depLines :: "BufLockDep \<Rightarrow> string list" where
  "depLines d =
     [''  - remote: '' @ bl_Remote d, ''    owner: '' @ bl_Owner d,
      ''    repository: '' @ bl_Repository d, ''    commit: '' @ bl_Commit d,
      ''    digest: '' @ bl_Digest d]"

definition renderBufLock :: "BufLock \<Rightarrow> string" where
  "renderBufLock lock =
     JoinWith [CHR 0x0A]
       (''# Generated by buf. DO NOT EDIT.'' # ''version: v1'' # ''deps:''
        # concat (map depLines (bl_Deps lock)) @ [[]])"

definition wfDep :: "BufLockDep \<Rightarrow> bool" where
  "wfDep d \<longleftrightarrow> plainWord (bl_Remote d) \<and> plainWord (bl_Owner d) \<and> plainWord (bl_Repository d)
     \<and> plainWord (bl_Commit d) \<and> plainWord (bl_Digest d)"

lemma plainWord_no_nl: "plainWord x \<Longrightarrow> CHR 0x0A \<notin> set x"
  by (auto simp: plainWord_def list_all_iff plain_def)

lemma TrimSpace_lines:
  assumes "wfDep d"
  shows "TrimSpace (''  - remote: '' @ bl_Remote d) = ''- remote: '' @ bl_Remote d"
    "TrimSpace (''    owner: '' @ bl_Owner d) = ''owner: '' @ bl_Owner d"
    "TrimSpace (''    repository: '' @ bl_Repository d) = ''repository: '' @ bl_Repository d"
    "TrimSpace (''    commit: '' @ bl_Commit d) = ''commit: '' @ bl_Commit d"
    "TrimSpace (''    digest: '' @ bl_Digest d) = ''digest: '' @ bl_Digest d"
proof -
  obtain b r where r: "bl_Remote d = r @ [b]" "plain b"
    using assms by (cases "bl_Remote d" rule: rev_cases) (auto simp: wfDep_def plainWord_def)
  have "plain CHR ''-''" by (simp add: plain_def)
  then show "TrimSpace (''  - remote: '' @ bl_Remote d) = ''- remote: '' @ bl_Remote d"
    using TrimSpace_plain [OF _ r(2) refl, of "CHR ''-''" "'' remote: '' @ bl_Remote d"
        "''- remote: '' @ r" 2] r by (simp add: numeral_eq_Suc)
qed (insert assms TrimSpace_key [of "''owner:''" "bl_Owner d" 4]
      TrimSpace_key [of "''repository:''" "bl_Repository d" 4]
      TrimSpace_key [of "''commit:''" "bl_Commit d" 4]
      TrimSpace_key [of "''digest:''" "bl_Digest d" 4],
    simp_all add: wfDep_def plainWord_def plain_def numeral_eq_Suc)

lemma depField_lines:
  assumes "wfDep d"
  shows "depField (''owner: '' @ bl_Owner d) dep = dep\<lparr>bl_Owner := bl_Owner d\<rparr>"
    "depField (''repository: '' @ bl_Repository d) dep = dep\<lparr>bl_Repository := bl_Repository d\<rparr>"
    "depField (''commit: '' @ bl_Commit d) dep = dep\<lparr>bl_Commit := bl_Commit d\<rparr>"
    "depField (''digest: '' @ bl_Digest d) dep = dep\<lparr>bl_Digest := bl_Digest d\<rparr>"
  using assms fieldValue_key [of "bl_Owner d" "''owner:''"]
    fieldValue_key [of "bl_Repository d" "''repository:''"]
    fieldValue_key [of "bl_Commit d" "''commit:''"] fieldValue_key [of "bl_Digest d" "''digest:''"]
  by (simp_all add: depField_def HasPrefix_def wfDep_def)

lemma bufLockLines_field:
  assumes "TrimSpace raw = line" "line \<noteq> []" "\<not> HasPrefix line ''#''" "line \<noteq> ''deps:''"
    "\<not> HasPrefix line ''- remote:''"
  shows "bufLockLines (raw # rest) deps (Some dep) = bufLockLines rest deps (Some (depField line dep))"
  using assms by (simp add: Let_def)

lemma bufLockLines_remote:
  assumes "TrimSpace raw = ''- remote: '' @ x" "plainWord x"
  shows "bufLockLines (raw # rest) deps cur =
    bufLockLines rest (case cur of None \<Rightarrow> deps | Some dep \<Rightarrow> deps @ [dep]) (Some (newDep x))"
proof -
  have "fieldValue (''- remote: '' @ x) ''- remote:'' = x"
    using assms(2) fieldValue_key [of x "''- remote:''"] by simp
  then show ?thesis unfolding bufLockLines.simps(2) assms(1) by (simp add: HasPrefix_def Let_def)
qed

lemma bufLockLines_dep:
  assumes "wfDep d"
  shows "bufLockLines (depLines d @ rest) deps cur =
    bufLockLines rest (case cur of None \<Rightarrow> deps | Some dep \<Rightarrow> deps @ [dep]) (Some d)"
proof -
  note t = TrimSpace_lines [OF assms]
  have "plainWord (bl_Remote d)" using assms by (simp add: wfDep_def)
  note remote = bufLockLines_remote [OF t(1) this]
  have owner: "bufLockLines ((''    owner: '' @ bl_Owner d) # r) ds (Some dep) =
      bufLockLines r ds (Some (dep\<lparr>bl_Owner := bl_Owner d\<rparr>))" for r ds dep
    unfolding depField_lines(1) [OF assms, symmetric]
    by (rule bufLockLines_field [OF t(2)]) (simp_all add: HasPrefix_def)
  have repository: "bufLockLines ((''    repository: '' @ bl_Repository d) # r) ds (Some dep) =
      bufLockLines r ds (Some (dep\<lparr>bl_Repository := bl_Repository d\<rparr>))" for r ds dep
    unfolding depField_lines(2) [OF assms, symmetric]
    by (rule bufLockLines_field [OF t(3)]) (simp_all add: HasPrefix_def)
  have commit: "bufLockLines ((''    commit: '' @ bl_Commit d) # r) ds (Some dep) =
      bufLockLines r ds (Some (dep\<lparr>bl_Commit := bl_Commit d\<rparr>))" for r ds dep
    unfolding depField_lines(3) [OF assms, symmetric]
    by (rule bufLockLines_field [OF t(4)]) (simp_all add: HasPrefix_def)
  have digest: "bufLockLines ((''    digest: '' @ bl_Digest d) # r) ds (Some dep) =
      bufLockLines r ds (Some (dep\<lparr>bl_Digest := bl_Digest d\<rparr>))" for r ds dep
    unfolding depField_lines(4) [OF assms, symmetric]
    by (rule bufLockLines_field [OF t(5)]) (simp_all add: HasPrefix_def)
  have lines: "depLines d @ rest = (''  - remote: '' @ bl_Remote d) # (''    owner: '' @ bl_Owner d)
      # (''    repository: '' @ bl_Repository d) # (''    commit: '' @ bl_Commit d)
      # (''    digest: '' @ bl_Digest d) # rest"
    by (simp add: depLines_def)
  have "newDep (bl_Remote d)\<lparr>bl_Owner := bl_Owner d, bl_Repository := bl_Repository d,
      bl_Commit := bl_Commit d, bl_Digest := bl_Digest d\<rparr> = d"
    by (simp add: newDep_def)
  then show ?thesis unfolding lines remote owner repository commit digest by simp
qed

lemma bufLockLines_deps:
  "\<forall>d \<in> set ds. wfDep d \<Longrightarrow>
   bufLockLines (concat (map depLines ds) @ [[]]) deps cur =
     (case cur of None \<Rightarrow> deps | Some dep \<Rightarrow> deps @ [dep]) @ ds"
proof (induction ds arbitrary: deps cur)
  case Nil
  have "TrimSpace [] = []" by code_simp
  then show ?case by (auto split: option.split)
next
  case (Cons d ds)
  then show ?case by (simp add: bufLockLines_dep split: option.split)
qed

section \<open>Property\<close>

text \<open>
  Round trip of \<open>buf.lock\<close>: for every list of dependencies whose fields are non-empty
  words of printable characters, parsing the version 1 layout (comment header, version
  line, \<open>deps:\<close>, and per dependency an indented entry of five fields) returns exactly
  these dependencies in order.
\<close>

theorem buf_lock_roundtrip:
  assumes "\<forall>d \<in> set (bl_Deps lock). wfDep d"
  shows "ParseBufLock (renderBufLock lock) = Inr lock"
proof -
  let ?ls = "''# Generated by buf. DO NOT EDIT.'' # ''version: v1'' # ''deps:''
        # concat (map depLines (bl_Deps lock)) @ [[]]"
  have "\<forall>l \<in> set ?ls. CHR 0x0A \<notin> set l"
    using assms by (auto simp: depLines_def wfDep_def dest: plainWord_no_nl)
  then have sp: "SplitByte (CHR 0x0A) (renderBufLock lock) = ?ls"
    unfolding renderBufLock_def by (intro SplitByte_Join) auto
  have t: "TrimSpace ''# Generated by buf. DO NOT EDIT.'' = ''# Generated by buf. DO NOT EDIT.''"
    "TrimSpace ''version: v1'' = ''version: v1''" "TrimSpace ''deps:'' = ''deps:''"
    by code_simp+
  have "bufLockLines ?ls [] None = bl_Deps lock"
    unfolding bufLockLines.simps(2) t
    using bufLockLines_deps [OF assms, of "[]" None] by (simp add: HasPrefix_def Let_def)
  then show ?thesis by (simp add: ParseBufLock_def sp)
qed

definition exampleDepLine :: BufLockDep where
  "exampleDepLine =
     \<lparr>bl_Remote = ''buf.build'', bl_Owner = ''acme'', bl_Repository = ''petapis'',
      bl_Commit = ''7abdb7802c8f4737a1a23a35ca8266ef'', bl_Digest = ''shake256:00ff''\<rparr>"

theorem buf_lock_roundtrip_witness:
  "ParseBufLock (renderBufLock \<lparr>bl_Deps = [exampleDepLine, exampleDepLine]\<rparr>)
   = Inr \<lparr>bl_Deps = [exampleDepLine, exampleDepLine]\<rparr>"
proof (rule buf_lock_roundtrip)
  have "wfDep exampleDepLine" by code_simp
  then show "\<forall>d \<in> set (bl_Deps \<lparr>bl_Deps = [exampleDepLine, exampleDepLine]\<rparr>). wfDep d" by simp
qed

end
