(* ===== verification/Registry.thy ===== *)
theory Registry
  imports Listing Util Buf_Lock
begin

text \<open>
  The registry (\<open>internal/registry/registry.go\<close>): owners and modules by name and by their
  derived identifiers.  A \<open>*Module\<close> holds its record and a pointer to the registry; the
  registry's three stores are the backend \<open>B\<close>, so the model's \<open>Module\<close> holds the record.
  The lemmas give the invariant of the modules collection and the behaviour of creation,
  lookup and deletion under it.
\<close>

section \<open>Types\<close>

record Module =
  mod_record :: ModuleRecord

record File =
  f_Path :: string
  f_Content :: string
  f_Digest :: Digest

record Commit =
  c_ID :: string
  c_ModuleID :: string
  c_OwnerID :: string
  c_FilesDigest :: Digest
  c_ModuleDigest :: ModuleDigest
  c_CreateTime :: time
  c_DepCommitIDs :: "string list"

definition Module_ID :: "Module \<Rightarrow> string" where
  "Module_ID m = module_ID (mod_record m)"

definition Module_OwnerID :: "Module \<Rightarrow> string" where
  "Module_OwnerID m = module_OwnerID (mod_record m)"

definition Module_Owner :: "Module \<Rightarrow> string" where
  "Module_Owner m = module_Owner (mod_record m)"

definition Module_Name :: "Module \<Rightarrow> string" where
  "Module_Name m = module_Name (mod_record m)"

definition Module_Description :: "Module \<Rightarrow> string" where
  "Module_Description m = module_Description (mod_record m)"

definition Module_DefaultLabelName :: "Module \<Rightarrow> string" where
  "Module_DefaultLabelName m = module_DefaultLabelName (mod_record m)"

definition Module_CreateTime :: "Module \<Rightarrow> time" where
  "Module_CreateTime m = module_CreateTime (mod_record m)"

text \<open>The copy of a commit's record into a \<open>Commit\<close>, which the code repeats at each use.\<close>

definition toCommit :: "CommitRecord \<Rightarrow> Commit" where
  "toCommit r =
     \<lparr>c_ID = commit_ID r, c_ModuleID = commit_ModuleID r, c_OwnerID = commit_OwnerID r,
      c_FilesDigest = commit_FilesDigest r, c_ModuleDigest = commit_ModuleDigest r,
      c_CreateTime = commit_CreateTime r, c_DepCommitIDs = commit_DepCommitIDs r\<rparr>"

text \<open>\<open>Registry\<close> itself: the three stores, which are the backend here, and the name of the host.\<close>

record 's registry =
  r_stores :: "'s backend"
  r_hostName :: string

definition Reg_New :: "'s backend \<Rightarrow> string \<Rightarrow> 's registry" where
  "Reg_New stores hostName = \<lparr>r_stores = stores, r_hostName = hostName\<rparr>"

definition HostName :: "'s registry \<Rightarrow> string" where
  "HostName r = r_hostName r"

section \<open>Operations\<close>

definition Reg_Module :: "'s backend \<Rightarrow> 's \<Rightarrow> string \<Rightarrow> string \<Rightarrow> Module res" where
  "Reg_Module B s owner name =
     (case Meta_GetModuleByName B s owner name of
        Inl err \<Rightarrow> Inl err
      | Inr rcd \<Rightarrow> Inr \<lparr>mod_record = rcd\<rparr>)"

definition Reg_ModuleByID :: "'s backend \<Rightarrow> 's \<Rightarrow> string \<Rightarrow> Module res" where
  "Reg_ModuleByID B s mid =
     (case Meta_GetModule B s mid of
        Inl err \<Rightarrow> Inl err
      | Inr rcd \<Rightarrow> Inr \<lparr>mod_record = rcd\<rparr>)"

definition Reg_ModuleByCommitID :: "'s backend \<Rightarrow> 's \<Rightarrow> string \<Rightarrow> Module res" where
  "Reg_ModuleByCommitID B s commitID =
     (case Meta_GetCommit B s commitID of
        Inl err \<Rightarrow> Inl err
      | Inr commit \<Rightarrow> Reg_ModuleByID B s (commit_ModuleID commit))"

definition Reg_CommitByID :: "'s backend \<Rightarrow> 's \<Rightarrow> string \<Rightarrow> Commit res" where
  "Reg_CommitByID B s commitID =
     (case Meta_GetCommit B s commitID of
        Inl err \<Rightarrow> Inl err
      | Inr rcd \<Rightarrow> Inr (toCommit rcd))"

text \<open>The loop over the dependency IDs; \<open>digests\<close> is the slice built so far.\<close>

fun depDigestLoop ::
  "'s backend \<Rightarrow> 's \<Rightarrow> string list \<Rightarrow> ModuleDigest list \<Rightarrow> ModuleDigest list res" where
  "depDigestLoop B s [] digests = Inr digests"
| "depDigestLoop B s (commitID # rest) digests =
     (case Reg_CommitByID B s commitID of
        Inl err \<Rightarrow> Inl (Wrapf (''failed to get dependency commit '' @ commitID @ '': '') err)
      | Inr commit \<Rightarrow> depDigestLoop B s rest (digests @ [c_ModuleDigest commit]))"

definition Reg_GetDepModuleDigests :: "'s backend \<Rightarrow> 's \<Rightarrow> string list \<Rightarrow> ModuleDigest list res" where
  "Reg_GetDepModuleDigests B s depCommitIDs = depDigestLoop B s depCommitIDs []"

text \<open>The part of \<open>CreateModule\<close> that makes sure the owner exists.\<close>

definition ensureOwner :: "'s backend \<Rightarrow> 's \<Rightarrow> string \<Rightarrow> 's \<times> goerr option" where
  "ensureOwner B s owner =
     (let ownerID = OwnerID owner in
      case Meta_GetOwner B s ownerID of
        Inr _ \<Rightarrow> (s, None)
      | Inl err \<Rightarrow>
          if err = ErrNotFound
          then (case timeNow B s of
                  (t, s1) \<Rightarrow>
                    (case Meta_CreateOwner B s1
                        \<lparr>owner_ID = ownerID, owner_Name = owner, owner_CreateTime = t\<rparr> of
                       (s2, Some e) \<Rightarrow>
                         if e \<noteq> ErrAlreadyExists
                         then (s2, Some (Wrapf ''failed to create owner: '' e)) else (s2, None)
                     | (s2, None) \<Rightarrow> (s2, None)))
          else (s, Some (Wrapf ''failed to get owner: '' err)))"

definition Reg_CreateModule ::
  "'s backend \<Rightarrow> 's \<Rightarrow> string \<Rightarrow> string \<Rightarrow> string \<Rightarrow> 's \<times> Module res" where
  "Reg_CreateModule B s owner name description =
     (case ensureOwner B s owner of
        (s1, Some err) \<Rightarrow> (s1, Inl err)
      | (s1, None) \<Rightarrow>
          (let moduleID = ModuleID (OwnerID owner) name;
               (now, s2) = timeNow B s1;
               rcd = \<lparr>module_ID = moduleID, module_OwnerID = OwnerID owner, module_Owner = owner,
                      module_Name = name, module_Description = description,
                      module_DefaultLabelName = ''main'', module_CreateTime = now,
                      module_UpdateTime = now\<rparr>
           in case Meta_CreateModule B s2 rcd of
                (s3, Some err) \<Rightarrow>
                  if err = ErrAlreadyExists then (s3, Reg_Module B s3 owner name)
                  else (s3, Inl (Wrapf ''failed to create module: '' err))
              | (s3, None) \<Rightarrow> (s3, Inr \<lparr>mod_record = rcd\<rparr>)))"

definition Reg_GetOrCreateModule ::
  "'s backend \<Rightarrow> 's \<Rightarrow> string \<Rightarrow> string \<Rightarrow> 's \<times> Module res" where
  "Reg_GetOrCreateModule B s owner name =
     (case Reg_Module B s owner name of
        Inr m \<Rightarrow> (s, Inr m)
      | Inl err \<Rightarrow>
          if err \<noteq> ErrNotFound then (s, Inl err) else Reg_CreateModule B s owner name [])"

definition Reg_DeleteModule :: "'s backend \<Rightarrow> 's \<Rightarrow> string \<Rightarrow> string \<Rightarrow> 's \<times> goerr option" where
  "Reg_DeleteModule B s owner name =
     (case Meta_GetModuleByName B s owner name of
        Inl err \<Rightarrow> (s, Some err)
      | Inr rcd \<Rightarrow> Meta_DeleteModule B s (module_ID rcd))"

definition Reg_ListModules :: "'s backend \<Rightarrow> 's \<Rightarrow> string \<Rightarrow> Module list res" where
  "Reg_ListModules B s owner =
     (case Meta_ListModules B s (OwnerID owner) of
        Inl err \<Rightarrow> Inl err
      | Inr records \<Rightarrow> Inr (map (\<lambda>rcd. \<lparr>mod_record = rcd\<rparr>) records))"

definition Reg_Owner :: "'s backend \<Rightarrow> 's \<Rightarrow> string \<Rightarrow> OwnerRecord res" where
  "Reg_Owner B s oid = Meta_GetOwner B s oid"

definition Reg_OwnerByName :: "'s backend \<Rightarrow> 's \<Rightarrow> string \<Rightarrow> OwnerRecord res" where
  "Reg_OwnerByName B s name = Meta_GetOwnerByName B s name"

definition Reg_ListOwners :: "'s backend \<Rightarrow> 's \<Rightarrow> OwnerRecord list res" where
  "Reg_ListOwners B s = Meta_ListOwners B s"

section \<open>Modules are keyed by their names\<close>

definition modulesOK :: "store \<Rightarrow> bool" where
  "modulesOK st \<longleftrightarrow>
     (\<forall>k d. vModules st k = Some d \<longrightarrow>
        mdoc_OwnerID d = OwnerID (mdoc_Owner d) \<and> ModuleID (OwnerID (mdoc_Owner d)) (mdoc_Name d) = k)"

lemma modulesOKD:
  "modulesOK st \<Longrightarrow> vModules st k = Some d \<Longrightarrow>
   mdoc_OwnerID d = OwnerID (mdoc_Owner d) \<and> k = ModuleID (OwnerID (mdoc_Owner d)) (mdoc_Name d)"
  by (metis modulesOK_def)

text \<open>The record \<open>CreateModule\<close> writes.\<close>

definition newModule :: "string \<Rightarrow> string \<Rightarrow> string \<Rightarrow> time \<Rightarrow> ModuleRecord" where
  "newModule owner name description now =
     \<lparr>module_ID = ModuleID (OwnerID owner) name, module_OwnerID = OwnerID owner,
      module_Owner = owner, module_Name = name, module_Description = description,
      module_DefaultLabelName = ''main'', module_CreateTime = now, module_UpdateTime = now\<rparr>"

text \<open>Equality of two contents except for the owners.\<close>

definition sameButOwners :: "store \<Rightarrow> store \<Rightarrow> bool" where
  "sameButOwners st st' \<longleftrightarrow>
     vBlobs st' = vBlobs st \<and> vModules st' = vModules st \<and> vCommits st' = vCommits st
     \<and> vLabels st' = vLabels st \<and> vIds st' = vIds st"

definition sameButModules :: "store \<Rightarrow> store \<Rightarrow> bool" where
  "sameButModules st st' \<longleftrightarrow>
     vBlobs st' = vBlobs st \<and> vCommits st' = vCommits st \<and> vLabels st' = vLabels st
     \<and> vIds st' = vIds st"

lemma sameBut_refl [simp]: "sameButOwners st st" "sameButModules st st"
  by (simp_all add: sameButOwners_def sameButModules_def)

context backend_laws
begin

lemma now_view: "timeNow B s = (t, s') \<Longrightarrow> view s' = view s"
  using now_abs [of s] by simp

lemma ensureOwner_view:
  assumes "ensureOwner B s owner = (s', r)"
  shows "sameButOwners (view s) (view s') \<and> vOwners (view s) \<subseteq>\<^sub>m vOwners (view s')
    \<and> (r = None \<longrightarrow> vOwners (view s') (OwnerID owner) \<noteq> None)"
proof (cases "vOwners (view s) (OwnerID owner)")
  case (Some d)
  then show ?thesis using assms by (auto simp: ensureOwner_def Meta_GetOwner_view)
next
  case None
  obtain t s1 where t: "timeNow B s = (t, s1)" by fastforce
  obtain s2 r2 where c: "Meta_CreateOwner B s1
      \<lparr>owner_ID = OwnerID owner, owner_Name = owner, owner_CreateTime = t\<rparr> = (s2, r2)" by fastforce
  note v = Meta_CreateOwner_view [OF c] now_view [OF t]
  show ?thesis
    using assms None t c v
    by (auto simp: ensureOwner_def Meta_GetOwner_view sameButOwners_def map_le_def Let_def
        split: option.splits if_splits)
qed

lemma Reg_Module_Inr:
  assumes "modulesOK (view s)" "Reg_Module B s owner name = Inr m"
  shows "Module_Owner m = owner \<and> Module_Name m = name
    \<and> Module_ID m = ModuleID (OwnerID owner) name
    \<and> vModules (view s) (Module_ID m) = Some (moduleRecordToDoc (mod_record m))"
proof -
  from assms(2) have "Meta_GetModuleByName B s owner name = Inr (mod_record m)"
    by (auto simp: Reg_Module_def split: sum.splits)
  note m = Meta_GetModuleByName_Inr [OF this]
  have "mdoc_Owner (moduleRecordToDoc (mod_record m)) = owner"
    "mdoc_Name (moduleRecordToDoc (mod_record m)) = name"
    using m by (simp_all add: moduleRecordToDoc_def)
  then show ?thesis using m modulesOKD [OF assms(1) m [THEN conjunct1]]
    by (simp add: Module_ID_def Module_Owner_def Module_Name_def)
qed

lemma Reg_Module_present:
  assumes "modulesOK (view s)" "vModules (view s) (ModuleID (OwnerID owner) name) = Some d"
    and "mdoc_Owner d = owner" "mdoc_Name d = name"
  shows "Reg_Module B s owner name = Inr \<lparr>mod_record = moduleDocToRecord d\<rparr>"
proof -
  have "Meta_GetModuleByName B s owner name = Inr (moduleDocToRecord d)"
    using assms(1) by (intro Meta_GetModuleByName_unique [OF assms(2-4)]) (metis modulesOKD)
  then show ?thesis by (simp add: Reg_Module_def)
qed

lemma Reg_Module_absent:
  assumes "vModules (view s) (ModuleID (OwnerID owner) name) = None" "modulesOK (view s)"
  shows "Reg_Module B s owner name = Inl ErrNotFound"
proof (cases "Reg_Module B s owner name")
  case (Inl e)
  then show ?thesis using Meta_GetModuleByName_Inl [of s owner name e]
    by (auto simp: Reg_Module_def split: sum.splits)
next
  case (Inr m)
  then show ?thesis using Reg_Module_Inr [OF assms(2) Inr] assms(1) by auto
qed

lemma Reg_CreateModule_ok:
  assumes "Reg_CreateModule B s owner name desc = (s', Inr m)" "modulesOK (view s)"
  shows "sameButModules (view s) (view s') \<and> modulesOK (view s')
    \<and> vOwners (view s') (OwnerID owner) \<noteq> None
    \<and> vModules (view s') = (vModules (view s))(Module_ID m \<mapsto> moduleRecordToDoc (mod_record m))
    \<and> Module_Owner m = owner \<and> Module_Name m = name \<and> Module_ID m = ModuleID (OwnerID owner) name
    \<and> (vModules (view s) (Module_ID m) = None \<longrightarrow> (\<exists>t. mod_record m = newModule owner name desc t))
    \<and> vModules (view s) \<subseteq>\<^sub>m vModules (view s')"
proof -
  obtain s1 r1 where o1: "ensureOwner B s owner = (s1, r1)" by fastforce
  then have r1: "r1 = None" using assms(1) by (cases r1) (auto simp: Reg_CreateModule_def)
  note v1 = ensureOwner_view [OF o1]
  obtain t s2 where t: "timeNow B s1 = (t, s2)" by fastforce
  let ?rec = "newModule owner name desc t"
  obtain s3 r3 where c: "Meta_CreateModule B s2 ?rec = (s3, r3)" by fastforce
  have same: "view s2 = view s1" using now_view [OF t] .
  have mods: "vModules (view s2) = vModules (view s)"
    using v1 unfolding same by (simp add: sameButOwners_def)
  have rest: "sameButModules (view s) (view s2)"
    using v1 unfolding same by (simp add: sameButModules_def sameButOwners_def)
  note v3 = Meta_CreateModule_view [OF c]
  have run: "(s', Inr m) = (case r3 of
        Some err \<Rightarrow> if err = ErrAlreadyExists then (s3, Reg_Module B s3 owner name)
                    else (s3, Inl (Wrapf ''failed to create module: '' err))
      | None \<Rightarrow> (s3, Inr \<lparr>mod_record = ?rec\<rparr>))"
    using assms(1) o1 r1 t c
    by (cases r3) (auto simp: Reg_CreateModule_def newModule_def Let_def)
  show ?thesis
  proof (cases r3)
    case None
    then have v: "view s' = (view s2)\<lparr>vModules :=
        (vModules (view s2))(module_ID ?rec \<mapsto> moduleRecordToDoc ?rec)\<rparr>"
      and m: "m = \<lparr>mod_record = ?rec\<rparr>" using run v3 by auto
    have "modulesOK (view s')"
      using assms(2) unfolding v mods
      by (auto simp: modulesOK_def newModule_def moduleRecordToDoc_def mods)
    moreover have "vOwners (view s') (OwnerID owner) \<noteq> None" using v1 r1 unfolding v same by simp
    moreover have "vModules (view s) \<subseteq>\<^sub>m vModules (view s')"
      using v3 None mods unfolding v by (auto simp: map_le_def)
    ultimately show ?thesis using rest mods unfolding v m
      by (auto simp: sameButModules_def Module_ID_def Module_Owner_def Module_Name_def newModule_def)
  next
    case (Some err)
    then have err: "err = ErrAlreadyExists" and s': "s' = s3" and m: "Reg_Module B s3 owner name = Inr m"
      using run by (auto split: if_splits)
    have v: "view s3 = view s2" using v3 Some by simp
    have ok: "modulesOK (view s3)" using assms(2) mods unfolding v by (simp add: modulesOK_def)
    show ?thesis using Reg_Module_Inr [OF ok m] ok rest mods v1 r1 unfolding s' v same
      by (auto simp: fun_upd_idem)
  qed
qed

lemma Reg_CreateModule_err:
  assumes "Reg_CreateModule B s owner name desc = (s', Inl e)"
  shows "sameButOwners (view s) (view s')"
proof -
  obtain s1 r1 where o1: "ensureOwner B s owner = (s1, r1)" by fastforce
  note v1 = ensureOwner_view [OF o1]
  obtain t s2 where t: "timeNow B s1 = (t, s2)" by fastforce
  let ?rec = "newModule owner name desc t"
  obtain s3 r3 where c: "Meta_CreateModule B s2 ?rec = (s3, r3)" by fastforce
  have "s' = (if r1 = None then s3 else s1) \<and> (r1 = None \<longrightarrow> r3 \<noteq> None)"
    using assms o1 t c
    by (auto simp: Reg_CreateModule_def newModule_def Let_def split: option.splits if_splits)
  then show ?thesis using v1 Meta_CreateModule_view [OF c] now_view [OF t] by auto
qed

lemma Reg_GetOrCreateModule_ok:
  assumes "Reg_GetOrCreateModule B s owner name = (s', Inr m)" "modulesOK (view s)"
  shows "sameButModules (view s) (view s') \<and> modulesOK (view s')
    \<and> vModules (view s') = (vModules (view s))(Module_ID m \<mapsto> moduleRecordToDoc (mod_record m))
    \<and> Module_Owner m = owner \<and> Module_Name m = name \<and> Module_ID m = ModuleID (OwnerID owner) name"
proof (cases "Reg_Module B s owner name")
  case (Inl e)
  then have "Reg_CreateModule B s owner name [] = (s', Inr m)"
    using assms(1) by (auto simp: Reg_GetOrCreateModule_def split: if_splits)
  from Reg_CreateModule_ok [OF this assms(2)] show ?thesis by blast
next
  case (Inr m')
  then have "s' = s" "m' = m" using assms(1) by (auto simp: Reg_GetOrCreateModule_def)
  then show ?thesis using Reg_Module_Inr [OF assms(2) Inr] assms(2) by (auto simp: fun_upd_idem)
qed

lemma Reg_Module_after:
  assumes "modulesOK (view s')" "vModules (view s') (ModuleID (OwnerID owner) name) =
      Some (moduleRecordToDoc (mod_record m))" "Module_Owner m = owner" "Module_Name m = name"
  shows "Reg_Module B s' owner name = Inr m"
  using Reg_Module_present [OF assms(1,2)] assms(3,4)
  by (simp add: Module_Owner_def Module_Name_def moduleRecordToDoc_def moduleDocToRecord_def)

lemma Reg_DeleteModule_ok:
  assumes "Reg_DeleteModule B s owner name = (s', None)" "modulesOK (view s)"
  shows "view s' = (view s)\<lparr>vModules := (vModules (view s))(ModuleID (OwnerID owner) name := None)\<rparr>
    \<and> vModules (view s) (ModuleID (OwnerID owner) name) \<noteq> None \<and> modulesOK (view s')"
proof -
  obtain r where r: "Meta_GetModuleByName B s owner name = Inr r"
    "Meta_DeleteModule B s (module_ID r) = (s', None)"
    using assms(1) by (auto simp: Reg_DeleteModule_def split: sum.splits)
  have "Reg_Module B s owner name = Inr \<lparr>mod_record = r\<rparr>" using r by (simp add: Reg_Module_def)
  from Reg_Module_Inr [OF assms(2) this] have "module_ID r = ModuleID (OwnerID owner) name"
    "vModules (view s) (ModuleID (OwnerID owner) name) \<noteq> None" by (auto simp: Module_ID_def)
  moreover have "view s' = (view s)\<lparr>vModules := (vModules (view s))(module_ID r := None)\<rparr>"
    using Meta_DeleteModule_view [OF r(2)] by simp
  moreover from this have "modulesOK (view s')" using assms(2)
    unfolding modulesOK_def by (auto split: if_splits)
  ultimately show ?thesis by simp
qed

lemma Reg_DeleteModule_err:
  "Reg_DeleteModule B s owner name = (s', Some e) \<Longrightarrow> view s' = view s"
  by (auto simp: Reg_DeleteModule_def dest: Meta_DeleteModule_view split: sum.splits)

end

section \<open>Properties\<close>

text \<open>
  \<open>GetOrCreateModule\<close> returns a module with the requested owner and name and the
  derived identifier; afterwards a lookup by name finds the same module, a second call returns
  it again without any change, and no other module, commit, label or blob is touched.
\<close>

theorem get_or_create_module_correct:
  assumes "backend_laws B view" and "modulesOK (view s)"
    and "Reg_GetOrCreateModule B s owner name = (s', Inr m)"
  shows "Module_Owner m = owner \<and> Module_Name m = name \<and> Module_ID m = ModuleID (OwnerID owner) name
    \<and> modulesOK (view s') \<and> Reg_Module B s' owner name = Inr m
    \<and> Reg_GetOrCreateModule B s' owner name = (s', Inr m)
    \<and> vModules (view s') = (vModules (view s))(Module_ID m \<mapsto> moduleRecordToDoc (mod_record m))
    \<and> sameButModules (view s) (view s')"
proof -
  note m = backend_laws.Reg_GetOrCreateModule_ok [OF assms(1,3,2)]
  have "Reg_Module B s' owner name = Inr m"
    using m by (intro backend_laws.Reg_Module_after [OF assms(1)]) auto
  then show ?thesis using m by (simp add: Reg_GetOrCreateModule_def)
qed

lemma mem_create:
  "\<exists>s' m. Reg_GetOrCreateModule memBackend memEmpty owner name = (s', Inr m)
     \<and> m = \<lparr>mod_record = newModule owner name [] 1\<rparr>
     \<and> m_modules s' = [moduleRecordToDoc (newModule owner name [] 1)]
     \<and> m_commits s' = [] \<and> m_labels s' = [] \<and> m_blobs s' = [] \<and> m_tick s' = 0"
  by (simp add: Reg_GetOrCreateModule_def Reg_CreateModule_def Reg_Module_def ensureOwner_def
      Meta_GetModuleByName_def Meta_GetOwner_def Meta_CreateOwner_def Meta_CreateModule_def
      memBackend_def memCollection_def memEmpty_def memFind_def memStore_def firstDoc_def
      moduleRecordToDoc_def newModule_def Let_def)

theorem get_or_create_module_correct_witness:
  "\<exists>s' m. Reg_GetOrCreateModule memBackend memEmpty ''acme'' ''pets'' = (s', Inr m)
     \<and> Reg_Module memBackend s' ''acme'' ''pets'' = Inr m"
proof -
  obtain s' m where run: "Reg_GetOrCreateModule memBackend memEmpty ''acme'' ''pets'' = (s', Inr m)"
    using mem_create by blast
  have "modulesOK (memView memEmpty)"
    by (simp add: modulesOK_def memView_def memEmpty_def memFind_def)
  from get_or_create_module_correct [OF mem.backend_laws_axioms this run] run show ?thesis by blast
qed

text \<open>
  A failing \<open>CreateModule\<close> leaves modules, commits, labels and blobs as they were (it
  may have created the owner); a failing \<open>DeleteModule\<close> changes nothing; a successful one
  removes exactly the module with the derived identifier, and a lookup then reports \<open>ErrNotFound\<close>.
\<close>

theorem delete_module_correct:
  assumes "backend_laws B view" and "modulesOK (view s)"
  shows "(case Reg_DeleteModule B s owner name of
       (s', None) \<Rightarrow>
         view s' = (view s)\<lparr>vModules := (vModules (view s))(ModuleID (OwnerID owner) name := None)\<rparr>
         \<and> vModules (view s) (ModuleID (OwnerID owner) name) \<noteq> None
         \<and> Reg_Module B s' owner name = Inl ErrNotFound \<and> modulesOK (view s')
     | (s', Some e) \<Rightarrow> view s' = view s)
   \<and> (\<forall>s' e. Reg_CreateModule B s owner name desc = (s', Inl e) \<longrightarrow> sameButOwners (view s) (view s'))"
proof -
  have "view s' = (view s)\<lparr>vModules := (vModules (view s))(ModuleID (OwnerID owner) name := None)\<rparr>
      \<and> vModules (view s) (ModuleID (OwnerID owner) name) \<noteq> None
      \<and> Reg_Module B s' owner name = Inl ErrNotFound \<and> modulesOK (view s')"
    if "Reg_DeleteModule B s owner name = (s', None)" for s'
  proof -
    note d = backend_laws.Reg_DeleteModule_ok [OF assms(1) that assms(2)]
    then have "Reg_Module B s' owner name = Inl ErrNotFound"
      by (intro backend_laws.Reg_Module_absent [OF assms(1)]) auto
    then show ?thesis using d by blast
  qed
  moreover obtain s' r where run: "Reg_DeleteModule B s owner name = (s', r)" by fastforce
  ultimately have "case r of
      None \<Rightarrow> view s' = (view s)\<lparr>vModules := (vModules (view s))(ModuleID (OwnerID owner) name := None)\<rparr>
        \<and> vModules (view s) (ModuleID (OwnerID owner) name) \<noteq> None
        \<and> Reg_Module B s' owner name = Inl ErrNotFound \<and> modulesOK (view s')
    | Some e \<Rightarrow> view s' = view s"
    using backend_laws.Reg_DeleteModule_err [OF assms(1)] by (simp only: split: option.split) blast
  then show ?thesis
    unfolding run prod.case using backend_laws.Reg_CreateModule_err [OF assms(1)] by blast
qed

theorem delete_module_correct_witness:
  "\<exists>s1 m s2. Reg_GetOrCreateModule memBackend memEmpty ''acme'' ''pets'' = (s1, Inr m)
     \<and> Reg_DeleteModule memBackend s1 ''acme'' ''pets'' = (s2, None)
     \<and> Reg_Module memBackend s2 ''acme'' ''pets'' = Inl ErrNotFound"
proof -
  obtain s1 m where run: "Reg_GetOrCreateModule memBackend memEmpty ''acme'' ''pets'' = (s1, Inr m)"
    and ms: "m_modules s1 = [moduleRecordToDoc (newModule ''acme'' ''pets'' [] 1)]"
    using mem_create by blast
  have ok: "modulesOK (memView s1)"
    using ms by (simp add: modulesOK_def memView_def memFind_def moduleRecordToDoc_def newModule_def
        split: if_splits)
  obtain s2 where "Reg_DeleteModule memBackend s1 ''acme'' ''pets'' = (s2, None)"
    using ms by (simp add: Reg_DeleteModule_def Meta_GetModuleByName_def Meta_DeleteModule_def
        memBackend_def memCollection_def memFind_def firstDoc_def matches_def ModuleDoc_field_def
        moduleRecordToDoc_def newModule_def)
  then show ?thesis
    using delete_module_correct [OF mem.backend_laws_axioms ok, of "''acme''" "''pets''"] run by auto
qed

end
