(* ===== verification/Commit_Store.thy ===== *)
theory Commit_Store
  imports Module_Commits
begin

text \<open>
  The registry's invariant and what a commit promises.  \<open>regOK\<close> says that the bucket is
  content-addressed, every stored manifest parses and all its blobs are stored, every
  commit is readable and has its manifest, every label points to a commit of its own
  module, and modules sit under their derived identifiers.  Every operation of
  \<open>Registry\<close> and \<open>Module_Commits\<close> keeps it, on success and on failure, and a created
  commit gives back its files through every label it was given.
\<close>

section \<open>The invariant\<close>

definition manifestsOK :: "(string \<Rightarrow> byte list) \<Rightarrow> store \<Rightarrow> bool" where
  "manifestsOK shake st \<longleftrightarrow>
     (\<forall>a c. vBlobs st (manifestPath (computeFilesDigest shake a)) = Some c \<longrightarrow>
        (\<exists>mf. ParseManifest c = Inr mf \<and>
           (\<forall>e \<in> set (mf_Entries mf). vBlobs st (blobKey (me_Digest e)) \<noteq> None)))"

definition commitOK :: "(string \<Rightarrow> byte list) \<Rightarrow> store \<Rightarrow> CommitDoc \<Rightarrow> bool" where
  "commitOK shake st d \<longleftrightarrow>
     (\<exists>c a. commitDocToRecord d = Inr c \<and> commit_FilesDigest c = computeFilesDigest shake a
        \<and> md_Type (commit_ModuleDigest c) = DigestTypeB5
        \<and> vBlobs st (manifestPath (computeFilesDigest shake a)) \<noteq> None)"

definition commitsOK :: "(string \<Rightarrow> byte list) \<Rightarrow> store \<Rightarrow> bool" where
  "commitsOK shake st \<longleftrightarrow>
     (\<forall>k d. vCommits st k = Some d \<longrightarrow> k \<in> vIds st \<and> cdoc_ID d = k \<and> commitOK shake st d) \<and> [] \<notin> vIds st"

definition labelsOK :: "store \<Rightarrow> bool" where
  "labelsOK st \<longleftrightarrow>
     (\<forall>k l. vLabels st k = Some l \<longrightarrow>
        (\<exists>d. vCommits st (ldoc_CommitID l) = Some d \<and> cdoc_ModuleID d = ldoc_ModuleID l))"

definition regOK :: "(string \<Rightarrow> byte list) \<Rightarrow> store \<Rightarrow> bool" where
  "regOK shake st \<longleftrightarrow>
     casOK shake st \<and> manifestsOK shake st \<and> commitsOK shake st \<and> labelsOK st \<and> modulesOK st"

lemma regOK_cong:
  assumes "regOK shake st" "vBlobs st' = vBlobs st" "vCommits st' = vCommits st"
    and "vLabels st' = vLabels st" "vIds st' = vIds st" "modulesOK st'"
  shows "regOK shake st'"
  using assms unfolding regOK_def casOK_def manifestsOK_def commitsOK_def commitOK_def labelsOK_def
  by simp

lemma regOK_addId:
  assumes "regOK shake st" "i \<noteq> []"
  shows "regOK shake (st\<lparr>vIds := insert i (vIds st)\<rparr>)"
proof -
  have "commitsOK shake (st\<lparr>vIds := insert i (vIds st)\<rparr>)"
    using assms unfolding regOK_def commitsOK_def commitOK_def by simp
  then show ?thesis using assms(1)
    unfolding regOK_def casOK_def manifestsOK_def labelsOK_def modulesOK_def by simp
qed

lemma regOK_addCommit:
  assumes "regOK shake st" "k \<in> vIds st" "cdoc_ID d = k" "commitOK shake st d" "vCommits st k = None"
  shows "regOK shake (st\<lparr>vCommits := (vCommits st)(k \<mapsto> d)\<rparr>)"
proof -
  have "commitsOK shake (st\<lparr>vCommits := (vCommits st)(k \<mapsto> d)\<rparr>)"
    using assms(1-4) unfolding regOK_def commitsOK_def commitOK_def by simp
  moreover have "labelsOK (st\<lparr>vCommits := (vCommits st)(k \<mapsto> d)\<rparr>)"
    unfolding labelsOK_def
  proof (intro allI impI)
    fix x l
    assume "vLabels (st\<lparr>vCommits := (vCommits st)(k \<mapsto> d)\<rparr>) x = Some l"
    then obtain e where e: "vCommits st (ldoc_CommitID l) = Some e" "cdoc_ModuleID e = ldoc_ModuleID l"
      using assms(1) unfolding regOK_def labelsOK_def by auto
    then have "ldoc_CommitID l \<noteq> k" using assms(5) by auto
    then show "\<exists>e. vCommits (st\<lparr>vCommits := (vCommits st)(k \<mapsto> d)\<rparr>) (ldoc_CommitID l) = Some e
        \<and> cdoc_ModuleID e = ldoc_ModuleID l" using e by simp
  qed
  ultimately show ?thesis using assms(1)
    unfolding regOK_def casOK_def manifestsOK_def modulesOK_def by simp
qed

lemma regOK_addLabel:
  assumes "regOK shake st" "vCommits st (ldoc_CommitID l) = Some d" "cdoc_ModuleID d = ldoc_ModuleID l"
  shows "regOK shake (st\<lparr>vLabels := (vLabels st)(k \<mapsto> l)\<rparr>)"
proof -
  have "labelsOK (st\<lparr>vLabels := (vLabels st)(k \<mapsto> l)\<rparr>)"
    using assms unfolding regOK_def labelsOK_def by simp
  then show ?thesis using assms(1)
    unfolding regOK_def casOK_def manifestsOK_def commitsOK_def commitOK_def modulesOK_def by simp
qed

section \<open>What an upload stores\<close>

text \<open>The paths that the manifest's line format can carry.\<close>

definition wfPath :: "string \<Rightarrow> bool" where
  "wfPath p \<longleftrightarrow> CHR 0x0A \<notin> set p \<and> (p \<noteq> [] \<longrightarrow> last p \<noteq> CHR 0x0D) \<and> length p + 139 < maxTokenSize"

definition entryOf :: "(string \<Rightarrow> byte list) \<Rightarrow> File \<Rightarrow> ManifestEntry" where
  "entryOf shake f = \<lparr>me_Digest = computeFilesDigest shake (f_Content f), me_Path = f_Path f\<rparr>"

definition manifestOf :: "(string \<Rightarrow> byte list) \<Rightarrow> File list \<Rightarrow> Manifest" where
  "manifestOf shake files = \<lparr>mf_Entries = map (entryOf shake) files\<rparr>"

fun insertFiles :: "(string \<Rightarrow> byte list) \<Rightarrow> File list \<Rightarrow> store \<Rightarrow> store" where
  "insertFiles shake [] st = st"
| "insertFiles shake (f # fs) st =
     insertFiles shake fs
       (insertBlob (blobKey (computeFilesDigest shake (f_Content f))) (f_Content f) st)"

definition insertManifest :: "(string \<Rightarrow> byte list) \<Rightarrow> Manifest \<Rightarrow> store \<Rightarrow> store" where
  "insertManifest shake mf st =
     insertBlob (manifestPath (computeFilesDigest shake (SerializeManifest mf))) (SerializeManifest mf) st"

lemma insertBlob_mono: "vBlobs st \<subseteq>\<^sub>m vBlobs (insertBlob k c st)"
  by (auto simp: insertBlob_def map_le_def)

lemma insertBlob_present: "vBlobs (insertBlob k c st) k \<noteq> None"
  by (auto simp: insertBlob_def)

lemma ran_insertBlob: "ran (vBlobs (insertBlob k c st)) \<subseteq> insert c (ran (vBlobs st))"
  by (auto simp: insertBlob_def ran_def)

lemma map_leD: "m \<subseteq>\<^sub>m m' \<Longrightarrow> m k = Some v \<Longrightarrow> m' k = Some v"
  by (metis domI map_le_def)

lemma insertFiles_frame [simp]:
  "vOwners (insertFiles shake fs st) = vOwners st" "vModules (insertFiles shake fs st) = vModules st"
  "vCommits (insertFiles shake fs st) = vCommits st" "vLabels (insertFiles shake fs st) = vLabels st"
  "vIds (insertFiles shake fs st) = vIds st"
  by (induction fs arbitrary: st) simp_all

lemma insertManifest_frame [simp]:
  "vOwners (insertManifest shake mf st) = vOwners st" "vModules (insertManifest shake mf st) = vModules st"
  "vCommits (insertManifest shake mf st) = vCommits st" "vLabels (insertManifest shake mf st) = vLabels st"
  "vIds (insertManifest shake mf st) = vIds st"
  by (simp_all add: insertManifest_def)

lemma insertFiles_mono: "vBlobs st \<subseteq>\<^sub>m vBlobs (insertFiles shake fs st)"
proof (induction fs arbitrary: st)
  case Nil
  show ?case by simp
next
  case (Cons f fs)
  show ?case unfolding insertFiles.simps by (rule map_le_trans [OF insertBlob_mono Cons.IH])
qed

lemma insertFiles_present:
  "f \<in> set fs \<Longrightarrow>
   vBlobs (insertFiles shake fs st) (blobKey (computeFilesDigest shake (f_Content f))) \<noteq> None"
proof (induction fs arbitrary: st)
  case Nil
  then show ?case by simp
next
  case (Cons g gs)
  show ?case
  proof (cases "f \<in> set gs")
    case True
    then show ?thesis using Cons.IH by simp
  next
    case False
    then have "f = g" using Cons.prems by simp
    let ?st = "insertBlob (blobKey (computeFilesDigest shake (f_Content f))) (f_Content f) st"
    obtain c where "vBlobs ?st (blobKey (computeFilesDigest shake (f_Content f))) = Some c"
      using insertBlob_present by blast
    from map_leD [OF insertFiles_mono this] show ?thesis using \<open>f = g\<close> by simp
  qed
qed

lemma ran_insertFiles:
  "ran (vBlobs (insertFiles shake fs st)) \<subseteq> f_Content ` set fs \<union> ran (vBlobs st)"
proof (induction fs arbitrary: st)
  case Nil
  show ?case by simp
next
  case (Cons f fs)
  show ?case using Cons.IH [of "insertBlob _ (f_Content f) st"] ran_insertBlob [of _ "f_Content f" st]
    by fastforce
qed

lemma wfEntry_entryOf:
  assumes "wfPath (f_Path f)" "\<And>c. length (shake c) = 64"
  shows "wfEntry (entryOf shake f)"
  using assms
  by (simp add: wfEntry_def entryOf_def wfPath_def computeFilesDigest_def DigestAlgorithmShake256_def
      entryLine_def Digest_String_def)

lemma regOK_insertBlob_cong:
  assumes ok: "regOK shake st" and cas: "casOK shake (insertBlob k c st)"
    and man: "\<And>a. manifestPath (computeFilesDigest shake a) = k \<Longrightarrow>
      \<exists>mf. ParseManifest c = Inr mf \<and> (\<forall>e \<in> set (mf_Entries mf). vBlobs st (blobKey (me_Digest e)) \<noteq> None)"
  shows "regOK shake (insertBlob k c st)"
proof -
  have mono: "vBlobs (insertBlob k c st) x \<noteq> None" if "vBlobs st x \<noteq> None" for x
    using that by (auto simp: insertBlob_def)
  have "manifestsOK shake (insertBlob k c st)"
    unfolding manifestsOK_def
  proof (intro allI impI)
    fix a c'
    assume *: "vBlobs (insertBlob k c st) (manifestPath (computeFilesDigest shake a)) = Some c'"
    have "\<exists>mf. ParseManifest c' = Inr mf \<and>
        (\<forall>e \<in> set (mf_Entries mf). vBlobs st (blobKey (me_Digest e)) \<noteq> None)"
    proof (cases "vBlobs st (manifestPath (computeFilesDigest shake a)) = Some c'")
      case True
      then show ?thesis using ok by (simp add: regOK_def manifestsOK_def)
    next
      case False
      then have "manifestPath (computeFilesDigest shake a) = k \<and> c' = c"
        using * by (auto simp: insertBlob_def split: if_splits)
      then show ?thesis using man by blast
    qed
    then show "\<exists>mf. ParseManifest c' = Inr mf \<and>
        (\<forall>e \<in> set (mf_Entries mf). vBlobs (insertBlob k c st) (blobKey (me_Digest e)) \<noteq> None)"
      using mono by blast
  qed
  moreover have "commitsOK shake (insertBlob k c st)"
    using ok mono unfolding regOK_def commitsOK_def commitOK_def by (simp del: not_None_eq) blast
  ultimately show ?thesis using ok cas unfolding regOK_def labelsOK_def modulesOK_def by simp
qed

section \<open>Every step keeps the invariant\<close>

context backend_laws
begin

lemma putFiles_ok:
  "putFiles B s fs es = (s', Inr es') \<Longrightarrow>
   view s' = insertFiles (shake256 B) fs (view s) \<and> es' = es @ map (entryOf (shake256 B)) fs"
proof (induction fs arbitrary: s es)
  case Nil
  then show ?case by simp
next
  case (Cons f fs)
  obtain s1 r where p: "Blob_Put B s (Inr (f_Content f)) = (s1, r)" by fastforce
  then obtain d where r: "r = Inr d" using Cons.prems by (cases r) auto
  note v = Blob_Put_view [OF p [unfolded r]]
  show ?case using Cons p r v by (fastforce simp: entryOf_def)
qed

lemma regOK_Blob_Put:
  assumes "Blob_Put B s (Inr c) = (s', r)" "regOK (shake256 B) (view s)"
  shows "regOK (shake256 B) (view s')"
proof (cases r)
  case (Inl e)
  then show ?thesis using Blob_Put_view [OF assms(1)] assms(2) by simp
next
  case (Inr d)
  then have v: "view s' = insertBlob (blobKey (computeFilesDigest (shake256 B) c)) c (view s)"
    using Blob_Put_view [OF assms(1)] by simp
  have "casOK (shake256 B) (view s')"
    using casOK_Blob_Put [OF assms(1)] assms(2) by (simp add: regOK_def)
  then show ?thesis using assms(2) blobKey_manifestPath [OF shake_length] unfolding v
    by (intro regOK_insertBlob_cong) (auto dest: sym)
qed

lemma regOK_putFiles:
  "putFiles B s fs es = (s', r) \<Longrightarrow> regOK (shake256 B) (view s) \<Longrightarrow> regOK (shake256 B) (view s')"
proof (induction fs arbitrary: s es)
  case Nil
  then show ?case by simp
next
  case (Cons f fs)
  obtain s1 r1 where p: "Blob_Put B s (Inr (f_Content f)) = (s1, r1)" by fastforce
  from regOK_Blob_Put [OF this Cons.prems(2)] show ?case
    using Cons.prems(1) Cons.IH p by (cases r1) auto
qed

lemma regOK_PutManifest:
  assumes "PutManifest B s mf = (s', r)" "regOK (shake256 B) (view s)"
    and wf: "\<forall>e \<in> set (mf_Entries mf). wfEntry e \<and> vBlobs (view s) (blobKey (me_Digest e)) \<noteq> None"
  shows "regOK (shake256 B) (view s')"
proof (cases r)
  case (Inl e)
  then show ?thesis using PutManifest_view [OF assms(1)] assms(2) by simp
next
  case (Inr d)
  then have v: "view s' = insertManifest (shake256 B) mf (view s)"
    using PutManifest_view [OF assms(1)] by (simp add: insertManifest_def)
  have "casOK (shake256 B) (view s')"
    using casOK_PutManifest [OF assms(1)] assms(2) by (simp add: regOK_def)
  moreover have "ParseManifest (SerializeManifest mf) = Inr \<lparr>mf_Entries = sort_key me_Path (mf_Entries mf)\<rparr>"
    using wf by (intro ParseManifest_SerializeManifest) blast
  ultimately show ?thesis using assms(2) wf unfolding v insertManifest_def
    by (intro regOK_insertBlob_cong) auto
qed

lemma updateLabel_view:
  "updateLabel B s m name cid = (s', r) \<Longrightarrow>
   (case r of
      None \<Rightarrow> view s' = (view s)\<lparr>vLabels := (vLabels (view s))
        (labelID (Module_ID m) name \<mapsto>
           \<lparr>ldoc_ID = labelID (Module_ID m) name, ldoc_ModuleID = Module_ID m, ldoc_Name = name,
            ldoc_CommitID = cid\<rparr>)\<rparr>
    | Some e \<Rightarrow> view s' = view s)"
  unfolding updateLabel_def Module_ID_def
  by (drule Meta_CreateOrUpdateLabel_view) (simp split: option.splits)

lemma regOK_updateLabels:
  "updateLabels B s m ls cid = (s', r) \<Longrightarrow> regOK (shake256 B) (view s) \<Longrightarrow>
   vCommits (view s) cid = Some d \<Longrightarrow> cdoc_ModuleID d = Module_ID m \<Longrightarrow>
   regOK (shake256 B) (view s') \<and> vCommits (view s') = vCommits (view s) \<and> vBlobs (view s') = vBlobs (view s)
   \<and> vModules (view s') = vModules (view s)"
proof (induction ls arbitrary: s)
  case Nil
  then show ?case by simp
next
  case (Cons l ls)
  obtain s1 r1 where u: "updateLabel B s m l cid = (s1, r1)" by fastforce
  note v = updateLabel_view [OF u]
  show ?case
  proof (cases r1)
    case (Some e)
    then show ?thesis using v u Cons.prems by simp
  next
    case None
    then have v1: "view s1 = (view s)\<lparr>vLabels := (vLabels (view s))(labelID (Module_ID m) l \<mapsto>
        \<lparr>ldoc_ID = labelID (Module_ID m) l, ldoc_ModuleID = Module_ID m, ldoc_Name = l,
         ldoc_CommitID = cid\<rparr>)\<rparr>" using v by simp
    have "regOK (shake256 B) (view s1)"
      unfolding v1 using Cons.prems(3,4) by (intro regOK_addLabel [OF Cons.prems(2)]) simp_all
    moreover have "vCommits (view s1) = vCommits (view s)" "vBlobs (view s1) = vBlobs (view s)"
      "vModules (view s1) = vModules (view s)" unfolding v1 by simp_all
    ultimately show ?thesis using Cons.IH [of s1] Cons.prems u None by simp
  qed
qed

lemma updateLabels_ok:
  "updateLabels B s m ls cid = (s', None) \<Longrightarrow>
   vLabels (view s') = (\<lambda>k. if k \<in> labelID (Module_ID m) ` set ls
     then Some \<lparr>ldoc_ID = k, ldoc_ModuleID = Module_ID m,
       ldoc_Name = drop (length (Module_ID m) + 1) k, ldoc_CommitID = cid\<rparr>
     else vLabels (view s) k)"
proof (induction ls arbitrary: s)
  case Nil
  then show ?case by simp
next
  case (Cons l ls)
  obtain s1 r1 where u: "updateLabel B s m l cid = (s1, r1)" by fastforce
  then have r1: "r1 = None" using Cons.prems by (cases r1) auto
  have "vLabels (view s1) = (vLabels (view s))(labelID (Module_ID m) l \<mapsto>
      \<lparr>ldoc_ID = labelID (Module_ID m) l, ldoc_ModuleID = Module_ID m, ldoc_Name = l,
       ldoc_CommitID = cid\<rparr>)"
    using updateLabel_view [OF u] r1 by simp
  moreover have "updateLabels B s1 m ls cid = (s', None)" using Cons.prems u r1 by simp
  ultimately show ?case using Cons.IH by (auto simp: labelID_def fun_eq_iff)
qed

text \<open>The document \<open>newCommit\<close> writes is readable and fresh.\<close>

lemma newCommit_view:
  assumes "newCommit B s m fd md labels url deps = (s', r)" "regOK (shake256 B) (view s)"
    and fd: "fd = computeFilesDigest (shake256 B) a"
    and md: "validModuleDigest md" "md_Type md = DigestTypeB5"
    and mf: "vBlobs (view s) (manifestPath fd) \<noteq> None"
  shows "regOK (shake256 B) (view s') \<and> vBlobs (view s') = vBlobs (view s)
    \<and> vModules (view s') = vModules (view s)
    \<and> (\<forall>k d. vCommits (view s) k = Some d \<longrightarrow> vCommits (view s') k = Some d)
    \<and> (case r of
         Inr c \<Rightarrow> c_FilesDigest c = fd \<and> c_ModuleDigest c = md \<and> c_DepCommitIDs c = deps
           \<and> c_ModuleID c = Module_ID m \<and> c_OwnerID c = Module_OwnerID m
           \<and> (\<forall>x \<in> vIds (view s). x < c_ID c) \<and> vCommits (view s) (c_ID c) = None
           \<and> (\<exists>d. vCommits (view s') = (vCommits (view s))(c_ID c \<mapsto> d)
                \<and> (\<exists>rcd. commitDocToRecord d = Inr rcd \<and> toCommit rcd = c))
           \<and> (\<exists>s2 s3. updateLabels B s2 m labels (c_ID c) = (s3, None) \<and> view s3 = view s'
                \<and> vLabels (view s2) = vLabels (view s))
       | Inl _ \<Rightarrow> True)"
proof -
  obtain u s1 where u: "uuidNewV7 B s = (u, s1)" by fastforce
  obtain t s2 where t: "timeNow B s1 = (t, s2)" by fastforce
  let ?cid = "removeDashes u"
  let ?rec = "\<lparr>commit_ID = ?cid, commit_ModuleID = Module_ID m,
      commit_OwnerID = Module_OwnerID m, commit_FilesDigest = fd,
      commit_ModuleDigest = md, commit_CreateTime = t, commit_CreatedByUserID = [],
      commit_SourceControlURL = url, commit_DepCommitIDs = deps\<rparr>"
  let ?ret = "toCommit ?rec"
  obtain s3 r3 where c: "Meta_CreateCommit B s2 ?rec = (s3, r3)" by fastforce
  note un = uuid_new [OF u]
  have v2: "view s2 = (view s)\<lparr>vIds := insert ?cid (vIds (view s))\<rparr>"
    using un now_view [OF t] by simp
  have fresh: "vCommits (view s) ?cid = None"
  proof (rule ccontr)
    assume "vCommits (view s) ?cid \<noteq> None"
    then have "?cid \<in> vIds (view s)" using assms(2) by (auto simp: regOK_def commitsOK_def)
    then show False using un by blast
  qed
  have ok2: "regOK (shake256 B) (view s2)"
    using un unfolding v2 by (intro regOK_addId [OF assms(2)]) simp
  have valid: "commitDocToRecord (commitRecordToDoc ?rec) = Inr ?rec"
    using md(1) fd by (intro commit_roundtrip)
      (simp add: validCommitRecord_def computeFilesDigest_def DigestAlgorithmShake256_def)
  have run: "(s', r) = (case r3 of
      Some err \<Rightarrow> (s3, Inl (Wrapf ''failed to create commit: '' err))
    | None \<Rightarrow> (case updateLabels B s3 m labels ?cid of
        (s4, Some err) \<Rightarrow> (s4, Inl err) | (s4, None) \<Rightarrow> (s4, Inr ?ret)))"
    using assms(1) u t c
    by (simp add: newCommit_def Let_def Module_ID_def Module_OwnerID_def toCommit_def cong: option.case_cong)
  note v3 = Meta_CreateCommit_view [OF c]
  show ?thesis
  proof (cases r3)
    case (Some e)
    then have "s' = s3" "\<exists>e'. r = Inl e'" "view s3 = view s2" using run v3 by auto
    then show ?thesis using ok2 v2 by auto
  next
    case None
    then have v: "view s3 = (view s2)\<lparr>vCommits := (vCommits (view s2))(?cid \<mapsto> commitRecordToDoc ?rec)\<rparr>"
      using v3 fresh v2 by simp
    have "commitOK (shake256 B) (view s2) (commitRecordToDoc ?rec)"
      unfolding commitOK_def valid using fd md(2) mf v2 by fastforce
    then have ok3: "regOK (shake256 B) (view s3)"
      unfolding v using fresh v2 by (intro regOK_addCommit [OF ok2]) auto
    have com: "vCommits (view s3) ?cid = Some (commitRecordToDoc ?rec)"
      "cdoc_ModuleID (commitRecordToDoc ?rec) = Module_ID m"
      unfolding v by (simp_all add: commitRecordToDoc_def)
    obtain s4 r4 where l: "updateLabels B s3 m labels ?cid = (s4, r4)" by fastforce
    note v4 = regOK_updateLabels [OF l ok3 com]
    have s': "s' = s4" and r: "(case r4 of None \<Rightarrow> r = Inr ?ret | Some e \<Rightarrow> r = Inl e)"
      using run None l by (auto split: option.splits)
    have up: "vCommits (view s') = (vCommits (view s))(?cid \<mapsto> commitRecordToDoc ?rec)"
      "vBlobs (view s') = vBlobs (view s)" "vLabels (view s3) = vLabels (view s)"
      "vModules (view s') = vModules (view s)"
      using v4 unfolding s' v v2 by simp_all
    show ?thesis
    proof (cases r4)
      case (Some e)
      then show ?thesis using r v4 s' up fresh by auto
    next
      case None
      then have "r = Inr ?ret" using r by simp
      moreover have "c_ID ?ret = ?cid" "c_FilesDigest ?ret = fd" "c_ModuleDigest ?ret = md"
        "c_DepCommitIDs ?ret = deps" "c_ModuleID ?ret = Module_ID m" "c_OwnerID ?ret = Module_OwnerID m"
        by (simp_all add: toCommit_def)
      ultimately show ?thesis using v4 s' up fresh un valid l None by auto
    qed
  qed
qed

end

section \<open>CreateCommit as a whole\<close>

text \<open>The contents after the blobs and the manifest are stored.\<close>

definition uploaded :: "(string \<Rightarrow> byte list) \<Rightarrow> File list \<Rightarrow> store \<Rightarrow> store" where
  "uploaded shake files st = insertManifest shake (manifestOf shake files) (insertFiles shake files st)"

definition filesDigestOf :: "(string \<Rightarrow> byte list) \<Rightarrow> File list \<Rightarrow> Digest" where
  "filesDigestOf shake files = computeFilesDigest shake (SerializeManifest (manifestOf shake files))"

text \<open>The labels after all of \<open>names\<close> point to commit \<open>cid\<close> in the module \<open>mid\<close>.\<close>

definition pointLabels :: "string \<Rightarrow> string list \<Rightarrow> string \<Rightarrow> (string \<rightharpoonup> LabelDoc) \<Rightarrow> (string \<rightharpoonup> LabelDoc)" where
  "pointLabels mid names cid ls = (\<lambda>k. if k \<in> labelID mid ` set names
     then Some \<lparr>ldoc_ID = k, ldoc_ModuleID = mid, ldoc_Name = drop (length mid + 1) k, ldoc_CommitID = cid\<rparr>
     else ls k)"

lemma uploaded_frame [simp]:
  "vOwners (uploaded shake fs st) = vOwners st" "vModules (uploaded shake fs st) = vModules st"
  "vCommits (uploaded shake fs st) = vCommits st" "vLabels (uploaded shake fs st) = vLabels st"
  "vIds (uploaded shake fs st) = vIds st"
  by (simp_all add: uploaded_def)

lemma uploaded_mono: "vBlobs st \<subseteq>\<^sub>m vBlobs (uploaded shake fs st)"
  unfolding uploaded_def insertManifest_def by (rule map_le_trans [OF insertFiles_mono insertBlob_mono])

lemma uploaded_manifest: "vBlobs (uploaded shake fs st) (manifestPath (filesDigestOf shake fs)) \<noteq> None"
  unfolding uploaded_def insertManifest_def filesDigestOf_def by (rule insertBlob_present)

lemma uploaded_blob:
  assumes "f \<in> set fs"
  shows "vBlobs (uploaded shake fs st) (blobKey (computeFilesDigest shake (f_Content f))) \<noteq> None"
  using insertFiles_present [OF assms, of shake st] map_leD [OF insertBlob_mono]
  unfolding uploaded_def insertManifest_def by fastforce

lemma ran_uploaded:
  "ran (vBlobs (uploaded shake fs st))
   \<subseteq> insert (SerializeManifest (manifestOf shake fs)) (f_Content ` set fs \<union> ran (vBlobs st))"
  using ran_insertFiles [of shake fs st] ran_insertBlob
  unfolding uploaded_def insertManifest_def by blast

context backend_laws
begin

lemma manifestOf_entries:
  assumes "\<forall>f \<in> set files. wfPath (f_Path f)" "e \<in> set (map (entryOf (shake256 B)) files)"
  shows "wfEntry e \<and> vBlobs (insertFiles (shake256 B) files st) (blobKey (me_Digest e)) \<noteq> None"
proof -
  obtain f where f: "f \<in> set files" "e = entryOf (shake256 B) f" using assms(2) by auto
  then have "wfEntry e" using assms(1) wfEntry_entryOf [of f "shake256 B"] shake_length by simp
  moreover have "me_Digest e = computeFilesDigest (shake256 B) (f_Content f)"
    unfolding f(2) by (simp add: entryOf_def)
  ultimately show ?thesis using insertFiles_present [OF f(1)] by metis
qed

lemma existing_commit:
  assumes "Meta_GetCommitByFilesDigest B s (filesDigestOf (shake256 B) files) = Inr c"
  shows "\<exists>d. vCommits (view s) (commit_ID c) = Some d \<and> commitDocToRecord d = Inr c
    \<and> cdoc_ModuleID d = commit_ModuleID c \<and> commit_FilesDigest c = filesDigestOf (shake256 B) files"
proof -
  obtain d where d: "vCommits (view s) (commit_ID c) = Some d" "commitDocToRecord d = Inr c"
    "cdoc_FilesDigest d = Digest_String (filesDigestOf (shake256 B) files)"
    using Meta_GetCommitByFilesDigest_Inr [OF assms] by blast
  have "ParseDigest (Digest_String (filesDigestOf (shake256 B) files)) = Inr (filesDigestOf (shake256 B) files)"
    by (rule ParseDigest_String)
      (simp add: filesDigestOf_def computeFilesDigest_def DigestAlgorithmShake256_def)
  then show ?thesis using d commitDocToRecord_fields [OF d(2)] by auto
qed

text \<open>The common prefix: blobs, manifest and module digest; the rest starts from \<open>uploaded\<close>.\<close>

lemma CreateCommit_prefix:
  assumes run: "Mod_CreateCommit B s m files labels url deps dds = (s', r)"
    and ok: "regOK (shake256 B) (view s)" and wf: "\<forall>f \<in> set files. wfPath (f_Path f)"
  shows "(\<exists>e. r = Inl e \<and> regOK (shake256 B) (view s'))
    \<or> (\<exists>s2 md. view s2 = uploaded (shake256 B) files (view s) \<and> regOK (shake256 B) (view s2)
         \<and> ComputeB5Digest (shake256 B) (manifestOf (shake256 B) files) dds = Inr md
         \<and> (newCommit B s2 m (filesDigestOf (shake256 B) files) md labels url deps = (s', r)
            \<or> (\<exists>c. Meta_GetCommitByFilesDigest B s2 (filesDigestOf (shake256 B) files) = Inr c
                 \<and> commit_ModuleID c = Module_ID m
                 \<and> (case updateLabels B s2 m labels (commit_ID c) of
                       (s3, Some err) \<Rightarrow> (s3, Inl err) | (s3, None) \<Rightarrow> (s3, Inr (toCommit c))) = (s', r))))"
proof -
  obtain s1 r1 where p: "putFiles B s files [] = (s1, r1)" by fastforce
  have ok1: "regOK (shake256 B) (view s1)" by (rule regOK_putFiles [OF p ok])
  show ?thesis
  proof (cases r1)
    case (Inl e)
    then show ?thesis using run p ok1 by (auto simp: Mod_CreateCommit_def)
  next
    case (Inr es)
    then have v1: "view s1 = insertFiles (shake256 B) files (view s)"
      and mf: "\<lparr>mf_Entries = es\<rparr> = manifestOf (shake256 B) files"
      using putFiles_ok [of s files "[]" s1 es] p by (simp_all add: manifestOf_def)
    obtain s2 r2 where q: "PutManifest B s1 (manifestOf (shake256 B) files) = (s2, r2)" by fastforce
    have ok2: "regOK (shake256 B) (view s2)"
    proof (rule regOK_PutManifest [OF q ok1], rule ballI)
      fix e
      assume "e \<in> set (mf_Entries (manifestOf (shake256 B) files))"
      then have "e \<in> set (map (entryOf (shake256 B)) files)" by (simp add: manifestOf_def)
      from manifestOf_entries [OF wf this]
      show "wfEntry e \<and> vBlobs (view s1) (blobKey (me_Digest e)) \<noteq> None" unfolding v1 .
    qed
    show ?thesis
    proof (cases r2)
      case (Inl e)
      then show ?thesis using run p Inr mf q ok2 by (auto simp: Mod_CreateCommit_def)
    next
      case r2: (Inr fd)
      then have v2: "view s2 = uploaded (shake256 B) files (view s)"
        and fd: "fd = filesDigestOf (shake256 B) files"
        using PutManifest_view [OF q] v1
        by (simp_all add: uploaded_def insertManifest_def filesDigestOf_def)
      show ?thesis
      proof (cases "ComputeB5Digest (shake256 B) (manifestOf (shake256 B) files) dds")
        case (Inl e)
        then show ?thesis using run p Inr mf q r2 ok2 by (auto simp: Mod_CreateCommit_def)
      next
        case md: (Inr md)
        show ?thesis
        proof (cases "Meta_GetCommitByFilesDigest B s2 fd")
          case (Inl e)
          then have "newCommit B s2 m fd md labels url deps = (s', r)"
            using run p Inr mf q r2 md by (simp add: Mod_CreateCommit_def)
          then show ?thesis using v2 ok2 md fd by blast
        next
          case ex: (Inr c)
          show ?thesis
          proof (cases "commit_ModuleID c = Module_ID m")
            case False
            then have "newCommit B s2 m fd md labels url deps = (s', r)"
              using run p Inr mf q r2 md ex by (simp add: Mod_CreateCommit_def Module_ID_def)
            then show ?thesis using v2 ok2 md fd by blast
          next
            case True
            then have "(case updateLabels B s2 m labels (commit_ID c) of
                (s3, Some err) \<Rightarrow> (s3, Inl err) | (s3, None) \<Rightarrow> (s3, Inr (toCommit c))) = (s', r)"
              using run p Inr mf q r2 md ex by (simp add: Mod_CreateCommit_def Module_ID_def)
            then show ?thesis using v2 ok2 md fd ex True by blast
          qed
        qed
      qed
    qed
  qed
qed

lemma CreateCommit_regOK:
  assumes run: "Mod_CreateCommit B s m files labels url deps dds = (s', r)"
    and ok: "regOK (shake256 B) (view s)" and wf: "\<forall>f \<in> set files. wfPath (f_Path f)"
  shows "regOK (shake256 B) (view s')"
  using CreateCommit_prefix [OF assms]
proof (elim disjE exE conjE)
  fix s2 md
  assume v2: "view s2 = uploaded (shake256 B) files (view s)" and ok2: "regOK (shake256 B) (view s2)"
    and md: "ComputeB5Digest (shake256 B) (manifestOf (shake256 B) files) dds = Inr md"
    and n: "newCommit B s2 m (filesDigestOf (shake256 B) files) md labels url deps = (s', r)"
  show ?thesis
    using newCommit_view [OF n ok2 filesDigestOf_def ComputeB5Digest_valid [OF md shake_length]
        ComputeB5Digest_Type [OF md]] uploaded_manifest unfolding v2 by blast
next
  fix s2 c
  assume ok2: "regOK (shake256 B) (view s2)"
    and c: "Meta_GetCommitByFilesDigest B s2 (filesDigestOf (shake256 B) files) = Inr c"
    and m: "commit_ModuleID c = Module_ID m"
    and l: "(case updateLabels B s2 m labels (commit_ID c) of
                (s3, Some err) \<Rightarrow> (s3, Inl err) | (s3, None) \<Rightarrow> (s3, Inr (toCommit c))) = (s', r)"
  obtain s3 r3 where u: "updateLabels B s2 m labels (commit_ID c) = (s3, r3)" by fastforce
  then have "s' = s3" using l by (auto split: option.splits)
  then show ?thesis using regOK_updateLabels [OF u ok2] existing_commit [OF c] m by auto
qed blast

lemma CreateCommit_ok:
  assumes run: "Mod_CreateCommit B s m files labels url deps dds = (s', Inr c)"
    and ok: "regOK (shake256 B) (view s)" and wf: "\<forall>f \<in> set files. wfPath (f_Path f)"
  shows "vBlobs (view s') = vBlobs (uploaded (shake256 B) files (view s))
    \<and> vModules (view s') = vModules (view s)
    \<and> c_FilesDigest c = filesDigestOf (shake256 B) files \<and> c_ModuleID c = Module_ID m
    \<and> vLabels (view s') = pointLabels (Module_ID m) labels (c_ID c) (vLabels (view s))
    \<and> (\<exists>d rcd. vCommits (view s') (c_ID c) = Some d \<and> commitDocToRecord d = Inr rcd \<and> toCommit rcd = c
         \<and> (vCommits (view s') = vCommits (view s) \<or>
            vCommits (view s') = (vCommits (view s))(c_ID c \<mapsto> d) \<and> (\<forall>x \<in> vIds (view s). x < c_ID c)
            \<and> c_DepCommitIDs c = deps
            \<and> ComputeB5Digest (shake256 B) (manifestOf (shake256 B) files) dds = Inr (c_ModuleDigest c)))"
  using CreateCommit_prefix [OF assms]
proof (elim disjE exE conjE)
  fix s2 md
  assume v2: "view s2 = uploaded (shake256 B) files (view s)" and ok2: "regOK (shake256 B) (view s2)"
    and md: "ComputeB5Digest (shake256 B) (manifestOf (shake256 B) files) dds = Inr md"
    and n: "newCommit B s2 m (filesDigestOf (shake256 B) files) md labels url deps = (s', Inr c)"
  note nv = newCommit_view [OF n ok2 filesDigestOf_def ComputeB5Digest_valid [OF md shake_length]
        ComputeB5Digest_Type [OF md], unfolded v2, OF uploaded_manifest]
  then obtain t3 t4 where l: "updateLabels B t3 m labels (c_ID c) = (t4, None)" "view t4 = view s'"
    "vLabels (view t3) = vLabels (view s)" by auto
  have "vLabels (view s') = pointLabels (Module_ID m) labels (c_ID c) (vLabels (view s))"
    unfolding pointLabels_def by (rule updateLabels_ok [OF l(1), unfolded l(2,3)])
  then show ?thesis using nv md by auto
next
  fix s2 e
  assume v2: "view s2 = uploaded (shake256 B) files (view s)" and ok2: "regOK (shake256 B) (view s2)"
    and e: "Meta_GetCommitByFilesDigest B s2 (filesDigestOf (shake256 B) files) = Inr e"
    and m: "commit_ModuleID e = Module_ID m"
    and l: "(case updateLabels B s2 m labels (commit_ID e) of
                (s3, Some err) \<Rightarrow> (s3, Inl err) | (s3, None) \<Rightarrow> (s3, Inr (toCommit e))) = (s', Inr c)"
  obtain s3 r3 where u: "updateLabels B s2 m labels (commit_ID e) = (s3, r3)" by fastforce
  then have s': "s' = s3" and r3: "r3 = None" and c: "c = toCommit e" using l by (auto split: option.splits)
  obtain d where d: "vCommits (view s2) (commit_ID e) = Some d" "commitDocToRecord d = Inr e"
    "cdoc_ModuleID d = commit_ModuleID e" "commit_FilesDigest e = filesDigestOf (shake256 B) files"
    using existing_commit [OF e] by blast
  note v3 = regOK_updateLabels [OF u ok2 d(1) d(3) [unfolded m]]
  have same: "vLabels (view s2) = vLabels (view s)" and cid: "c_ID c = commit_ID e"
    unfolding v2 c by (simp_all add: toCommit_def)
  have "vLabels (view s') = pointLabels (Module_ID m) labels (c_ID c) (vLabels (view s))"
    unfolding pointLabels_def cid s' by (rule updateLabels_ok [OF u [unfolded r3], unfolded same])
  then show ?thesis using v3 d m unfolding s' c v2 by (auto simp: toCommit_def)
qed blast

end

section \<open>Reading a commit back\<close>

text \<open>A file as \<open>filesForCommit\<close> returns it: with the digest of its content.\<close>

definition stamped :: "(string \<Rightarrow> byte list) \<Rightarrow> File \<Rightarrow> File" where
  "stamped shake f = \<lparr>f_Path = f_Path f, f_Content = f_Content f,
     f_Digest = computeFilesDigest shake (f_Content f)\<rparr>"

text \<open>No two of the given texts collide under the hash function.\<close>

definition collisionFree :: "(string \<Rightarrow> byte list) \<Rightarrow> File list \<Rightarrow> store \<Rightarrow> bool" where
  "collisionFree shake files st \<longleftrightarrow>
     inj_on shake (insert (SerializeManifest (manifestOf shake files)) (f_Content ` set files \<union> ran (vBlobs st)))"

lemma insort_key_map: "insort_key f (g x) (map g xs) = map g (insort_key (\<lambda>y. f (g y)) x xs)"
  by (induction xs) auto

lemma sort_key_map: "sort_key f (map g xs) = map g (sort_key (\<lambda>y. f (g y)) xs)"
  by (induction xs) (simp_all add: insort_key_map)

context backend_laws
begin

lemma readEntries_ok:
  "\<forall>f \<in> set fs. Blob_Get B s (computeFilesDigest (shake256 B) (f_Content f)) = Inr (Inr (f_Content f)) \<Longrightarrow>
   readEntries B s (map (entryOf (shake256 B)) fs) acc = Inr (acc @ map (stamped (shake256 B)) fs)"
  by (induction fs arbitrary: acc) (simp_all add: entryOf_def stamped_def)

lemma uploaded_read:
  assumes ok: "casOK (shake256 B) (view s')" and cf: "collisionFree (shake256 B) files st"
    and bl: "vBlobs (view s') = vBlobs (uploaded (shake256 B) files st)"
  shows "f \<in> set files \<Longrightarrow>
      Blob_Get B s' (computeFilesDigest (shake256 B) (f_Content f)) = Inr (Inr (f_Content f))"
    and "vBlobs (view s') (manifestPath (filesDigestOf (shake256 B) files)) =
      Some (SerializeManifest (manifestOf (shake256 B) files))"
proof -
  let ?X = "insert (SerializeManifest (manifestOf (shake256 B) files)) (f_Content ` set files \<union> ran (vBlobs st))"
  have inX: "c \<in> ?X" if "vBlobs (view s') k = Some c" for k c
    using ran_uploaded [of "shake256 B" files st] ranI [of "vBlobs (view s')" k c] that unfolding bl by blast
  have eq: "c = c0" if "c \<in> ?X" "c0 \<in> ?X" "shake256 B c = shake256 B c0" for c c0
    using cf that unfolding collisionFree_def inj_on_def by blast
  show "Blob_Get B s' (computeFilesDigest (shake256 B) (f_Content f)) = Inr (Inr (f_Content f))"
    if f: "f \<in> set files"
  proof -
    obtain c where c: "vBlobs (view s') (blobKey (computeFilesDigest (shake256 B) (f_Content f))) = Some c"
      using uploaded_blob [OF f, of "shake256 B" st] unfolding bl by blast
    then have "shake256 B (f_Content f) = shake256 B c" using ok by (simp add: casOK_def)
    then have "c = f_Content f" using eq [OF inX [OF c], of "f_Content f"] f by simp
    then show ?thesis using c by (simp add: Blob_Get_view)
  qed
  obtain c where c: "vBlobs (view s') (manifestPath (filesDigestOf (shake256 B) files)) = Some c"
    using uploaded_manifest [of "shake256 B" files st] unfolding bl by blast
  then have "shake256 B (SerializeManifest (manifestOf (shake256 B) files)) = shake256 B c"
    using ok by (simp add: casOK_def filesDigestOf_def)
  then have "c = SerializeManifest (manifestOf (shake256 B) files)"
    using eq [OF inX [OF c], of "SerializeManifest (manifestOf (shake256 B) files)"] by simp
  then show "vBlobs (view s') (manifestPath (filesDigestOf (shake256 B) files)) =
      Some (SerializeManifest (manifestOf (shake256 B) files))" using c by simp
qed

lemma filesForCommit_uploaded:
  assumes "casOK (shake256 B) (view s')" "collisionFree (shake256 B) files st"
    and "vBlobs (view s') = vBlobs (uploaded (shake256 B) files st)"
    and "\<forall>f \<in> set files. wfPath (f_Path f)" "c_FilesDigest c = filesDigestOf (shake256 B) files"
  shows "filesForCommit B s' c = Inr (map (stamped (shake256 B)) (sort_key f_Path files))"
proof -
  note r = uploaded_read [OF assms(1-3)]
  have wf: "\<forall>e \<in> set (mf_Entries (manifestOf (shake256 B) files)). wfEntry e"
    using manifestOf_entries [OF assms(4)] by (simp add: manifestOf_def)
  have so: "sort_key me_Path (map (entryOf (shake256 B)) files) = map (entryOf (shake256 B)) (sort_key f_Path files)"
    by (simp add: sort_key_map entryOf_def)
  have "GetManifest B s' (c_FilesDigest c) = Inr \<lparr>mf_Entries = map (entryOf (shake256 B)) (sort_key f_Path files)\<rparr>"
    using r(2) ParseManifest_SerializeManifest [OF wf] so
    by (simp add: GetManifest_view assms(5)) (simp add: manifestOf_def)
  moreover have "\<forall>f \<in> set (sort_key f_Path files).
      Blob_Get B s' (computeFilesDigest (shake256 B) (f_Content f)) = Inr (Inr (f_Content f))"
    using r(1) by simp
  ultimately show ?thesis by (simp add: filesForCommit_def readEntries_ok)
qed

lemma ModuleByCommitID_stored:
  assumes "vCommits (view s) cid = Some d" "commitDocToRecord d = Inr rcd" "commit_ModuleID rcd = Module_ID m"
    and "vModules (view s) (Module_ID m) = Some (moduleRecordToDoc (mod_record m))"
  shows "Reg_ModuleByCommitID B s cid = Inr m"
  using assms by (simp add: Reg_ModuleByCommitID_def Meta_GetCommit_view Reg_ModuleByID_def Meta_GetModule_view)

lemma Mod_CommitByID_stored:
  assumes "vCommits (view s) cid = Some d" "commitDocToRecord d = Inr rcd" "toCommit rcd = c"
    and "c_ModuleID c = Module_ID m"
  shows "Mod_CommitByID B s m cid = Inr c"
  using assms by (auto simp: Mod_CommitByID_def Meta_GetCommit_view Module_ID_def toCommit_def)

lemma Mod_Commit_label:
  assumes "vLabels (view s) (labelID (Module_ID m) ref) = Some l" "ref \<noteq> []"
  shows "Mod_Commit B s m ref = Mod_CommitByID B s m (ldoc_CommitID l)"
  using assms by (simp add: Mod_Commit_def Meta_GetLabel_view Module_ID_def labelDocToRecord_def)

lemma labelID_inject [simp]: "labelID mid a = labelID mid b \<longleftrightarrow> a = b"
  by (simp add: labelID_def)

lemma CreateCommit_serves:
  assumes ok: "regOK (shake256 B) (view s)" and wf: "\<forall>f \<in> set files. wfPath (f_Path f)"
    and cf: "collisionFree (shake256 B) files (view s)"
    and run: "Mod_CreateCommit B s m files labels url deps dds = (s', Inr c)"
  shows "FilesAndCommitByCommitID B s' m (c_ID c) = Inr (map (stamped (shake256 B)) (sort_key f_Path files), c)
    \<and> (\<forall>ref \<in> set labels. ref \<noteq> [] \<longrightarrow>
         FilesAndCommit B s' m ref = Inr (map (stamped (shake256 B)) (sort_key f_Path files), c))"
proof -
  note cc = CreateCommit_ok [OF run ok wf]
  have cas: "casOK (shake256 B) (view s')"
    using CreateCommit_regOK [OF run ok wf] by (simp add: regOK_def)
  have files: "filesForCommit B s' c = Inr (map (stamped (shake256 B)) (sort_key f_Path files))"
    using cc by (intro filesForCommit_uploaded [OF cas cf _ wf]) auto
  have byID: "Mod_CommitByID B s' m (c_ID c) = Inr c"
    using cc by (auto intro: Mod_CommitByID_stored)
  have "Mod_Commit B s' m ref = Inr c" if "ref \<in> set labels" "ref \<noteq> []" for ref
  proof -
    have "vLabels (view s') = pointLabels (Module_ID m) labels (c_ID c) (vLabels (view s))"
      using cc by blast
    then have "\<exists>l. vLabels (view s') (labelID (Module_ID m) ref) = Some l \<and> ldoc_CommitID l = c_ID c"
      using that(1) by (simp add: pointLabels_def)
    then obtain l where "vLabels (view s') (labelID (Module_ID m) ref) = Some l" "ldoc_CommitID l = c_ID c"
      by blast
    from Mod_Commit_label [OF this(1) that(2)] this(2) byID show ?thesis by simp
  qed
  then show ?thesis using files byID by (simp add: FilesAndCommit_def FilesAndCommitByCommitID_def)
qed

lemma readEntries_total:
  "\<forall>e \<in> set es. vBlobs (view s) (blobKey (me_Digest e)) \<noteq> None \<Longrightarrow>
   \<exists>fs. readEntries B s es acc = Inr (acc @ fs) \<and> map f_Path fs = map me_Path es
      \<and> map f_Digest fs = map me_Digest es"
proof (induction es arbitrary: acc)
  case Nil
  show ?case by simp
next
  case (Cons e es)
  then obtain c where c: "Blob_Get B s (me_Digest e) = Inr (Inr c)"
    by (auto simp: Blob_Get_view)
  let ?f = "\<lparr>f_Path = me_Path e, f_Content = c, f_Digest = me_Digest e\<rparr>"
  obtain fs where "readEntries B s es (acc @ [?f]) = Inr ((acc @ [?f]) @ fs)" "map f_Path fs = map me_Path es"
    "map f_Digest fs = map me_Digest es"
    using Cons.IH [of "acc @ [?f]"] Cons.prems by auto
  then show ?case using c by (intro exI [of _ "?f # fs"]) simp
qed

lemma stored_commit_readable:
  assumes ok: "regOK (shake256 B) (view s)" and d: "vCommits (view s) cid = Some d"
    and m: "cdoc_ModuleID d = Module_ID m"
  shows "\<exists>files c. FilesAndCommitByCommitID B s m cid = Inr (files, c) \<and> c_ID c = cid"
proof -
  have "commitOK (shake256 B) (view s) d" "cdoc_ID d = cid"
    using ok d by (auto simp: regOK_def commitsOK_def)
  then obtain rcd a mtext where r: "commitDocToRecord d = Inr rcd"
    "commit_FilesDigest rcd = computeFilesDigest (shake256 B) a"
    and mtext: "vBlobs (view s) (manifestPath (computeFilesDigest (shake256 B) a)) = Some mtext"
    unfolding commitOK_def by blast
  obtain mf where mf: "ParseManifest mtext = Inr mf"
    "\<forall>e \<in> set (mf_Entries mf). vBlobs (view s) (blobKey (me_Digest e)) \<noteq> None"
    using ok mtext unfolding regOK_def manifestsOK_def by blast
  obtain fs where "readEntries B s (mf_Entries mf) [] = Inr fs"
    using readEntries_total [OF mf(2), of "[]"] by auto
  then have "filesForCommit B s (toCommit rcd) = Inr fs"
    using r mtext mf(1) by (simp add: filesForCommit_def toCommit_def GetManifest_view)
  moreover have "c_ModuleID (toCommit rcd) = Module_ID m" "c_ID (toCommit rcd) = cid"
    using commitDocToRecord_fields [OF r(1)] m \<open>cdoc_ID d = cid\<close> by (simp_all add: toCommit_def)
  moreover from this(1) have "Mod_CommitByID B s m cid = Inr (toCommit rcd)"
    by (rule Mod_CommitByID_stored [OF d r(1) refl])
  ultimately show ?thesis by (simp add: FilesAndCommitByCommitID_def)
qed

lemma label_readable:
  assumes ok: "regOK (shake256 B) (view s)"
    and l: "vLabels (view s) (labelID (Module_ID m) ref) = Some l" "ldoc_ModuleID l = Module_ID m"
    and ref: "ref \<noteq> []"
  shows "\<exists>files c. FilesAndCommit B s m ref = Inr (files, c) \<and> c_ID c = ldoc_CommitID l"
proof -
  obtain d where d: "vCommits (view s) (ldoc_CommitID l) = Some d" "cdoc_ModuleID d = Module_ID m"
    using ok l unfolding regOK_def labelsOK_def by metis
  from stored_commit_readable [OF ok d] Mod_Commit_label [OF l(1) ref]
  show ?thesis by (auto simp: FilesAndCommit_def FilesAndCommitByCommitID_def split: sum.splits)
qed

lemma regOK_sameButModules:
  "regOK (shake256 B) (view s) \<Longrightarrow> sameButModules (view s) (view s') \<Longrightarrow> modulesOK (view s') \<Longrightarrow>
   regOK (shake256 B) (view s')"
  by (erule regOK_cong) (simp_all add: sameButModules_def)

lemma regOK_CreateModule:
  assumes "Reg_CreateModule B s owner name desc = (s', r)" "regOK (shake256 B) (view s)"
  shows "regOK (shake256 B) (view s')"
proof (cases r)
  case (Inl e)
  from Reg_CreateModule_err [OF assms(1) [unfolded Inl]] assms(2)
  show ?thesis by (intro regOK_cong [OF assms(2)]) (auto simp: sameButOwners_def regOK_def modulesOK_def)
next
  case (Inr m)
  have "modulesOK (view s)" using assms(2) by (simp add: regOK_def)
  from Reg_CreateModule_ok [OF assms(1) [unfolded Inr] this]
  show ?thesis by (intro regOK_sameButModules [OF assms(2)]) auto
qed

lemma regOK_DeleteModule:
  assumes "Reg_DeleteModule B s owner name = (s', r)" "regOK (shake256 B) (view s)"
  shows "regOK (shake256 B) (view s')"
proof (cases r)
  case None
  have "modulesOK (view s)" using assms(2) by (simp add: regOK_def)
  from Reg_DeleteModule_ok [OF assms(1) [unfolded None] this]
  show ?thesis by (intro regOK_sameButModules [OF assms(2)]) (auto simp: sameButModules_def)
next
  case (Some e)
  then show ?thesis using Reg_DeleteModule_err assms by auto
qed

end

section \<open>Reachable registries\<close>

text \<open>
  The state-changing operations the services call, with any arguments and any outcome; the
  uploaded paths fit the manifest's line format.
\<close>

inductive reg_step :: "'s backend \<Rightarrow> 's \<Rightarrow> 's \<Rightarrow> bool" for B :: "'s backend" where
  create_module: "Reg_CreateModule B s owner name desc = (s', r) \<Longrightarrow> reg_step B s s'"
| get_or_create: "Reg_GetOrCreateModule B s owner name = (s', r) \<Longrightarrow> reg_step B s s'"
| delete_module: "Reg_DeleteModule B s owner name = (s', e) \<Longrightarrow> reg_step B s s'"
| create_commit: "Mod_CreateCommit B s m files labels url deps dds = (s', r) \<Longrightarrow>
    \<forall>f \<in> set files. wfPath (f_Path f) \<Longrightarrow> reg_step B s s'"

inductive reg_reach :: "'s backend \<Rightarrow> 's \<Rightarrow> 's \<Rightarrow> bool" for B :: "'s backend" and s0 :: 's where
  start: "reg_reach B s0 s0"
| step: "reg_reach B s0 s \<Longrightarrow> reg_step B s s' \<Longrightarrow> reg_reach B s0 s'"

inductive_cases reg_stepE: "reg_step B s s'"

definition emptyStore :: "store \<Rightarrow> bool" where
  "emptyStore st \<longleftrightarrow> vBlobs st = Map.empty \<and> vOwners st = Map.empty \<and> vModules st = Map.empty
     \<and> vCommits st = Map.empty \<and> vLabels st = Map.empty \<and> [] \<notin> vIds st"

lemma regOK_empty: "emptyStore st \<Longrightarrow> regOK shake st"
  by (simp add: emptyStore_def regOK_def casOK_def manifestsOK_def commitsOK_def labelsOK_def modulesOK_def)

context backend_laws
begin

lemma regOK_step: "reg_step B s s' \<Longrightarrow> regOK (shake256 B) (view s) \<Longrightarrow> regOK (shake256 B) (view s')"
  by (elim reg_stepE)
    (auto simp: Reg_GetOrCreateModule_def split: sum.splits if_splits
      dest: regOK_CreateModule regOK_DeleteModule CreateCommit_regOK)

lemma regOK_reach: "reg_reach B s0 s \<Longrightarrow> regOK (shake256 B) (view s0) \<Longrightarrow> regOK (shake256 B) (view s)"
  by (induction rule: reg_reach.induct) (auto intro: regOK_step)

end

section \<open>The in-memory registry\<close>

text \<open>The in-memory backend never fails a write, so uploads with B5 dependencies succeed on it.\<close>

lemma mem_Blob_Put: "\<exists>s' d. Blob_Put memBackend s (Inr c) = (s', Inr d)"
  by (simp add: Blob_Put_def memBackend_def memBucket_def Let_def)

lemma mem_PutManifest: "\<exists>s' d. PutManifest memBackend s mf = (s', Inr d)"
  by (simp add: PutManifest_def memBackend_def memBucket_def Let_def)

lemma mem_putFiles: "\<exists>s' es'. putFiles memBackend s fs es = (s', Inr es')"
proof (induction fs arbitrary: s es)
  case Nil
  show ?case by simp
next
  case (Cons f fs)
  obtain s1 d where "Blob_Put memBackend s (Inr (f_Content f)) = (s1, Inr d)" using mem_Blob_Put by blast
  then show ?case using Cons.IH by simp
qed

lemma mem_updateLabels: "\<exists>s'. updateLabels memBackend s m ls cid = (s', None)"
proof (induction ls arbitrary: s)
  case Nil
  show ?case by simp
next
  case (Cons l ls)
  have "\<exists>s1. updateLabel memBackend s m l cid = (s1, None)"
    by (simp add: updateLabel_def Meta_CreateOrUpdateLabel_def memBackend_def memCollection_def)
  then show ?case using Cons.IH by auto
qed

lemma mem_newCommit: "\<exists>s' c. newCommit memBackend s m fd md ls url deps = (s', Inr c)"
proof -
  have "\<exists>s'. Meta_CreateCommit memBackend s r = (s', None)" for s r
    by (auto simp: Meta_CreateCommit_def memBackend_def memCollection_def split: option.splits)
  then obtain f where f: "Meta_CreateCommit memBackend s r = (f s r, None)" for s r by metis
  have "\<exists>s'. updateLabels memBackend s m ls cid = (s', None)" for s cid by (rule mem_updateLabels)
  then obtain g where g: "updateLabels memBackend s m ls cid = (g s cid, None)" for s cid by metis
  show ?thesis by (auto simp: newCommit_def f g Let_def split: prod.splits)
qed

lemma mem_CreateCommit:
  assumes "\<forall>d \<in> set dds. md_Type d = DigestTypeB5"
  shows "\<exists>s' c. Mod_CreateCommit memBackend s m files ls url deps dds = (s', Inr c)"
proof -
  obtain s1 es where 1: "putFiles memBackend s files [] = (s1, Inr es)" using mem_putFiles by blast
  obtain s2 fd where 2: "PutManifest memBackend s1 \<lparr>mf_Entries = es\<rparr> = (s2, Inr fd)"
    using mem_PutManifest by blast
  obtain md where 3: "ComputeB5Digest (shake256 memBackend) \<lparr>mf_Entries = es\<rparr> dds = Inr md"
    using ComputeB5Digest_B5 [OF assms] by blast
  show ?thesis
  proof (cases "Meta_GetCommitByFilesDigest memBackend s2 fd")
    case (Inl e)
    then show ?thesis using 1 2 3 mem_newCommit by (simp add: Mod_CreateCommit_def Let_def)
  next
    case (Inr c)
    obtain s3 where "updateLabels memBackend s2 m ls (commit_ID c) = (s3, None)"
      using mem_updateLabels by blast
    then show ?thesis using 1 2 3 Inr mem_newCommit by (simp add: Mod_CreateCommit_def Let_def)
  qed
qed

definition exampleModule :: Module where
  "exampleModule =
     \<lparr>mod_record = \<lparr>module_ID = ''m1'', module_OwnerID = ''o1'', module_Owner = ''acme'',
        module_Name = ''pets'', module_Description = [], module_DefaultLabelName = ''main'',
        module_CreateTime = 1, module_UpdateTime = 1\<rparr>\<rparr>"

definition exampleFiles :: "File list" where
  "exampleFiles =
     [\<lparr>f_Path = ''b.proto'', f_Content = ''y'', f_Digest = \<lparr>d_Algorithm = [], d_Value = []\<rparr>\<rparr>,
      \<lparr>f_Path = ''a.proto'', f_Content = ''x'', f_Digest = \<lparr>d_Algorithm = [], d_Value = []\<rparr>\<rparr>]"

lemma exampleFiles_wf: "\<forall>f \<in> set exampleFiles. wfPath (f_Path f)"
  by (simp add: exampleFiles_def wfPath_def maxTokenSize_def)

lemma exampleFiles_collisionFree: "collisionFree memShake exampleFiles (memView memEmpty)"
proof -
  let ?t = "SerializeManifest (manifestOf memShake exampleFiles)"
  have d: "distinct (map memShake [?t, ''y'', ''x''])" by code_simp
  have "f_Content ` set exampleFiles = {''y'', ''x''}" by (simp add: exampleFiles_def)
  moreover have "ran (vBlobs (memView memEmpty)) = {}" by (simp add: memView_def memEmpty_def)
  ultimately have "insert ?t (f_Content ` set exampleFiles \<union> ran (vBlobs (memView memEmpty))) = set [?t, ''y'', ''x'']"
    by simp
  then show ?thesis unfolding collisionFree_def using d by (metis distinct_map)
qed

lemma memEmpty_empty: "emptyStore (memView memEmpty)"
  by (simp add: emptyStore_def memView_def memEmpty_def memFind_def fun_eq_iff)

lemma shake256_mem [simp]: "shake256 memBackend = memShake"
  by (simp add: memBackend_def)

section \<open>Properties\<close>

text \<open>
  C1. What is uploaded is what is served: after \<open>CreateCommit\<close> succeeds, every label it was
  given resolves to the returned commit, and both the label and the commit ID give back
  exactly the uploaded files, sorted by path, each with the digest of its content --
  whether the commit is new or an identical earlier one was found.  (The texts involved do
  not collide under SHAKE256, and the paths fit the manifest's line format.)
\<close>

theorem create_commit_serves_files:
  assumes "backend_laws B view" and "regOK (shake256 B) (view s)"
    and "\<forall>f \<in> set files. wfPath (f_Path f)" and "collisionFree (shake256 B) files (view s)"
    and "Mod_CreateCommit B s m files labels url deps depDigests = (s', Inr c)"
  shows "FilesAndCommitByCommitID B s' m (c_ID c) = Inr (map (stamped (shake256 B)) (sort_key f_Path files), c)
    \<and> (\<forall>ref \<in> set labels. ref \<noteq> [] \<longrightarrow>
         FilesAndCommit B s' m ref = Inr (map (stamped (shake256 B)) (sort_key f_Path files), c))"
  by (rule backend_laws.CreateCommit_serves [OF assms])

theorem create_commit_serves_files_witness:
  "\<exists>s' c. Mod_CreateCommit memBackend memEmpty exampleModule exampleFiles [''main'', ''v1''] [] [] [] = (s', Inr c)
     \<and> FilesAndCommit memBackend s' exampleModule ''v1'' =
         Inr (map (stamped memShake) (sort_key f_Path exampleFiles), c)"
proof -
  obtain s' c where run: "Mod_CreateCommit memBackend memEmpty exampleModule exampleFiles
      [''main'', ''v1''] [] [] [] = (s', Inr c)"
    using mem_CreateCommit [of "[]", simplified] by blast
  have "regOK (shake256 memBackend) (memView memEmpty)" by (rule regOK_empty [OF memEmpty_empty])
  from create_commit_serves_files [OF mem.backend_laws_axioms this exampleFiles_wf _ run]
  show ?thesis using exampleFiles_collisionFree run by auto
qed

text \<open>
  C2. Every operation sequence from an empty registry -- creating and deleting modules,
  uploading commits, each call succeeding or failing at any point -- ends in a state where
  the bucket is content-addressed, all manifests parse and have their blobs, all commits
  are readable and labels point into their own module.
\<close>

theorem reachable_registry_ok:
  assumes "backend_laws B view" and "emptyStore (view s0)" and "reg_reach B s0 s"
  shows "regOK (shake256 B) (view s)"
  by (rule backend_laws.regOK_reach [OF assms(1,3) regOK_empty [OF assms(2)]])

lemma mem_reachable:
  "\<exists>s c. Mod_CreateCommit memBackend memEmpty exampleModule exampleFiles [''main''] [] [] [] = (s, Inr c)
     \<and> reg_reach memBackend memEmpty s"
proof -
  obtain s c where run: "Mod_CreateCommit memBackend memEmpty exampleModule exampleFiles
      [''main''] [] [] [] = (s, Inr c)"
    using mem_CreateCommit [of "[]", simplified] by blast
  then show ?thesis
    using reg_reach.step [OF reg_reach.start reg_step.create_commit [OF run exampleFiles_wf]] by blast
qed

theorem reachable_registry_ok_witness:
  "\<exists>s c. Mod_CreateCommit memBackend memEmpty exampleModule exampleFiles [''main''] [] [] [] = (s, Inr c)
     \<and> regOK memShake (memView s)"
  using mem_reachable reachable_registry_ok [OF mem.backend_laws_axioms memEmpty_empty] by auto

text \<open>
  C3. No label dangles: in every reachable registry, downloading by a label that exists for
  a module, or by the ID of one of its commits, succeeds and yields the commit the label
  points to.
\<close>

theorem labels_never_dangle:
  assumes "backend_laws B view" and "emptyStore (view s0)" and "reg_reach B s0 s"
  shows "(\<forall>ref l. ref \<noteq> [] \<longrightarrow> vLabels (view s) (labelID (Module_ID m) ref) = Some l \<longrightarrow>
        ldoc_ModuleID l = Module_ID m \<longrightarrow>
        (\<exists>files c. FilesAndCommit B s m ref = Inr (files, c) \<and> c_ID c = ldoc_CommitID l))
    \<and> (\<forall>cid d. vCommits (view s) cid = Some d \<longrightarrow> cdoc_ModuleID d = Module_ID m \<longrightarrow>
        (\<exists>files c. FilesAndCommitByCommitID B s m cid = Inr (files, c) \<and> c_ID c = cid))"
proof -
  have "regOK (shake256 B) (view s)"
    by (rule backend_laws.regOK_reach [OF assms(1,3) regOK_empty [OF assms(2)]])
  then show ?thesis
    using backend_laws.label_readable [OF assms(1)] backend_laws.stored_commit_readable [OF assms(1)] by blast
qed

theorem labels_never_dangle_witness:
  "\<exists>s c. Mod_CreateCommit memBackend memEmpty exampleModule exampleFiles [''main''] [] [] [] = (s, Inr c)
     \<and> (\<exists>files. FilesAndCommitByCommitID memBackend s exampleModule (c_ID c) = Inr (files, c))"
proof -
  obtain s c where run: "Mod_CreateCommit memBackend memEmpty exampleModule exampleFiles
      [''main''] [] [] [] = (s, Inr c)" and r: "reg_reach memBackend memEmpty s"
    using mem_reachable by blast
  note nd = labels_never_dangle [OF mem.backend_laws_axioms memEmpty_empty r, of exampleModule]
  note cc = mem.CreateCommit_ok [OF run regOK_empty [OF memEmpty_empty] exampleFiles_wf]
  then obtain d rcd where d: "vCommits (memView s) (c_ID c) = Some d" "commitDocToRecord d = Inr rcd"
    "toCommit rcd = c" by blast
  have m: "cdoc_ModuleID d = Module_ID exampleModule"
    using cc d(3) commitDocToRecord_fields [OF d(2)] by (auto simp: toCommit_def)
  have "\<exists>files c'. FilesAndCommitByCommitID memBackend s exampleModule (c_ID c) = Inr (files, c')"
    using nd d(1) m by blast
  moreover have "Mod_CommitByID memBackend s exampleModule (c_ID c) = Inr c"
    using cc by (intro mem.Mod_CommitByID_stored [OF d]) simp
  ultimately show ?thesis using run by (auto simp: FilesAndCommitByCommitID_def split: sum.splits)
qed

text \<open>
  C29. Frame and freshness of \<open>CreateCommit\<close>: it never changes or removes a stored commit,
  a blob, a module, or a label outside the given ones; a commit it adds has an ID above all
  earlier IDs, the dependencies it was given and the B5 digest of exactly these files and
  dependency digests.
\<close>

theorem create_commit_frame:
  assumes "backend_laws B view" and "regOK (shake256 B) (view s)"
    and "\<forall>f \<in> set files. wfPath (f_Path f)"
    and "Mod_CreateCommit B s m files labels url deps depDigests = (s', Inr c)"
  shows "vCommits (view s) \<subseteq>\<^sub>m vCommits (view s') \<and> vBlobs (view s) \<subseteq>\<^sub>m vBlobs (view s')
    \<and> vModules (view s') = vModules (view s)
    \<and> (\<forall>k. k \<notin> labelID (Module_ID m) ` set labels \<longrightarrow> vLabels (view s') k = vLabels (view s) k)
    \<and> c_FilesDigest c = filesDigestOf (shake256 B) files \<and> c_ModuleID c = Module_ID m
    \<and> (vCommits (view s) (c_ID c) = None \<longrightarrow>
         (\<forall>x \<in> dom (vCommits (view s)). x < c_ID c) \<and> c_DepCommitIDs c = deps
         \<and> ComputeB5Digest (shake256 B) (manifestOf (shake256 B) files) depDigests = Inr (c_ModuleDigest c))"
proof -
  note cc = backend_laws.CreateCommit_ok [OF assms(1,4,2,3)]
  have ids: "dom (vCommits (view s)) \<subseteq> vIds (view s)"
    using assms(2) by (auto simp: regOK_def commitsOK_def)
  have lab: "vLabels (view s') = pointLabels (Module_ID m) labels (c_ID c) (vLabels (view s))"
    and bl: "vBlobs (view s') = vBlobs (uploaded (shake256 B) files (view s))" using cc by blast+
  from cc obtain d where d: "vCommits (view s') (c_ID c) = Some d"
    "vCommits (view s') = vCommits (view s) \<or> vCommits (view s') = (vCommits (view s))(c_ID c \<mapsto> d)
       \<and> (\<forall>x \<in> vIds (view s). x < c_ID c) \<and> c_DepCommitIDs c = deps
       \<and> ComputeB5Digest (shake256 B) (manifestOf (shake256 B) files) depDigests = Inr (c_ModuleDigest c)"
    by blast
  have "vCommits (view s) \<subseteq>\<^sub>m vCommits (view s')"
  proof (cases "vCommits (view s') = vCommits (view s)")
    case False
    then have "c_ID c \<notin> dom (vCommits (view s))" using d(2) ids by blast
    then show ?thesis using d(2) False by (auto simp: map_le_def)
  qed simp
  then show ?thesis using cc d ids lab uploaded_mono unfolding bl lab
    by (auto simp: pointLabels_def)
qed

theorem create_commit_frame_witness:
  "\<exists>s' c. Mod_CreateCommit memBackend memEmpty exampleModule exampleFiles [''main''] [] [''d1''] [] = (s', Inr c)
     \<and> c_DepCommitIDs c = [''d1'']"
proof -
  obtain s' c where run: "Mod_CreateCommit memBackend memEmpty exampleModule exampleFiles
      [''main''] [] [''d1''] [] = (s', Inr c)"
    using mem_CreateCommit [of "[]", simplified] by blast
  have "regOK (shake256 memBackend) (memView memEmpty)" by (rule regOK_empty [OF memEmpty_empty])
  from create_commit_frame [OF mem.backend_laws_axioms this exampleFiles_wf run]
  show ?thesis using run memEmpty_empty by (auto simp: emptyStore_def)
qed

end
