(* ===== verification/Commit_Service.thy ===== *)
theory Commit_Service
  imports Commit_Store
begin

text \<open>
  The commit services of the API: \<open>GetCommits\<close> and \<open>ListCommits\<close> in their v1beta1 form
  (\<open>service/commit.go\<close>, \<open>utils.go\<close>) and their v1 form (\<open>service/commit_v1.go\<close>), with the
  protocol messages they read and write.  Tracing and logging have no effect on the results
  and are left out.  The lemmas compare the two versions and show what they answer on a
  registry that keeps the invariant.
\<close>

section \<open>Messages\<close>

text \<open>
  \<open>ResourceRef\<close>: a oneof that may be unset; the name may be a nil message.  Digest types
  are those of storage: v1beta1 commits carry B4, v1 commits B5; only v1 sets the time.
\<close>

datatype nameChild = NoChild | LabelName string | ChildRef string

record refName =
  rn_Owner :: string
  rn_Module :: string
  rn_Child :: nameChild

datatype resourceRef = RR_Id string | RR_Name "refName option" | RR_None

record protoCommit =
  pc_Id :: string
  pc_OwnerId :: string
  pc_ModuleId :: string
  pc_CreateTime :: "time option"
  pc_DigestType :: DigestType
  pc_Digest :: "byte list"

text \<open>The part of \<open>Service\<close> the handlers read: whether storage is configured, and the host.\<close>

record Service =
  sv_casReg :: bool
  sv_Host :: string

definition errNoCAS :: goerr where
  "errNoCAS = ConnectErr CodeUnimplemented (Some (Errorf ''CAS storage not configured''))"

definition notFoundErr :: "string \<Rightarrow> goerr" where
  "notFoundErr msg = ConnectErr CodeNotFound (Some (Errorf msg))"

section \<open>Commit objects (utils.go, graph_v1.go)\<close>

definition getCommitObject :: "string \<Rightarrow> string \<Rightarrow> string \<Rightarrow> string \<Rightarrow> protoCommit res" where
  "getCommitObject ownerID moduleID commitID filesDigestHex =
     (case DecodeString filesDigestHex of
        Inl err \<Rightarrow> Inl err
      | Inr digest \<Rightarrow>
          Inr \<lparr>pc_Id = commitID, pc_OwnerId = ownerID, pc_ModuleId = moduleID,
               pc_CreateTime = None, pc_DigestType = DigestTypeB4, pc_Digest = digest\<rparr>)"

definition getCommitObjectV1 :: "Commit \<Rightarrow> protoCommit" where
  "getCommitObjectV1 c =
     \<lparr>pc_Id = c_ID c, pc_OwnerId = c_OwnerID c, pc_ModuleId = c_ModuleID c,
      pc_CreateTime = Some (c_CreateTime c), pc_DigestType = DigestTypeB5,
      pc_Digest = md_Value (c_ModuleDigest c)\<rparr>"

text \<open>The call \<open>getCommitObject(c.OwnerID, c.ModuleID, c.ID, c.FilesDigest.Hex())\<close> of every v1beta1 handler.\<close>

definition commitObject :: "Commit \<Rightarrow> protoCommit res" where
  "commitObject c = getCommitObject (c_OwnerID c) (c_ModuleID c) (c_ID c) (Digest_Hex (c_FilesDigest c))"

lemma commitObject_ok:
  "commitObject c = Inr \<lparr>pc_Id = c_ID c, pc_OwnerId = c_OwnerID c, pc_ModuleId = c_ModuleID c,
     pc_CreateTime = None, pc_DigestType = DigestTypeB4, pc_Digest = d_Value (c_FilesDigest c)\<rparr>"
  by (simp add: commitObject_def getCommitObject_def Digest_Hex_def)

section \<open>GetCommits\<close>

definition getCommitByID :: "'s backend \<Rightarrow> 's \<Rightarrow> string \<Rightarrow> protoCommit res" where
  "getCommitByID B s commitID =
     (case Reg_ModuleByCommitID B s commitID of
        Inl _ \<Rightarrow> Inl (notFoundErr (''commit not found: '' @ commitID))
      | Inr m \<Rightarrow>
          (case Mod_CommitByID B s m commitID of
             Inl err \<Rightarrow> Inl (ConnectErr CodeInternal (Some err))
           | Inr commit \<Rightarrow> commitObject commit))"

definition getCommit :: "'s backend \<Rightarrow> 's \<Rightarrow> string \<Rightarrow> string \<Rightarrow> string \<Rightarrow> protoCommit res" where
  "getCommit B s owner modl ref =
     (case Reg_Module B s owner modl of
        Inl _ \<Rightarrow> Inl (notFoundErr (''module not found: '' @ owner @ ''/'' @ modl))
      | Inr m \<Rightarrow>
          (case Mod_Commit B s m ref of
             Inl _ \<Rightarrow> Inl (notFoundErr (''commit not found for ref: '' @ ref))
           | Inr commit \<Rightarrow>
               (case commitObject commit of
                  Inl err \<Rightarrow> Inl (ConnectErr CodeInternal (Some err))
                | Inr comt \<Rightarrow> Inr comt)))"

definition labelOrRef :: "nameChild \<Rightarrow> string" where
  "labelOrRef child = (case child of NoChild \<Rightarrow> [] | LabelName l \<Rightarrow> l | ChildRef r \<Rightarrow> r)"

text \<open>One iteration of the loop; an unset oneof leaves the commit nil, which is appended.\<close>

definition getCommitsRef :: "'s backend \<Rightarrow> 's \<Rightarrow> resourceRef \<Rightarrow> protoCommit option res" where
  "getCommitsRef B s ref =
     (case ref of
        RR_Id i \<Rightarrow> (case getCommitByID B s i of Inl err \<Rightarrow> Inl err | Inr c \<Rightarrow> Inr (Some c))
      | RR_Name None \<Rightarrow> Inl Panic
      | RR_Name (Some n) \<Rightarrow>
          (case getCommit B s (rn_Owner n) (rn_Module n) (labelOrRef (rn_Child n)) of
             Inl err \<Rightarrow> Inl err | Inr c \<Rightarrow> Inr (Some c))
      | RR_None \<Rightarrow> Inr None)"

definition Svc_GetCommits ::
  "'s backend \<Rightarrow> Service \<Rightarrow> 's \<Rightarrow> resourceRef list \<Rightarrow> protoCommit option list res" where
  "Svc_GetCommits B svc s refs =
     (if \<not> sv_casReg svc then Inl errNoCAS else mapRes (getCommitsRef B s) refs)"

definition getCommitByIDV1 :: "'s backend \<Rightarrow> 's \<Rightarrow> string \<Rightarrow> protoCommit res" where
  "getCommitByIDV1 B s commitID =
     (case Reg_ModuleByCommitID B s commitID of
        Inl _ \<Rightarrow> Inl (notFoundErr (''commit not found: '' @ commitID))
      | Inr m \<Rightarrow>
          (case Mod_CommitByID B s m commitID of
             Inl err \<Rightarrow> Inl (ConnectErr CodeInternal (Some err))
           | Inr commit \<Rightarrow> Inr (getCommitObjectV1 commit)))"

definition getCommitV1 :: "'s backend \<Rightarrow> 's \<Rightarrow> string \<Rightarrow> string \<Rightarrow> string \<Rightarrow> protoCommit res" where
  "getCommitV1 B s owner modl ref0 =
     (case Reg_Module B s owner modl of
        Inl _ \<Rightarrow> Inl (notFoundErr (''module not found: '' @ owner @ ''/'' @ modl))
      | Inr m \<Rightarrow>
          (let ref = (if ref0 = [] then ''main'' else ref0) in
           case Mod_Commit B s m ref of
             Inl _ \<Rightarrow> Inl (notFoundErr (''commit not found for ref: '' @ ref))
           | Inr commit \<Rightarrow> Inr (getCommitObjectV1 commit)))"

definition getCommitsRefV1 :: "'s backend \<Rightarrow> 's \<Rightarrow> resourceRef \<Rightarrow> protoCommit option res" where
  "getCommitsRefV1 B s ref =
     (case ref of
        RR_Id i \<Rightarrow> (case getCommitByIDV1 B s i of Inl err \<Rightarrow> Inl err | Inr c \<Rightarrow> Inr (Some c))
      | RR_Name None \<Rightarrow> Inl Panic
      | RR_Name (Some n) \<Rightarrow>
          (case getCommitV1 B s (rn_Owner n) (rn_Module n) (labelOrRef (rn_Child n)) of
             Inl err \<Rightarrow> Inl err | Inr c \<Rightarrow> Inr (Some c))
      | RR_None \<Rightarrow> Inr None)"

definition SvcV1_GetCommits ::
  "'s backend \<Rightarrow> Service \<Rightarrow> 's \<Rightarrow> resourceRef list \<Rightarrow> protoCommit option list res" where
  "SvcV1_GetCommits B svc s refs =
     (if \<not> sv_casReg svc then Inl errNoCAS else mapRes (getCommitsRefV1 B s) refs)"

section \<open>ListCommits\<close>

text \<open>
  The page size is the generated message's field converted to \<open>int\<close>.  \<open>ResourceRef\<close> itself
  may be nil, which panics.
\<close>

definition listTarget :: "resourceRef option \<Rightarrow> (string \<times> string) res" where
  "listTarget ref =
     (case ref of
        None \<Rightarrow> Inl Panic
      | Some (RR_Name (Some n)) \<Rightarrow> Inr (rn_Owner n, rn_Module n)
      | Some (RR_Name None) \<Rightarrow> Inl Panic
      | Some _ \<Rightarrow> Inl (ConnectErr CodeInvalidArgument
          (Some (Errorf ''only ResourceRef_Name is supported for ListCommits''))))"

definition Svc_ListCommits ::
  "'s backend \<Rightarrow> Service \<Rightarrow> 's \<Rightarrow> resourceRef option \<Rightarrow> int \<Rightarrow> string \<Rightarrow> (protoCommit list \<times> string) res" where
  "Svc_ListCommits B svc s ref pageSize0 pageToken =
     (if \<not> sv_casReg svc then Inl errNoCAS
      else case listTarget ref of
        Inl err \<Rightarrow> Inl err
      | Inr (owner, modl) \<Rightarrow>
          (case Reg_Module B s owner modl of
             Inl err \<Rightarrow> Inl (ConnectErr CodeNotFound (Some err))
           | Inr m \<Rightarrow>
               (let pageSize = (if pageSize0 \<le> 0 then 100 else pageSize0) in
                case Mod_ListCommits B s m pageSize pageToken of
                  Inl err \<Rightarrow> Inl (ConnectErr CodeInternal (Some err))
                | Inr (commits, nextToken) \<Rightarrow>
                    (case mapRes commitObject commits of
                       Inl err \<Rightarrow> Inl (ConnectErr CodeInternal (Some err))
                     | Inr cs \<Rightarrow> Inr (cs, nextToken)))))"

definition SvcV1_ListCommits ::
  "'s backend \<Rightarrow> Service \<Rightarrow> 's \<Rightarrow> resourceRef option \<Rightarrow> int \<Rightarrow> string \<Rightarrow> (protoCommit list \<times> string) res" where
  "SvcV1_ListCommits B svc s ref pageSize0 pageToken =
     (if \<not> sv_casReg svc then Inl errNoCAS
      else case listTarget ref of
        Inl err \<Rightarrow> Inl err
      | Inr (owner, modl) \<Rightarrow>
          (case Reg_Module B s owner modl of
             Inl err \<Rightarrow> Inl (ConnectErr CodeNotFound (Some err))
           | Inr m \<Rightarrow>
               (let pageSize = (if pageSize0 \<le> 0 then 100 else pageSize0) in
                case Mod_ListCommits B s m pageSize pageToken of
                  Inl err \<Rightarrow> Inl (ConnectErr CodeInternal (Some err))
                | Inr (commits, nextToken) \<Rightarrow> Inr (map getCommitObjectV1 commits, nextToken))))"

section \<open>Named references with a child (graph.go, graph_v1.go, download_v1.go)\<close>

text \<open>
  The switch over \<open>name.Child\<close> that three handlers repeat: a label, a commit ID or else a
  label, or the label \<open>main\<close>.
\<close>

definition resolveChild :: "'s backend \<Rightarrow> 's \<Rightarrow> Module \<Rightarrow> nameChild \<Rightarrow> Commit res" where
  "resolveChild B s m child =
     (case child of
        LabelName l \<Rightarrow>
          (case Mod_Commit B s m l of
             Inl _ \<Rightarrow> Inl (notFoundErr (''label not found: '' @ l)) | Inr c \<Rightarrow> Inr c)
      | ChildRef r \<Rightarrow>
          (case Mod_CommitByID B s m r of
             Inr c \<Rightarrow> Inr c
           | Inl _ \<Rightarrow>
               (case Mod_Commit B s m r of
                  Inl _ \<Rightarrow> Inl (notFoundErr (''ref not found: '' @ r)) | Inr c \<Rightarrow> Inr c))
      | NoChild \<Rightarrow>
          (case Mod_Commit B s m ''main'' of
             Inl _ \<Rightarrow> Inl (notFoundErr ''default label 'main' not found'') | Inr c \<Rightarrow> Inr c))"

section \<open>The default label\<close>

text \<open>
  Without a reference the v1beta1 service reads the default label of the module's record, the v1
  service the label \<open>main\<close>.  Every module of a reachable registry has the default label \<open>main\<close>.
\<close>

definition defaultsMain :: "store \<Rightarrow> bool" where
  "defaultsMain st \<longleftrightarrow> (\<forall>d \<in> ran (vModules st). mdoc_DefaultLabelName d = ''main'')"

lemma defaultsMain_le: "vModules st' \<subseteq>\<^sub>m vModules st \<Longrightarrow> defaultsMain st \<Longrightarrow> defaultsMain st'"
  by (force simp: defaultsMain_def map_le_def ran_def dom_def)

lemma defaultsMain_eq: "vModules st' = vModules st \<Longrightarrow> defaultsMain st \<Longrightarrow> defaultsMain st'"
  by (simp add: defaultsMain_def)

context backend_laws
begin

text \<open>Whatever its outcome, \<open>CreateCommit\<close> leaves the modules alone.\<close>

lemma putFiles_modules: "putFiles B s files es = (s', r) \<Longrightarrow> vModules (view s') = vModules (view s)"
proof (induction files arbitrary: s es)
  case Nil
  then show ?case by simp
next
  case (Cons f files)
  obtain s1 r1 where p: "Blob_Put B s (Inr (f_Content f)) = (s1, r1)" by fastforce
  have "vModules (view s1) = vModules (view s)" using Blob_Put_view [OF p] by (cases r1) auto
  then show ?case using Cons p by (cases r1) auto
qed

lemma PutManifest_modules: "PutManifest B s mf = (s', r) \<Longrightarrow> vModules (view s') = vModules (view s)"
  by (drule PutManifest_view) (auto simp: insertManifest_def split: sum.splits)

lemma updateLabels_modules: "updateLabels B s m ls cid = (s', r) \<Longrightarrow> vModules (view s') = vModules (view s)"
proof (induction ls arbitrary: s)
  case Nil
  then show ?case by simp
next
  case (Cons l ls)
  obtain s1 r1 where u: "updateLabel B s m l cid = (s1, r1)" by fastforce
  have "vModules (view s1) = vModules (view s)" using updateLabel_view [OF u] by (cases r1) auto
  then show ?case using Cons u by (cases r1) auto
qed

lemma Meta_CreateCommit_modules: "Meta_CreateCommit B s c = (s', r) \<Longrightarrow> vModules (view s') = vModules (view s)"
  by (drule Meta_CreateCommit_view) (auto split: option.splits if_splits)

lemma newCommit_modules:
  assumes "newCommit B s m fd md ls url deps = (s', r)"
  shows "vModules (view s') = vModules (view s)"
proof -
  obtain u s1 where u: "uuidNewV7 B s = (u, s1)" by fastforce
  obtain t s2 where t: "timeNow B s1 = (t, s2)" by fastforce
  have 2: "vModules (view s2) = vModules (view s)"
    using now_view [OF t] uuid_new [OF u] by simp
  show ?thesis using assms
    by (auto simp: newCommit_def u t Let_def 2 [symmetric] split: prod.splits option.splits
      dest!: updateLabels_modules Meta_CreateCommit_modules)
qed

lemma CreateCommit_modules:
  "Mod_CreateCommit B s m files ls url deps dds = (s', r) \<Longrightarrow> vModules (view s') = vModules (view s)"
  by (auto simp: Mod_CreateCommit_def Let_def split: prod.splits sum.splits option.splits if_splits
    dest!: putFiles_modules PutManifest_modules updateLabels_modules newCommit_modules)

lemma defaultsMain_create:
  assumes "Reg_CreateModule B s owner name desc = (s', r)" "modulesOK (view s)" "defaultsMain (view s)"
  shows "defaultsMain (view s')"
proof (cases r)
  case (Inl e)
  then show ?thesis
    using Reg_CreateModule_err assms by (blast intro: defaultsMain_eq dest: sameButOwners_def [THEN iffD1])
next
  case (Inr m)
  note ok = Reg_CreateModule_ok [OF assms(1) [unfolded Inr] assms(2)]
  then have mods: "vModules (view s') = (vModules (view s))(Module_ID m \<mapsto> moduleRecordToDoc (mod_record m))" by blast
  have "mdoc_DefaultLabelName (moduleRecordToDoc (mod_record m)) = ''main''"
  proof (cases "vModules (view s) (Module_ID m)")
    case None
    then show ?thesis using ok by (auto simp: newModule_def moduleRecordToDoc_def)
  next
    case (Some d)
    then have "vModules (view s') (Module_ID m) = Some d" using ok by (metis domI map_le_def)
    then show ?thesis using Some assms(3) mods by (auto simp: defaultsMain_def ran_def)
  qed
  then show ?thesis using assms(3) unfolding mods defaultsMain_def by (auto simp: ran_def)
qed

lemma defaultsMain_step:
  assumes "reg_step B s s'" "modulesOK (view s)" "defaultsMain (view s)"
  shows "defaultsMain (view s')"
  using assms(1)
proof (cases rule: reg_step.cases)
  case (create_module owner name desc r)
  then show ?thesis using defaultsMain_create assms(2,3) by blast
next
  case (get_or_create owner name r)
  then show ?thesis using defaultsMain_create assms(2,3)
    by (auto simp: Reg_GetOrCreateModule_def split: sum.splits if_splits)
next
  case (delete_module owner name e)
  then show ?thesis using Reg_DeleteModule_ok Reg_DeleteModule_err assms(2,3)
    by (cases e) (fastforce simp: defaultsMain_def ran_def)+
next
  case (create_commit m files labels url deps dds r)
  then show ?thesis using CreateCommit_modules assms(3) by (blast intro: defaultsMain_eq)
qed

lemma defaultsMain_reach:
  assumes "reg_reach B s0 s" "emptyStore (view s0)"
  shows "defaultsMain (view s)"
  using assms(1)
proof (induction rule: reg_reach.induct)
  case start
  then show ?case using assms(2) by (simp add: emptyStore_def defaultsMain_def)
next
  case (step s s')
  then show ?case using defaultsMain_step regOK_reach [OF _ regOK_empty [OF assms(2)]]
    by (auto simp: regOK_def)
qed

lemma Reg_Module_default:
  assumes "Reg_Module B s owner name = Inr m" "modulesOK (view s)" "defaultsMain (view s)"
  shows "module_DefaultLabelName (mod_record m) = ''main''"
  using Reg_Module_Inr [OF assms(2,1)] assms(3)
  by (auto simp: defaultsMain_def ran_def moduleRecordToDoc_def)

end

section \<open>The two versions agree\<close>

text \<open>The same commit in both versions: identifiers agree, the digest types are B4 and B5.\<close>

definition sameCommit :: "protoCommit \<Rightarrow> protoCommit \<Rightarrow> bool" where
  "sameCommit b a \<longleftrightarrow> pc_Id b = pc_Id a \<and> pc_OwnerId b = pc_OwnerId a \<and> pc_ModuleId b = pc_ModuleId a
     \<and> pc_DigestType b = DigestTypeB4 \<and> pc_DigestType a = DigestTypeB5"

lemma sameCommit_objects:
  "commitObject c = Inr x \<Longrightarrow> sameCommit x (getCommitObjectV1 c)"
  by (auto simp: commitObject_ok sameCommit_def getCommitObjectV1_def)

lemma getCommitByID_agree: "rel_sum (=) sameCommit (getCommitByID B s i) (getCommitByIDV1 B s i)"
  by (auto simp: getCommitByID_def getCommitByIDV1_def commitObject_ok sameCommit_def
      getCommitObjectV1_def split: sum.split)

text \<open>
  The same error, but for the text of one: when a module is asked for without a reference and has no
  default label, the message of the v1 service names \<open>main\<close> and that of the v1beta1 service nothing.
\<close>

definition sameError :: "goerr \<Rightarrow> goerr \<Rightarrow> bool" where
  "sameError e f \<longleftrightarrow> f = e \<or>
     e = notFoundErr ''commit not found for ref: '' \<and> f = notFoundErr ''commit not found for ref: main''"

lemma sameError_refl [simp]: "sameError e e"
  by (simp add: sameError_def)

lemma rel_sum_sameError: "rel_sum (=) R x y \<Longrightarrow> rel_sum sameError R x y"
  by (erule rel_sum.cases) auto

lemma mapRes_rel:
  "(\<And>x. x \<in> set xs \<Longrightarrow> rel_sum E R (f x) (g x)) \<Longrightarrow>
   rel_sum E (list_all2 R) (mapRes f xs) (mapRes g xs)"
proof (induction xs)
  case Nil
  show ?case by simp
next
  case (Cons x xs)
  have "rel_sum E (list_all2 R) (mapRes f xs) (mapRes g xs)" "rel_sum E R (f x) (g x)"
    using Cons by auto
  then show ?case by (auto split: sum.splits)
qed

lemma mapRes_commitObject:
  "\<exists>cs. mapRes commitObject xs = Inr cs \<and> list_all2 sameCommit cs (map getCommitObjectV1 xs)"
proof (induction xs)
  case Nil
  show ?case by simp
next
  case (Cons x xs)
  then obtain cs where "mapRes commitObject xs = Inr cs" "list_all2 sameCommit cs (map getCommitObjectV1 xs)"
    by blast
  moreover have "sameCommit y (getCommitObjectV1 x)" if "commitObject x = Inr y" for y
    using that by (rule sameCommit_objects)
  ultimately show ?case using commitObject_ok [of x] by (auto split: sum.split)
qed

context backend_laws
begin

lemma getCommit_agree:
  assumes "modulesOK (view s)" "defaultsMain (view s)"
  shows "rel_sum sameError sameCommit (getCommit B s owner modl ref) (getCommitV1 B s owner modl ref)"
proof (cases "Reg_Module B s owner modl")
  case (Inl e)
  then show ?thesis by (simp add: getCommit_def getCommitV1_def)
next
  case (Inr m)
  have "Mod_Commit B s m [] = Mod_Commit B s m ''main''"
    using Reg_Module_default [OF Inr assms] by (simp add: Mod_Commit_def)
  then show ?thesis
    by (auto simp: getCommit_def getCommitV1_def Inr Let_def commitObject_ok sameCommit_def sameError_def
        getCommitObjectV1_def split: sum.split)
qed

lemma getCommitsRef_agree:
  assumes "modulesOK (view s)" "defaultsMain (view s)"
  shows "rel_sum sameError (rel_option sameCommit) (getCommitsRef B s ref) (getCommitsRefV1 B s ref)"
proof (cases ref)
  case (RR_Id i)
  show ?thesis using getCommitByID_agree [of B s i]
    by (auto simp: RR_Id getCommitsRef_def getCommitsRefV1_def rel_sum.simps split: sum.splits)
next
  case (RR_Name n)
  show ?thesis
  proof (cases n)
    case None
    then show ?thesis by (simp add: RR_Name getCommitsRef_def getCommitsRefV1_def)
  next
    case (Some nm)
    from getCommit_agree [OF assms, of "rn_Owner nm" "rn_Module nm" "labelOrRef (rn_Child nm)"] show ?thesis
      by (auto simp: RR_Name Some getCommitsRef_def getCommitsRefV1_def rel_sum.simps split: sum.splits)
  qed
next
  case RR_None
  then show ?thesis by (simp add: getCommitsRef_def getCommitsRefV1_def)
qed

lemma GetCommits_agree:
  assumes "modulesOK (view s)" "defaultsMain (view s)"
  shows "rel_sum sameError (list_all2 (rel_option sameCommit)) (Svc_GetCommits B svc s refs) (SvcV1_GetCommits B svc s refs)"
  by (auto simp: Svc_GetCommits_def SvcV1_GetCommits_def intro!: mapRes_rel getCommitsRef_agree [OF assms])

end

lemma ListCommits_agree:
  "rel_sum (=) (rel_prod (list_all2 sameCommit) (=))
    (Svc_ListCommits B svc s ref pageSize pageToken) (SvcV1_ListCommits B svc s ref pageSize pageToken)"
proof -
  have "rel_sum (=) (rel_prod (list_all2 sameCommit) (=))
      (case mapRes commitObject commits of
         Inl err \<Rightarrow> Inl (ConnectErr CodeInternal (Some err)) | Inr cs \<Rightarrow> Inr (cs, tok))
      (Inr (map getCommitObjectV1 commits, tok))" for commits and tok :: string
    using mapRes_commitObject [of commits] by auto
  then show ?thesis
    by (auto simp: Svc_ListCommits_def SvcV1_ListCommits_def Let_def split: sum.split)
qed

section \<open>Property\<close>

text \<open>
  C36. The v1beta1 and v1 commit services answer alike on every registry that the operations can
  build: whatever the request, also one that names a module without a label or reference,
  \<open>GetCommits\<close> in both versions returns the same commits in the same order (B4 digests in one, B5 in the other) or fails
  with the same first error, whose text differs only for a module without reference whose default label
  does not exist; and \<open>ListCommits\<close> returns the same page and next token or the same error.
\<close>

theorem commit_versions_agree:
  assumes "backend_laws B view" and "emptyStore (view s0)" and "reg_reach B s0 s"
  shows "rel_sum sameError (list_all2 (rel_option sameCommit)) (Svc_GetCommits B svc s refs) (SvcV1_GetCommits B svc s refs)
    \<and> rel_sum (=) (rel_prod (list_all2 sameCommit) (=))
        (Svc_ListCommits B svc s ref pageSize pageToken) (SvcV1_ListCommits B svc s ref pageSize pageToken)"
proof -
  have "regOK (shake256 B) (view s)"
    by (rule backend_laws.regOK_reach [OF assms(1,3) regOK_empty [OF assms(2)]])
  then have "modulesOK (view s)" by (simp add: regOK_def)
  from backend_laws.GetCommits_agree [OF assms(1) this backend_laws.defaultsMain_reach [OF assms(1,3,2)]]
  show ?thesis by (intro conjI ListCommits_agree)
qed

text \<open>A registry with one uploaded commit, asked for its module without a reference.\<close>

lemma mem_uploaded:
  "\<exists>s m c. reg_reach memBackend memEmpty s \<and> Reg_Module memBackend s ''acme'' ''pets'' = Inr m \<and>
     Mod_Commit memBackend s m ''main'' = Inr c"
proof -
  obtain s1 m where g: "Reg_GetOrCreateModule memBackend memEmpty ''acme'' ''pets'' = (s1, Inr m)"
    using mem_create by blast
  have r1: "reg_reach memBackend memEmpty s1" by (rule reg_reach.step [OF reg_reach.start reg_step.get_or_create [OF g]])
  have ok0: "regOK memShake (memView memEmpty)" by (rule regOK_empty [OF memEmpty_empty])
  then have m0: "modulesOK (memView memEmpty)" by (simp add: regOK_def)
  have ok1: "regOK (shake256 memBackend) (memView s1)"
    using mem.regOK_reach [OF r1] ok0 by simp
  obtain s2 c where run: "Mod_CreateCommit memBackend s1 m exampleFiles [''main''] [] [] [] = (s2, Inr c)"
    using mem_CreateCommit [of "[]", simplified] by blast
  have r2: "reg_reach memBackend memEmpty s2"
    by (rule reg_reach.step [OF r1 reg_step.create_commit [OF run exampleFiles_wf]])
  note gm = mem.Reg_GetOrCreateModule_ok [OF g m0]
  note cc = mem.CreateCommit_ok [OF run ok1 exampleFiles_wf]
  have "vModules (memView s2) (ModuleID (OwnerID ''acme'') ''pets'') = Some (moduleRecordToDoc (mod_record m))"
    using gm cc by simp
  moreover have "modulesOK (memView s2)"
    using mem.regOK_reach [OF r2] ok0 by (simp add: regOK_def)
  ultimately have look: "Reg_Module memBackend s2 ''acme'' ''pets'' = Inr m"
    using gm by (intro mem.Reg_Module_after) auto
  have "\<exists>l. vLabels (memView s2) (labelID (Module_ID m) ''main'') = Some l \<and> ldoc_CommitID l = c_ID c"
    using cc by (simp add: pointLabels_def)
  then have "Mod_Commit memBackend s2 m ''main'' = Mod_CommitByID memBackend s2 m (c_ID c)"
    using mem.Mod_Commit_label by fastforce
  also have "\<dots> = Inr c" using cc by (auto intro: mem.Mod_CommitByID_stored)
  finally show ?thesis using r2 look by blast
qed

theorem commit_versions_agree_witness:
  "\<exists>s x y. reg_reach memBackend memEmpty s \<and> sameCommit x y \<and>
     Svc_GetCommits memBackend \<lparr>sv_casReg = True, sv_Host = ''h''\<rparr> s
       [RR_Name (Some \<lparr>rn_Owner = ''acme'', rn_Module = ''pets'', rn_Child = NoChild\<rparr>)] = Inr [Some x] \<and>
     SvcV1_GetCommits memBackend \<lparr>sv_casReg = True, sv_Host = ''h''\<rparr> s
       [RR_Name (Some \<lparr>rn_Owner = ''acme'', rn_Module = ''pets'', rn_Child = NoChild\<rparr>)] = Inr [Some y]"
proof -
  let ?svc = "\<lparr>sv_casReg = True, sv_Host = ''h''\<rparr>"
  let ?refs = "[RR_Name (Some \<lparr>rn_Owner = ''acme'', rn_Module = ''pets'', rn_Child = NoChild\<rparr>)]"
  obtain s m c where s: "reg_reach memBackend memEmpty s" "Reg_Module memBackend s ''acme'' ''pets'' = Inr m"
    "Mod_Commit memBackend s m ''main'' = Inr c"
    using mem_uploaded by blast
  have y: "SvcV1_GetCommits memBackend ?svc s ?refs = Inr [Some (getCommitObjectV1 c)]"
    using s by (simp add: SvcV1_GetCommits_def getCommitsRefV1_def getCommitV1_def labelOrRef_def)
  have "rel_sum sameError (list_all2 (rel_option sameCommit)) (Svc_GetCommits memBackend ?svc s ?refs)
      (Inr [Some (getCommitObjectV1 c)])"
    using commit_versions_agree [OF mem.backend_laws_axioms memEmpty_empty s(1), of ?svc ?refs] unfolding y by blast
  then obtain x where "Svc_GetCommits memBackend ?svc s ?refs = Inr [Some x]" "sameCommit x (getCommitObjectV1 c)"
    by (auto simp: rel_sum.simps list_all2_Cons2 option_rel_Some2)
  then show ?thesis using s(1) y by blast
qed

end
