(* ===== verification/Graph_Service.thy ===== *)
theory Graph_Service
  imports Commit_Service
begin

text \<open>
  The dependency graph services: v1beta1 (\<open>service/graph.go\<close>) and v1
  (\<open>service/graph_v1.go\<close>).  Both walk the stored dependencies depth first, keep one commit
  per module in a map keyed by \<open>owner/name\<close>, prefer the greater (newer) commit ID on a
  conflict and redirect the edges to it.  The recursion of the code has no bound of its
  own; the model takes fuel, and a walk that runs out of it is \<open>None\<close>.  The walk is written
  once, over a record of the operations in which the versions differ; the locale
  \<open>dep_walk\<close> states what it relies on, and both versions interpret it.
\<close>

section \<open>Messages and state\<close>

record moduleInfo =
  mi_Owner :: string
  mi_Name :: string

record bufLockDep =
  bd_Remote :: string
  bd_Owner :: string
  bd_Repository :: string
  bd_Commit :: string
  bd_Digest :: string

record graphNode =
  gn_CommitId :: string
  gn_Registry :: string

record graphEdge =
  ge_FromNode :: graphNode
  ge_ToNode :: graphNode

record graphCommit =
  gc_Commit :: protoCommit
  gc_Registry :: string

record graph =
  gr_Commits :: "graphCommit list"
  gr_Edges :: "graphEdge list"

record graphV1 =
  g1_Commits :: "protoCommit list"
  g1_Edges :: "(string \<times> string) list"

type_synonym commitMap = "string \<rightharpoonup> protoCommit"

definition moduleKey :: "string \<Rightarrow> string \<Rightarrow> string" where
  "moduleKey owner name = owner @ ''/'' @ name"

definition depKey :: "bufLockDep \<Rightarrow> string" where
  "depKey dep = moduleKey (bd_Owner dep) (bd_Repository dep)"

definition depInfo :: "bufLockDep \<Rightarrow> moduleInfo" where
  "depInfo dep = \<lparr>mi_Owner = bd_Owner dep, mi_Name = bd_Repository dep\<rparr>"

section \<open>Stored dependencies\<close>

text \<open>The loop over \<open>commit.DepCommitIDs\<close>: a dependency that is not found is skipped.\<close>

fun storedDepLoop ::
  "'s backend \<Rightarrow> 's \<Rightarrow> string \<Rightarrow> string list \<Rightarrow> bufLockDep list \<Rightarrow> bufLockDep list" where
  "storedDepLoop B s host [] deps = deps"
| "storedDepLoop B s host (depCommitID # rest) deps =
     (case Reg_ModuleByCommitID B s depCommitID of
        Inl _ \<Rightarrow> storedDepLoop B s host rest deps
      | Inr depMod \<Rightarrow>
          (case Mod_CommitByID B s depMod depCommitID of
             Inl _ \<Rightarrow> storedDepLoop B s host rest deps
           | Inr depCommit \<Rightarrow>
               storedDepLoop B s host rest
                 (deps @ [\<lparr>bd_Remote = host, bd_Owner = Module_Owner depMod,
                           bd_Repository = Module_Name depMod, bd_Commit = depCommitID,
                           bd_Digest = ''shake256:'' @ Digest_Hex (c_FilesDigest depCommit)\<rparr>])))"

definition getStoredDeps ::
  "'s backend \<Rightarrow> 's \<Rightarrow> string \<Rightarrow> moduleInfo \<Rightarrow> string \<Rightarrow> bufLockDep list res" where
  "getStoredDeps B s host info commitID =
     (case Reg_Module B s (mi_Owner info) (mi_Name info) of
        Inl _ \<Rightarrow> Inl (notFoundErr (''module not found: '' @ mi_Owner info @ ''/'' @ mi_Name info))
      | Inr m \<Rightarrow>
          (case Mod_CommitByID B s m commitID of
             Inl _ \<Rightarrow> Inl (notFoundErr (''commit not found: '' @ commitID))
           | Inr commit \<Rightarrow> Inr (storedDepLoop B s host (c_DepCommitIDs commit) [])))"

section \<open>The walk\<close>

text \<open>
  What the two versions supply: the dependencies of a commit, the commit object of a
  dependency, the test whether its module was seen, and the updates of commit map and
  graph (everything in the loop body before the recursive call).
\<close>

record 'st walker =
  w_host :: string
  w_deps :: "moduleInfo \<Rightarrow> string \<Rightarrow> bufLockDep list res"
  w_commit :: "bufLockDep \<Rightarrow> protoCommit res"
  w_seen :: "string \<Rightarrow> 'st \<Rightarrow> bool"
  w_visit :: "string \<Rightarrow> bufLockDep \<Rightarrow> protoCommit \<Rightarrow> 'st \<Rightarrow> 'st"

function (sequential)
  depWalk :: "'st walker \<Rightarrow> nat \<Rightarrow> moduleInfo \<Rightarrow> string \<Rightarrow> 'st \<Rightarrow> 'st res option" and
  depLoop :: "'st walker \<Rightarrow> nat \<Rightarrow> string \<Rightarrow> bufLockDep list \<Rightarrow> 'st \<Rightarrow> 'st res option" where
  "depWalk W 0 info cid st = None"
| "depWalk W (Suc n) info cid st =
     (case w_deps W info cid of
        Inl err \<Rightarrow> Some (Inl err)
      | Inr deps \<Rightarrow> depLoop W n cid deps st)"
| "depLoop W n cid [] st = Some (Inr st)"
| "depLoop W n cid (dep # deps) st =
     (case w_commit W dep of
        Inl err \<Rightarrow> Some (Inl err)
      | Inr depCommit \<Rightarrow>
          (let alreadySeen = w_seen W (depKey dep) st;
               st1 = w_visit W cid dep depCommit st
           in if bd_Remote dep = w_host W \<and> \<not> alreadySeen
              then (case depWalk W n (depInfo dep) (pc_Id depCommit) st1 of
                      None \<Rightarrow> None
                    | Some (Inl err) \<Rightarrow> Some (Inl err)
                    | Some (Inr st2) \<Rightarrow> depLoop W n cid deps st2)
              else depLoop W n cid deps st1))"
  by pat_completeness auto
termination
  by (relation "measures [\<lambda>x. case x of Inl (W, n, info, cid, st) \<Rightarrow> 2 * n
                              | Inr (W, n, cid, deps, st) \<Rightarrow> 2 * n + 1,
                          \<lambda>x. case x of Inl _ \<Rightarrow> 0 | Inr (W, n, cid, deps, st) \<Rightarrow> length deps]")
    auto

section \<open>Version v1beta1\<close>

fun replaceCommit :: "string \<Rightarrow> protoCommit \<Rightarrow> graphCommit list \<Rightarrow> graphCommit list" where
  "replaceCommit old new [] = []"
| "replaceCommit old new (gc # gcs) =
     (if pc_Id (gc_Commit gc) = old then gc\<lparr>gc_Commit := new\<rparr> # gcs
      else gc # replaceCommit old new gcs)"

definition redirectEdge :: "string \<Rightarrow> string \<Rightarrow> graphEdge \<Rightarrow> graphEdge" where
  "redirectEdge old new edge =
     (if gn_CommitId (ge_ToNode edge) = old
      then edge\<lparr>ge_ToNode := (ge_ToNode edge)\<lparr>gn_CommitId := new\<rparr>\<rparr> else edge)"

definition resolveDep ::
  "bufLockDep \<Rightarrow> protoCommit \<Rightarrow> commitMap \<times> graph \<Rightarrow> commitMap \<times> graph" where
  "resolveDep dep depCommit st =
     (case st of (commits, g) \<Rightarrow>
        (case commits (depKey dep) of
           Some existingCommit \<Rightarrow>
             if pc_Id existingCommit \<noteq> pc_Id depCommit
             then if pc_Id existingCommit < pc_Id depCommit
                  then (commits(depKey dep \<mapsto> depCommit),
                        g\<lparr>gr_Commits := replaceCommit (pc_Id existingCommit) depCommit (gr_Commits g),
                          gr_Edges := map (redirectEdge (pc_Id existingCommit) (pc_Id depCommit))
                            (gr_Edges g)\<rparr>)
                  else (commits, g)
             else (commits, g)
         | None \<Rightarrow>
             (commits(depKey dep \<mapsto> depCommit),
              g\<lparr>gr_Commits := gr_Commits g @ [\<lparr>gc_Commit = depCommit, gc_Registry = bd_Remote dep\<rparr>]\<rparr>)))"

definition visitDep ::
  "string \<Rightarrow> string \<Rightarrow> bufLockDep \<Rightarrow> protoCommit \<Rightarrow> commitMap \<times> graph \<Rightarrow> commitMap \<times> graph" where
  "visitDep host cid dep depCommit st =
     (case resolveDep dep depCommit st of (commits, g) \<Rightarrow>
        (commits,
         g\<lparr>gr_Edges := gr_Edges g @
             [\<lparr>ge_FromNode = \<lparr>gn_CommitId = cid, gn_Registry = host\<rparr>,
               ge_ToNode = \<lparr>gn_CommitId = pc_Id (the (commits (depKey dep))),
                            gn_Registry = bd_Remote dep\<rparr>\<rparr>]\<rparr>))"

definition depCommitObject :: "bufLockDep \<Rightarrow> protoCommit res" where
  "depCommitObject dep =
     (let ownerId = OwnerID (bd_Owner dep);
          modId = ModuleID ownerId (bd_Repository dep)
      in getCommitObject ownerId modId (bd_Commit dep) (TrimPrefix (bd_Digest dep) ''shake256:''))"

definition walkerB1 :: "'s backend \<Rightarrow> 's \<Rightarrow> string \<Rightarrow> (commitMap \<times> graph) walker" where
  "walkerB1 B s host =
     \<lparr>w_host = host, w_deps = getStoredDeps B s host, w_commit = depCommitObject,
      w_seen = (\<lambda>k st. fst st k \<noteq> None), w_visit = visitDep host\<rparr>"

definition getGraphForModule ::
  "'s backend \<Rightarrow> Service \<Rightarrow> nat \<Rightarrow> 's \<Rightarrow> moduleInfo \<Rightarrow> protoCommit \<Rightarrow> commitMap \<times> graph
   \<Rightarrow> (commitMap \<times> graph) res option" where
  "getGraphForModule B svc fuel s info commit st =
     depWalk (walkerB1 B s (sv_Host svc)) fuel info (pc_Id commit) st"

definition getModuleAndCommitByID ::
  "'s backend \<Rightarrow> 's \<Rightarrow> string \<Rightarrow> (moduleInfo \<times> protoCommit) res" where
  "getModuleAndCommitByID B s commitID =
     (case Reg_ModuleByCommitID B s commitID of
        Inl _ \<Rightarrow> Inl (notFoundErr (''commit not found: '' @ commitID))
      | Inr m \<Rightarrow>
          (case Mod_CommitByID B s m commitID of
             Inl err \<Rightarrow> Inl (ConnectErr CodeInternal (Some err))
           | Inr cmt \<Rightarrow>
               (case commitObject cmt of
                  Inl err \<Rightarrow> Inl (ConnectErr CodeInternal (Some err))
                | Inr commit \<Rightarrow>
                    Inr (\<lparr>mi_Owner = Module_Owner m, mi_Name = Module_Name m\<rparr>, commit))))"

definition errNameRequired :: goerr where
  "errNameRequired = ConnectErr CodeInvalidArgument (Some (Errorf ''name is required''))"

definition getModuleAndCommitByName ::
  "'s backend \<Rightarrow> 's \<Rightarrow> refName option \<Rightarrow> (moduleInfo \<times> protoCommit) res" where
  "getModuleAndCommitByName B s name =
     (case name of
        None \<Rightarrow> Inl errNameRequired
      | Some n \<Rightarrow>
          (case Reg_Module B s (rn_Owner n) (rn_Module n) of
             Inl _ \<Rightarrow> Inl (notFoundErr (''module not found: '' @ rn_Owner n @ ''/'' @ rn_Module n))
           | Inr m \<Rightarrow>
               (case resolveChild B s m (rn_Child n) of
                  Inl err \<Rightarrow> Inl err
                | Inr cmt \<Rightarrow>
                    (case commitObject cmt of
                       Inl err \<Rightarrow> Inl (ConnectErr CodeInternal (Some err))
                     | Inr commit \<Rightarrow>
                         Inr (\<lparr>mi_Owner = rn_Owner n, mi_Name = rn_Module n\<rparr>, commit)))))"

text \<open>The first loop of \<open>GetGraph\<close>; a request element holds a possibly nil \<open>ResourceRef\<close>.\<close>

fun graphRefs ::
  "'s backend \<Rightarrow> Service \<Rightarrow> 's \<Rightarrow> resourceRef option list \<Rightarrow> moduleInfo list \<Rightarrow> commitMap \<times> graph
   \<Rightarrow> (moduleInfo list \<times> commitMap \<times> graph) res" where
  "graphRefs B svc s [] modules st = Inr (modules, st)"
| "graphRefs B svc s (ref # refs) modules (commits, g) =
     (case ref of
        None \<Rightarrow> Inl Panic
      | Some RR_None \<Rightarrow> graphRefs B svc s refs modules (commits, g)
      | Some (RR_Id i) \<Rightarrow>
          (case getModuleAndCommitByID B s i of
             Inl err \<Rightarrow> Inl err
           | Inr (info, commit) \<Rightarrow>
               graphRefs B svc s refs (modules @ [info])
                 (commits(moduleKey (mi_Owner info) (mi_Name info) \<mapsto> commit),
                  g\<lparr>gr_Commits := gr_Commits g @ [\<lparr>gc_Commit = commit, gc_Registry = sv_Host svc\<rparr>]\<rparr>))
      | Some (RR_Name n) \<Rightarrow>
          (case getModuleAndCommitByName B s n of
             Inl err \<Rightarrow> Inl err
           | Inr (info, commit) \<Rightarrow>
               graphRefs B svc s refs (modules @ [info])
                 (commits(moduleKey (mi_Owner info) (mi_Name info) \<mapsto> commit),
                  g\<lparr>gr_Commits := gr_Commits g @ [\<lparr>gc_Commit = commit, gc_Registry = sv_Host svc\<rparr>]\<rparr>)))"

text \<open>The second loop: module \<open>i\<close> starts from the commit now at position \<open>i\<close> of the graph.\<close>

fun graphModules ::
  "'s backend \<Rightarrow> Service \<Rightarrow> nat \<Rightarrow> 's \<Rightarrow> nat \<Rightarrow> moduleInfo list \<Rightarrow> commitMap \<times> graph
   \<Rightarrow> (commitMap \<times> graph) res option" where
  "graphModules B svc fuel s i [] st = Some (Inr st)"
| "graphModules B svc fuel s i (info # infos) st =
     (case getGraphForModule B svc fuel s info (gc_Commit (gr_Commits (snd st) ! i)) st of
        None \<Rightarrow> None
      | Some (Inl err) \<Rightarrow> Some (Inl err)
      | Some (Inr st') \<Rightarrow> graphModules B svc fuel s (Suc i) infos st')"

definition Svc_GetGraph ::
  "'s backend \<Rightarrow> Service \<Rightarrow> nat \<Rightarrow> 's \<Rightarrow> resourceRef option list \<Rightarrow> graph res option" where
  "Svc_GetGraph B svc fuel s refs =
     (if \<not> sv_casReg svc then Some (Inl errNoCAS)
      else case graphRefs B svc s refs [] (Map.empty, \<lparr>gr_Commits = [], gr_Edges = []\<rparr>) of
        Inl err \<Rightarrow> Some (Inl err)
      | Inr (modules, st) \<Rightarrow>
          map_option (map_sum id snd) (graphModules B svc fuel s 0 modules st))"

section \<open>Version v1\<close>

fun replaceCommitV1 :: "string \<Rightarrow> protoCommit \<Rightarrow> protoCommit list \<Rightarrow> protoCommit list" where
  "replaceCommitV1 old new [] = []"
| "replaceCommitV1 old new (gc # gcs) =
     (if pc_Id gc = old then new # gcs else gc # replaceCommitV1 old new gcs)"

definition redirectEdgeV1 :: "string \<Rightarrow> string \<Rightarrow> string \<times> string \<Rightarrow> string \<times> string" where
  "redirectEdgeV1 old new edge = (if snd edge = old then (fst edge, new) else edge)"

definition resolveDepV1 ::
  "bufLockDep \<Rightarrow> protoCommit \<Rightarrow> commitMap \<times> graphV1 \<Rightarrow> commitMap \<times> graphV1" where
  "resolveDepV1 dep depCommit st =
     (case st of (commits, g) \<Rightarrow>
        (case commits (depKey dep) of
           Some existingCommit \<Rightarrow>
             if pc_Id existingCommit \<noteq> pc_Id depCommit
             then if pc_Id existingCommit < pc_Id depCommit
                  then (commits(depKey dep \<mapsto> depCommit),
                        g\<lparr>g1_Commits := replaceCommitV1 (pc_Id existingCommit) depCommit (g1_Commits g),
                          g1_Edges := map (redirectEdgeV1 (pc_Id existingCommit) (pc_Id depCommit))
                            (g1_Edges g)\<rparr>)
                  else (commits, g)
             else (commits, g)
         | None \<Rightarrow>
             (commits(depKey dep \<mapsto> depCommit), g\<lparr>g1_Commits := g1_Commits g @ [depCommit]\<rparr>)))"

definition visitDepV1 ::
  "string \<Rightarrow> bufLockDep \<Rightarrow> protoCommit \<Rightarrow> commitMap \<times> graphV1 \<Rightarrow> commitMap \<times> graphV1" where
  "visitDepV1 cid dep depCommit st =
     (case resolveDepV1 dep depCommit st of (commits, g) \<Rightarrow>
        (commits, g\<lparr>g1_Edges := g1_Edges g @ [(cid, pc_Id (the (commits (depKey dep))))]\<rparr>))"

text \<open>What \<open>hex.DecodeString\<close> returns besides an error: the bytes decoded before it.\<close>

fun decodedPrefix :: "string \<Rightarrow> byte list" where
  "decodedPrefix (p # q # r) =
     (case fromHexChar p of
        None \<Rightarrow> []
      | Some a \<Rightarrow>
          (case fromHexChar q of
             None \<Rightarrow> []
           | Some b \<Rightarrow> word_of_nat (16 * a + b) # decodedPrefix r))"
| "decodedPrefix _ = []"

definition createV1CommitFromDep :: "'s backend \<Rightarrow> 's \<Rightarrow> bufLockDep \<Rightarrow> protoCommit" where
  "createV1CommitFromDep B s dep =
     (let ownerId = OwnerID (bd_Owner dep);
          modId = ModuleID ownerId (bd_Repository dep);
          digestHex = TrimPrefix (TrimPrefix (bd_Digest dep) ''shake256:'') ''b5:'';
          fallback =
            \<lparr>pc_Id = bd_Commit dep, pc_OwnerId = ownerId, pc_ModuleId = modId, pc_CreateTime = None,
             pc_DigestType = DigestTypeB5, pc_Digest = decodedPrefix digestHex\<rparr>
      in case Reg_Module B s (bd_Owner dep) (bd_Repository dep) of
           Inl _ \<Rightarrow> fallback
         | Inr m \<Rightarrow>
             (case Mod_CommitByID B s m (bd_Commit dep) of
                Inl _ \<Rightarrow> fallback
              | Inr cmt \<Rightarrow> getCommitObjectV1 cmt))"

definition walkerV1 :: "'s backend \<Rightarrow> 's \<Rightarrow> string \<Rightarrow> (commitMap \<times> graphV1) walker" where
  "walkerV1 B s host =
     \<lparr>w_host = host, w_deps = getStoredDeps B s host,
      w_commit = (\<lambda>dep. Inr (createV1CommitFromDep B s dep)),
      w_seen = (\<lambda>k st. fst st k \<noteq> None), w_visit = visitDepV1\<rparr>"

definition getGraphForModuleV1 ::
  "'s backend \<Rightarrow> Service \<Rightarrow> nat \<Rightarrow> 's \<Rightarrow> moduleInfo \<Rightarrow> protoCommit \<Rightarrow> commitMap \<times> graphV1
   \<Rightarrow> (commitMap \<times> graphV1) res option" where
  "getGraphForModuleV1 B svc fuel s info commit st =
     depWalk (walkerV1 B s (sv_Host svc)) fuel info (pc_Id commit) st"

definition getModuleAndCommitByIDV1 ::
  "'s backend \<Rightarrow> 's \<Rightarrow> string \<Rightarrow> (moduleInfo \<times> protoCommit) res" where
  "getModuleAndCommitByIDV1 B s commitID =
     (case Reg_ModuleByCommitID B s commitID of
        Inl _ \<Rightarrow> Inl (notFoundErr (''commit not found: '' @ commitID))
      | Inr m \<Rightarrow>
          (case Mod_CommitByID B s m commitID of
             Inl err \<Rightarrow> Inl (ConnectErr CodeInternal (Some err))
           | Inr cmt \<Rightarrow>
               Inr (\<lparr>mi_Owner = Module_Owner m, mi_Name = Module_Name m\<rparr>, getCommitObjectV1 cmt)))"

definition getModuleAndCommitByNameV1 ::
  "'s backend \<Rightarrow> 's \<Rightarrow> refName option \<Rightarrow> (moduleInfo \<times> protoCommit) res" where
  "getModuleAndCommitByNameV1 B s name =
     (case name of
        None \<Rightarrow> Inl errNameRequired
      | Some n \<Rightarrow>
          (case Reg_Module B s (rn_Owner n) (rn_Module n) of
             Inl _ \<Rightarrow> Inl (notFoundErr (''module not found: '' @ rn_Owner n @ ''/'' @ rn_Module n))
           | Inr m \<Rightarrow>
               (case resolveChild B s m (rn_Child n) of
                  Inl err \<Rightarrow> Inl err
                | Inr cmt \<Rightarrow>
                    Inr (\<lparr>mi_Owner = rn_Owner n, mi_Name = rn_Module n\<rparr>, getCommitObjectV1 cmt))))"

fun graphRefsV1 ::
  "'s backend \<Rightarrow> Service \<Rightarrow> 's \<Rightarrow> resourceRef option list \<Rightarrow> moduleInfo list \<Rightarrow> commitMap \<times> graphV1
   \<Rightarrow> (moduleInfo list \<times> commitMap \<times> graphV1) res" where
  "graphRefsV1 B svc s [] modules st = Inr (modules, st)"
| "graphRefsV1 B svc s (ref # refs) modules (commits, g) =
     (case ref of
        None \<Rightarrow> Inl Panic
      | Some RR_None \<Rightarrow> graphRefsV1 B svc s refs modules (commits, g)
      | Some (RR_Id i) \<Rightarrow>
          (case getModuleAndCommitByIDV1 B s i of
             Inl err \<Rightarrow> Inl err
           | Inr (info, commit) \<Rightarrow>
               graphRefsV1 B svc s refs (modules @ [info])
                 (commits(moduleKey (mi_Owner info) (mi_Name info) \<mapsto> commit),
                  g\<lparr>g1_Commits := g1_Commits g @ [commit]\<rparr>))
      | Some (RR_Name n) \<Rightarrow>
          (case getModuleAndCommitByNameV1 B s n of
             Inl err \<Rightarrow> Inl err
           | Inr (info, commit) \<Rightarrow>
               graphRefsV1 B svc s refs (modules @ [info])
                 (commits(moduleKey (mi_Owner info) (mi_Name info) \<mapsto> commit),
                  g\<lparr>g1_Commits := g1_Commits g @ [commit]\<rparr>)))"

fun graphModulesV1 ::
  "'s backend \<Rightarrow> Service \<Rightarrow> nat \<Rightarrow> 's \<Rightarrow> nat \<Rightarrow> moduleInfo list \<Rightarrow> commitMap \<times> graphV1
   \<Rightarrow> (commitMap \<times> graphV1) res option" where
  "graphModulesV1 B svc fuel s i [] st = Some (Inr st)"
| "graphModulesV1 B svc fuel s i (info # infos) st =
     (case getGraphForModuleV1 B svc fuel s info (g1_Commits (snd st) ! i) st of
        None \<Rightarrow> None
      | Some (Inl err) \<Rightarrow> Some (Inl err)
      | Some (Inr st') \<Rightarrow> graphModulesV1 B svc fuel s (Suc i) infos st')"

definition SvcV1_GetGraph ::
  "'s backend \<Rightarrow> Service \<Rightarrow> nat \<Rightarrow> 's \<Rightarrow> resourceRef option list \<Rightarrow> graphV1 res option" where
  "SvcV1_GetGraph B svc fuel s refs =
     (if \<not> sv_casReg svc then Some (Inl errNoCAS)
      else case graphRefsV1 B svc s refs [] (Map.empty, \<lparr>g1_Commits = [], g1_Edges = []\<rparr>) of
        Inl err \<Rightarrow> Some (Inl err)
      | Inr (modules, st) \<Rightarrow>
          map_option (map_sum id snd) (graphModulesV1 B svc fuel s 0 modules st))"

section \<open>What a walk relies on\<close>

text \<open>
  The dependencies it gets are resolvable and lie in a finite set of modules, and a visit
  marks the module as seen and keeps an invariant.
\<close>

locale dep_walk =
  fixes W :: "'st walker" and K :: "string set" and keys :: "'st \<Rightarrow> string set"
    and known :: "moduleInfo \<Rightarrow> string \<Rightarrow> bool" and good :: "bufLockDep \<Rightarrow> bool"
    and inv :: "'st \<Rightarrow> bool"
  assumes finite_K: "finite K"
    and deps: "known info cid \<Longrightarrow> \<exists>ds. w_deps W info cid = Inr ds \<and> (\<forall>d \<in> set ds. good d)"
    and commit: "good d \<Longrightarrow> \<exists>c. w_commit W d = Inr c \<and> known (depInfo d) (pc_Id c) \<and> depKey d \<in> K"
    and seen: "w_seen W k st \<longleftrightarrow> k \<in> keys st"
    and visit_keys: "keys (w_visit W cid d c st) = insert (depKey d) (keys st)"
    and visit_inv: "good d \<Longrightarrow> w_commit W d = Inr c \<Longrightarrow> inv st \<Longrightarrow> inv (w_visit W cid d c st)"
begin

lemma unseen_less: "k \<in> K \<Longrightarrow> k \<notin> A \<Longrightarrow> card (K - insert k A) < card (K - A)"
proof -
  assume "k \<in> K" "k \<notin> A"
  then have "K - insert k A \<subset> K - A" by blast
  then show ?thesis using finite_K by (simp add: psubset_card_mono)
qed

lemma unseen_mono: "A \<subseteq> A' \<Longrightarrow> card (K - A') \<le> card (K - A)"
  using finite_K by (intro card_mono) auto

lemma loop_total:
  assumes walk: "\<And>info cid st. known info cid \<Longrightarrow> inv st \<Longrightarrow> card (K - keys st) < n \<Longrightarrow>
      \<exists>st'. depWalk W n info cid st = Some (Inr st') \<and> keys st \<subseteq> keys st' \<and> inv st'"
  shows "\<forall>d \<in> set ds. good d \<Longrightarrow> inv st \<Longrightarrow> card (K - keys st) \<le> n \<Longrightarrow>
     \<exists>st'. depLoop W n cid ds st = Some (Inr st') \<and> keys st \<subseteq> keys st' \<and> inv st'"
proof (induction ds arbitrary: st)
  case Nil
  then show ?case by simp
next
  case (Cons d ds)
  have good: "good d" "\<forall>d \<in> set ds. good d" using Cons.prems(1) by auto
  obtain c where c: "w_commit W d = Inr c" "known (depInfo d) (pc_Id c)" "depKey d \<in> K"
    using commit [OF good(1)] by blast
  let ?st1 = "w_visit W cid d c st"
  have k1: "keys ?st1 = insert (depKey d) (keys st)" by (rule visit_keys)
  have i1: "inv ?st1" by (rule visit_inv [OF good(1) c(1) Cons.prems(2)])
  have "keys st \<subseteq> keys ?st1" unfolding k1 by blast
  from unseen_mono [OF this] have le: "card (K - keys ?st1) \<le> n"
    using Cons.prems(3) by (rule order_trans)
  show ?case
  proof (cases "bd_Remote d = w_host W \<and> \<not> w_seen W (depKey d) st")
    case False
    from Cons.IH [OF good(2) i1 le] obtain st' where
      "depLoop W n cid ds ?st1 = Some (Inr st')" "keys ?st1 \<subseteq> keys st'" "inv st'" by blast
    then show ?thesis using c(1) k1 False by (auto simp: Let_def)
  next
    case True
    then have "depKey d \<notin> keys st" by (simp add: seen)
    then have "card (K - keys ?st1) < n"
      using unseen_less [OF c(3)] Cons.prems(3) unfolding k1 by (meson order_less_le_trans)
    from walk [OF c(2) i1 this] obtain st2 where
      w: "depWalk W n (depInfo d) (pc_Id c) ?st1 = Some (Inr st2)" "keys ?st1 \<subseteq> keys st2" "inv st2" by blast
    have "card (K - keys st2) \<le> n" using unseen_mono [OF w(2)] le by simp
    from Cons.IH [OF good(2) w(3) this] obtain st' where
      "depLoop W n cid ds st2 = Some (Inr st')" "keys st2 \<subseteq> keys st'" "inv st'" by blast
    then show ?thesis using c(1) k1 True w by (auto simp: Let_def)
  qed
qed

text \<open>With more fuel than unseen modules a walk returns, without error, and keeps the invariant.\<close>

lemma walk_total:
  "known info cid \<Longrightarrow> inv st \<Longrightarrow> card (K - keys st) < n \<Longrightarrow>
     \<exists>st'. depWalk W n info cid st = Some (Inr st') \<and> keys st \<subseteq> keys st' \<and> inv st'"
proof (induction n arbitrary: info cid st)
  case 0
  then show ?case by simp
next
  case (Suc n)
  obtain ds where ds: "w_deps W info cid = Inr ds" "\<forall>d \<in> set ds. good d"
    using deps [OF Suc.prems(1)] by blast
  have "card (K - keys st) \<le> n" using Suc.prems(3) by simp
  from loop_total [OF Suc.IH ds(2) Suc.prems(2) this, of cid] ds(1) show ?case by simp
qed

end

section \<open>Two walks in step\<close>

text \<open>Case analysis on two related results of computations that may run out of fuel.\<close>

lemma rel_res_cases [consumes 1, case_names None Inl Inr]:
  assumes "rel_option (rel_sum (=) R) x y"
  obtains "x = None" "y = None"
  | e where "x = Some (Inl e)" "y = Some (Inl e)"
  | a b where "x = Some (Inr a)" "y = Some (Inr b)" "R a b"
  using assms by (auto simp: rel_sum.simps elim!: option.rel_cases)

text \<open>
  A simulation: when two walkers have the same dependencies and hosts, agree on commit IDs
  and on seen modules, and their visits keep a relation, their walks keep it too.
\<close>

lemma depWalk_simulation:
  fixes V :: "'a walker" and W :: "'b walker"
  assumes host: "w_host V = w_host W" and deps: "w_deps V = w_deps W"
    and commit: "\<And>info cid ds d. w_deps W info cid = Inr ds \<Longrightarrow> d \<in> set ds \<Longrightarrow>
      \<exists>x y. w_commit V d = Inr x \<and> w_commit W d = Inr y \<and> pc_Id x = pc_Id y"
    and seen: "\<And>k st su. R st su \<Longrightarrow> w_seen V k st = w_seen W k su"
    and visit: "\<And>cid d x y st su. R st su \<Longrightarrow> pc_Id x = pc_Id y \<Longrightarrow>
      R (w_visit V cid d x st) (w_visit W cid d y su)"
  shows "R st su \<Longrightarrow> rel_option (rel_sum (=) R) (depWalk V n info cid st) (depWalk W n info cid su)"
proof (induction n arbitrary: info cid st su)
  case 0
  then show ?case by simp
next
  case (Suc n)
  have loop: "rel_option (rel_sum (=) R) (depLoop V n cid ds st) (depLoop W n cid ds su)"
    if "\<And>d. d \<in> set ds \<Longrightarrow> \<exists>x y. w_commit V d = Inr x \<and> w_commit W d = Inr y \<and> pc_Id x = pc_Id y"
      and "R st su" for ds st su
    using that
  proof (induction ds arbitrary: st su)
    case Nil
    then show ?case by simp
  next
    case (Cons d ds)
    obtain x y where xy: "w_commit V d = Inr x" "w_commit W d = Inr y" "pc_Id x = pc_Id y"
      using Cons.prems(1) [of d] by auto
    have r1: "R (w_visit V cid d x st) (w_visit W cid d y su)" by (rule visit [OF Cons.prems(2) xy(3)])
    have rest: "rel_option (rel_sum (=) R) (depLoop V n cid ds st') (depLoop W n cid ds su')"
      if "R st' su'" for st' su' using Cons.IH [OF Cons.prems(1) that] by simp
    show ?case
    proof (cases "bd_Remote d = w_host W \<and> \<not> w_seen W (depKey d) su")
      case False
      then show ?thesis using rest [OF r1] xy host seen [OF Cons.prems(2)] by (auto simp: Let_def)
    next
      case True
      have "rel_option (rel_sum (=) R)
          (depWalk V n (depInfo d) (pc_Id x) (w_visit V cid d x st))
          (depWalk W n (depInfo d) (pc_Id y) (w_visit W cid d y su))"
        unfolding xy(3) by (rule Suc.IH [OF r1])
      then show ?thesis
        using True xy host seen [OF Cons.prems(2)] rest by (cases rule: rel_res_cases) (simp_all add: Let_def)
    qed
  qed
  show ?case
  proof (cases "w_deps W info cid")
    case (Inl e)
    then show ?thesis by (simp add: deps)
  next
    case (Inr ds)
    then show ?thesis using loop [OF commit [OF Inr] Suc.prems] by (simp add: deps)
  qed
qed

section \<open>The graph by identifiers\<close>

text \<open>
  Both versions compute the same thing on commit IDs: the map from module keys to the
  chosen version, the list of nodes and the list of edges.
\<close>

record core =
  co_Map :: "string \<rightharpoonup> string"
  co_Nodes :: "string list"
  co_Edges :: "(string \<times> string) list"

fun replaceFirst :: "'a \<Rightarrow> 'a \<Rightarrow> 'a list \<Rightarrow> 'a list" where
  "replaceFirst old new [] = []"
| "replaceFirst old new (x # xs) = (if x = old then new # xs else x # replaceFirst old new xs)"

definition coreResolve :: "bufLockDep \<Rightarrow> string \<Rightarrow> core \<Rightarrow> core" where
  "coreResolve d i st =
     (case co_Map st (depKey d) of
        None \<Rightarrow> st\<lparr>co_Map := (co_Map st)(depKey d \<mapsto> i), co_Nodes := co_Nodes st @ [i]\<rparr>
      | Some old \<Rightarrow>
          if old < i
          then st\<lparr>co_Map := (co_Map st)(depKey d \<mapsto> i), co_Nodes := replaceFirst old i (co_Nodes st),
                 co_Edges := map (redirectEdgeV1 old i) (co_Edges st)\<rparr>
          else st)"

definition coreVisit :: "string \<Rightarrow> bufLockDep \<Rightarrow> string \<Rightarrow> core \<Rightarrow> core" where
  "coreVisit cid d i st =
     (let st1 = coreResolve d i st
      in st1\<lparr>co_Edges := co_Edges st1 @ [(cid, the (co_Map st1 (depKey d)))]\<rparr>)"

definition coreB1 :: "commitMap \<times> graph \<Rightarrow> core" where
  "coreB1 st =
     \<lparr>co_Map = (\<lambda>k. map_option pc_Id (fst st k)),
      co_Nodes = map (\<lambda>gc. pc_Id (gc_Commit gc)) (gr_Commits (snd st)),
      co_Edges = map (\<lambda>e. (gn_CommitId (ge_FromNode e), gn_CommitId (ge_ToNode e))) (gr_Edges (snd st))\<rparr>"

definition coreV1 :: "commitMap \<times> graphV1 \<Rightarrow> core" where
  "coreV1 st =
     \<lparr>co_Map = (\<lambda>k. map_option pc_Id (fst st k)), co_Nodes = map pc_Id (g1_Commits (snd st)),
      co_Edges = g1_Edges (snd st)\<rparr>"

lemma ids_replaceCommit:
  "map (\<lambda>gc. pc_Id (gc_Commit gc)) (replaceCommit old new gcs) =
   replaceFirst old (pc_Id new) (map (\<lambda>gc. pc_Id (gc_Commit gc)) gcs)"
  by (induction gcs) auto

lemma ids_replaceCommitV1: "map pc_Id (replaceCommitV1 old new gcs) = replaceFirst old (pc_Id new) (map pc_Id gcs)"
  by (induction gcs) auto

lemma ids_redirect:
  "(gn_CommitId (ge_FromNode (redirectEdge old new e)), gn_CommitId (ge_ToNode (redirectEdge old new e))) =
   redirectEdgeV1 old new (gn_CommitId (ge_FromNode e), gn_CommitId (ge_ToNode e))"
  by (simp add: redirectEdge_def redirectEdgeV1_def)

lemma coreB1_resolve: "coreB1 (resolveDep d c st) = coreResolve d (pc_Id c) (coreB1 st)"
  by (cases st)
    (auto simp: coreB1_def resolveDep_def coreResolve_def ids_replaceCommit ids_redirect comp_def
      fun_upd_def split: option.split)

lemma coreV1_resolve: "coreV1 (resolveDepV1 d c st) = coreResolve d (pc_Id c) (coreV1 st)"
  by (cases st)
    (auto simp: coreV1_def resolveDepV1_def coreResolve_def ids_replaceCommitV1 fun_upd_def
      split: option.split)

lemma coreResolve_present: "co_Map (coreResolve d i st) (depKey d) \<noteq> None"
  by (auto simp: coreResolve_def split: option.split)

lemma coreB1_visit: "coreB1 (visitDep host cid d c st) = coreVisit cid d (pc_Id c) (coreB1 st)"
proof -
  obtain m g where r: "resolveDep d c st = (m, g)" by fastforce
  have "co_Map (coreB1 (m, g)) (depKey d) \<noteq> None"
    using coreResolve_present [of d "pc_Id c" "coreB1 st"] unfolding coreB1_resolve [symmetric] r .
  then obtain x where "m (depKey d) = Some x" by (auto simp: coreB1_def)
  then show ?thesis unfolding coreVisit_def coreB1_resolve [symmetric] r
    by (simp add: visitDep_def r coreB1_def Let_def)
qed

lemma coreV1_visit: "coreV1 (visitDepV1 cid d c st) = coreVisit cid d (pc_Id c) (coreV1 st)"
proof -
  obtain m g where r: "resolveDepV1 d c st = (m, g)" by fastforce
  have "co_Map (coreV1 (m, g)) (depKey d) \<noteq> None"
    using coreResolve_present [of d "pc_Id c" "coreV1 st"] unfolding coreV1_resolve [symmetric] r .
  then obtain x where "m (depKey d) = Some x" by (auto simp: coreV1_def)
  then show ?thesis unfolding coreVisit_def coreV1_resolve [symmetric] r
    by (simp add: visitDepV1_def r coreV1_def Let_def)
qed

lemma dom_coreVisit: "dom (co_Map (coreVisit cid d i st)) = insert (depKey d) (dom (co_Map st))"
  by (auto simp: coreVisit_def coreResolve_def Let_def split: option.splits if_splits)

text \<open>
  The invariant of the walk, for a given assignment of module keys to commit IDs: the chosen
  versions are nodes and belong to their module, and every edge points to a chosen version.
\<close>

definition coreInv :: "(string \<Rightarrow> string option) \<Rightarrow> core \<Rightarrow> bool" where
  "coreInv kf st \<longleftrightarrow>
     (\<forall>k i. co_Map st k = Some i \<longrightarrow> i \<in> set (co_Nodes st) \<and> kf i = Some k) \<and>
     (\<forall>e \<in> set (co_Edges st). \<exists>k. co_Map st k = Some (snd e))"

text \<open>One node per module: the nodes are exactly the chosen versions.\<close>

definition coreOne :: "core \<Rightarrow> bool" where
  "coreOne st \<longleftrightarrow> distinct (co_Nodes st) \<and> set (co_Nodes st) = ran (co_Map st)"

lemma set_replaceFirst:
  "old \<in> set xs \<Longrightarrow> new \<in> set (replaceFirst old new xs)"
  "x \<in> set xs \<Longrightarrow> x \<noteq> old \<Longrightarrow> x \<in> set (replaceFirst old new xs)"
  "distinct xs \<Longrightarrow> old \<in> set xs \<Longrightarrow> set (replaceFirst old new xs) = insert new (set xs - {old})"
  "distinct xs \<Longrightarrow> new \<notin> set xs \<Longrightarrow> distinct (replaceFirst old new xs)"
proof -
  show "old \<in> set xs \<Longrightarrow> new \<in> set (replaceFirst old new xs)" by (induction xs) auto
  show "x \<in> set xs \<Longrightarrow> x \<noteq> old \<Longrightarrow> x \<in> set (replaceFirst old new xs)" by (induction xs) auto
  show "distinct xs \<Longrightarrow> old \<in> set xs \<Longrightarrow> set (replaceFirst old new xs) = insert new (set xs - {old})"
    by (induction xs) auto
  have sub: "set (replaceFirst old new xs) \<subseteq> insert new (set xs)" for xs :: "'a list" and old new
    by (induction xs) auto
  show "distinct xs \<Longrightarrow> new \<notin> set xs \<Longrightarrow> distinct (replaceFirst old new xs)"
    using sub by (induction xs) auto
qed

lemma coreInvD:
  "coreInv kf st \<Longrightarrow> co_Map st k = Some i \<Longrightarrow> i \<in> set (co_Nodes st) \<and> kf i = Some k"
  by (simp add: coreInv_def)

lemma coreInv_edge: "coreInv kf st \<Longrightarrow> e \<in> set (co_Edges st) \<Longrightarrow> \<exists>k. co_Map st k = Some (snd e)"
  by (simp add: coreInv_def)

lemma coreInv_resolve:
  assumes inv: "coreInv kf st" and key: "kf i = Some (depKey d)"
  shows "coreInv kf (coreResolve d i st)"
proof (cases "co_Map st (depKey d)")
  case None
  have st': "coreResolve d i st =
      st\<lparr>co_Map := (co_Map st)(depKey d \<mapsto> i), co_Nodes := co_Nodes st @ [i]\<rparr>"
    using None by (simp add: coreResolve_def)
  have "\<exists>k. ((co_Map st)(depKey d \<mapsto> i)) k = Some (snd e)" if e: "e \<in> set (co_Edges st)" for e
  proof -
    obtain k where k: "co_Map st k = Some (snd e)" using coreInv_edge [OF inv e] by blast
    then have "k \<noteq> depKey d" using None by auto
    then show ?thesis using k by (intro exI [of _ k]) simp
  qed
  moreover have "j \<in> set (co_Nodes st @ [i]) \<and> kf j = Some k"
    if "((co_Map st)(depKey d \<mapsto> i)) k = Some j" for k j
    using that key coreInvD [OF inv, of k j] by (cases "k = depKey d") auto
  ultimately show ?thesis unfolding st' coreInv_def by simp
next
  case (Some old)
  then have old: "old \<in> set (co_Nodes st)" "kf old = Some (depKey d)" using inv by (auto simp: coreInv_def)
  show ?thesis
  proof (cases "old < i")
    case False
    then show ?thesis using inv Some by (simp add: coreResolve_def)
  next
    case True
    have st': "coreResolve d i st = st\<lparr>co_Map := (co_Map st)(depKey d \<mapsto> i),
        co_Nodes := replaceFirst old i (co_Nodes st), co_Edges := map (redirectEdgeV1 old i) (co_Edges st)\<rparr>"
      using Some True by (simp add: coreResolve_def)
    have other: "j \<noteq> old" if "co_Map st k = Some j" "k \<noteq> depKey d" for k j
      using that inv old(2) by (auto simp: coreInv_def)
    have "j \<in> set (replaceFirst old i (co_Nodes st)) \<and> kf j = Some k"
      if "((co_Map st)(depKey d \<mapsto> i)) k = Some j" for k j
    proof (cases "k = depKey d")
      case True
      then show ?thesis using that key set_replaceFirst(1) [OF old(1)] by simp
    next
      case False
      then have j: "co_Map st k = Some j" using that by simp
      then show ?thesis
        using coreInvD [OF inv j] set_replaceFirst(2) [OF _ other [OF j False]] by blast
    qed
    moreover have "\<exists>k. ((co_Map st)(depKey d \<mapsto> i)) k = Some (snd (redirectEdgeV1 old i e))"
      if "e \<in> set (co_Edges st)" for e
    proof (cases "snd e = old")
      case True
      then show ?thesis by (intro exI [of _ "depKey d"]) (simp add: redirectEdgeV1_def)
    next
      case False
      then obtain k where k: "co_Map st k = Some (snd e)" using inv \<open>e \<in> set (co_Edges st)\<close>
        by (auto simp: coreInv_def)
      then have "k \<noteq> depKey d" using False Some by auto
      then show ?thesis using k False by (intro exI [of _ k]) (simp add: redirectEdgeV1_def)
    qed
    ultimately show ?thesis unfolding st' coreInv_def by simp
  qed
qed

lemma coreInv_visit:
  assumes "coreInv kf st" "kf i = Some (depKey d)"
  shows "coreInv kf (coreVisit cid d i st)"
  using coreInv_resolve [OF assms] coreResolve_present [of d i st]
  by (auto simp: coreVisit_def coreInv_def Let_def)

lemma coreOne_visit:
  assumes one: "coreOne st" and inv: "coreInv kf st" and key: "kf i = Some (depKey d)"
  shows "coreOne (coreVisit cid d i st)"
proof -
  have "coreOne (coreResolve d i st)"
  proof (cases "co_Map st (depKey d)")
    case None
    have "i \<notin> ran (co_Map st)"
    proof
      assume "i \<in> ran (co_Map st)"
      then obtain k where "co_Map st k = Some i" by (auto simp: ran_def)
      then have "k = depKey d" using inv key by (auto simp: coreInv_def)
      then show False using None \<open>co_Map st k = Some i\<close> by simp
    qed
    then show ?thesis using one None by (simp add: coreResolve_def coreOne_def)
  next
    case (Some old)
    show ?thesis
    proof (cases "old < i")
      case False
      then show ?thesis using one Some by (simp add: coreResolve_def)
    next
      case True
      have uniq: "k = depKey d" if "co_Map st k = Some i \<or> co_Map st k = Some old" for k
        using that key coreInvD [OF inv, of k] coreInvD [OF inv Some] by auto
      have i: "i \<notin> set (co_Nodes st)"
      proof
        assume "i \<in> set (co_Nodes st)"
        then obtain k where "co_Map st k = Some i" using one by (auto simp: coreOne_def ran_def)
        then show False using uniq [of k] Some True by simp
      qed
      have old: "old \<in> set (co_Nodes st)" using one Some by (auto simp: coreOne_def ran_def)
      have "x \<in> ran ((co_Map st)(depKey d \<mapsto> i)) \<longleftrightarrow> x \<in> insert i (ran (co_Map st) - {old})" for x
      proof
        assume "x \<in> ran ((co_Map st)(depKey d \<mapsto> i))"
        then obtain k where k: "((co_Map st)(depKey d \<mapsto> i)) k = Some x" by (auto simp: ran_def)
        show "x \<in> insert i (ran (co_Map st) - {old})"
        proof (cases "k = depKey d")
          case True
          then show ?thesis using k by simp
        next
          case False
          then have "co_Map st k = Some x" using k by simp
          moreover from this have "x \<noteq> old" using uniq [of k] False by blast
          ultimately show ?thesis by (blast intro: ranI)
        qed
      next
        assume "x \<in> insert i (ran (co_Map st) - {old})"
        then show "x \<in> ran ((co_Map st)(depKey d \<mapsto> i))"
        proof (cases "x = i")
          case False
          then obtain k where k: "co_Map st k = Some x" "x \<noteq> old"
            using \<open>x \<in> insert i (ran (co_Map st) - {old})\<close> by (auto simp: ran_def)
          then have "((co_Map st)(depKey d \<mapsto> i)) k = Some x" using Some by auto
          then show ?thesis by (rule ranI)
        qed (auto simp: ran_def)
      qed
      then have "ran ((co_Map st)(depKey d \<mapsto> i)) = insert i (ran (co_Map st) - {old})" by (rule set_eqI)
      then show ?thesis
        using one Some True set_replaceFirst(3) [OF _ old] set_replaceFirst(4) [OF _ i]
        by (simp add: coreResolve_def coreOne_def)
    qed
  qed
  then show ?thesis by (simp add: coreVisit_def coreOne_def Let_def)
qed

end
