(* ===== verification/Graph_Walks.thy ===== *)
theory Graph_Walks
  imports Graph_Service
begin

text \<open>
  The graph walks on a registry: the dependencies a well formed registry stores are
  resolvable, so both versions of the walk interpret the locale of \<open>Graph_Service\<close> and
  return; the lemmas and properties of \<open>GetGraph\<close> follow.
\<close>

section \<open>The walks over a registry\<close>

definition moduleKeys :: "store \<Rightarrow> string set" where
  "moduleKeys st = (\<lambda>d. moduleKey (mdoc_Owner d) (mdoc_Name d)) ` ran (vModules st)"

text \<open>The key of the module a commit belongs to.\<close>

definition commitKey :: "store \<Rightarrow> string \<Rightarrow> string option" where
  "commitKey st i =
     (case vCommits st i of
        None \<Rightarrow> None
      | Some d \<Rightarrow>
          map_option (\<lambda>md. moduleKey (mdoc_Owner md) (mdoc_Name md)) (vModules st (cdoc_ModuleID d)))"

definition knownCommit :: "store \<Rightarrow> moduleInfo \<Rightarrow> string \<Rightarrow> bool" where
  "knownCommit st info cid \<longleftrightarrow> modulesOK st \<and>
     (\<exists>d rcd md. vCommits st cid = Some d \<and> commitDocToRecord d = Inr rcd
        \<and> vModules st (cdoc_ModuleID d) = Some md \<and> mdoc_Owner md = mi_Owner info \<and> mdoc_Name md = mi_Name info)"

definition goodDep :: "store \<Rightarrow> bufLockDep \<Rightarrow> bool" where
  "goodDep st d \<longleftrightarrow> knownCommit st (depInfo d) (bd_Commit d)
     \<and> (\<exists>bs. bd_Digest d = ''shake256:'' @ EncodeToString bs)"

lemma knownCommit_key:
  "knownCommit st info cid \<Longrightarrow> commitKey st cid = Some (moduleKey (mi_Owner info) (mi_Name info))
     \<and> moduleKey (mi_Owner info) (mi_Name info) \<in> moduleKeys st"
  by (force simp: knownCommit_def commitKey_def moduleKeys_def intro: ranI rev_image_eqI)

lemma goodDep_key: "goodDep st d \<Longrightarrow> commitKey st (bd_Commit d) = Some (depKey d) \<and> depKey d \<in> moduleKeys st"
  using knownCommit_key [of st "depInfo d" "bd_Commit d"]
  by (simp add: goodDep_def depInfo_def depKey_def)

lemma depCommitObject_good: "goodDep st d \<Longrightarrow> \<exists>c. depCommitObject d = Inr c \<and> pc_Id c = bd_Commit d"
proof -
  assume "goodDep st d"
  then obtain bs where bs: "bd_Digest d = ''shake256:'' @ EncodeToString bs" by (auto simp: goodDep_def)
  show ?thesis unfolding depCommitObject_def bs TrimPrefix_append by (simp add: getCommitObject_def Let_def)
qed

text \<open>What holds of every dependency the loop appends holds of all it returns.\<close>

lemma storedDepLoop_all:
  assumes "\<forall>d \<in> set deps. P d"
    and "\<And>i m c. Reg_ModuleByCommitID B s i = Inr m \<Longrightarrow> Mod_CommitByID B s m i = Inr c \<Longrightarrow>
      P \<lparr>bd_Remote = host, bd_Owner = Module_Owner m, bd_Repository = Module_Name m, bd_Commit = i,
         bd_Digest = ''shake256:'' @ Digest_Hex (c_FilesDigest c)\<rparr>"
    and "d \<in> set (storedDepLoop B s host ids deps)"
  shows "P d"
  using assms(1,3)
proof (induction ids arbitrary: deps)
  case Nil
  then show ?case by simp
next
  case (Cons i ids)
  show ?case
  proof (cases "\<exists>m c. Reg_ModuleByCommitID B s i = Inr m \<and> Mod_CommitByID B s m i = Inr c")
    case False
    then have "storedDepLoop B s host (i # ids) deps = storedDepLoop B s host ids deps"
      by (auto split: sum.split)
    then show ?thesis using Cons by simp
  next
    case True
    then obtain m c where m: "Reg_ModuleByCommitID B s i = Inr m" "Mod_CommitByID B s m i = Inr c" by blast
    show ?thesis using Cons.prems m assms(2) [OF m] by (intro Cons.IH) auto
  qed
qed

context backend_laws
begin

lemma Mod_CommitByID_Inr:
  "Mod_CommitByID B s m cid = Inr c \<Longrightarrow>
   c_ID c = cid \<and> c_ModuleID c = Module_ID m \<and>
   (\<exists>d rcd. vCommits (view s) cid = Some d \<and> commitDocToRecord d = Inr rcd \<and> toCommit rcd = c
      \<and> cdoc_ModuleID d = Module_ID m)"
proof -
  assume "Mod_CommitByID B s m cid = Inr c"
  then obtain d rcd where d: "vCommits (view s) cid = Some d" "commitDocToRecord d = Inr rcd"
    "toCommit rcd = c" "commit_ModuleID rcd = Module_ID m"
    by (auto simp: Mod_CommitByID_def Meta_GetCommit_view Module_ID_def split: option.splits sum.splits if_splits)
  then show ?thesis
    using commitDocToRecord_fields [OF d(2)] cm.keyed [OF d(1)] by (auto simp: toCommit_def)
qed

lemma Reg_ModuleByCommitID_Inr:
  assumes "Reg_ModuleByCommitID B s cid = Inr m"
  shows "\<exists>d rcd md. vCommits (view s) cid = Some d \<and> commitDocToRecord d = Inr rcd \<and>
     vModules (view s) (cdoc_ModuleID d) = Some md \<and> mod_record m = moduleDocToRecord md \<and>
     Module_ID m = cdoc_ModuleID d"
proof -
  obtain d rcd where d: "vCommits (view s) cid = Some d" "commitDocToRecord d = Inr rcd"
    and m: "Reg_ModuleByID B s (commit_ModuleID rcd) = Inr m"
    using assms by (auto simp: Reg_ModuleByCommitID_def Meta_GetCommit_view split: option.splits sum.splits)
  then obtain md where md: "vModules (view s) (cdoc_ModuleID d) = Some md" "m = \<lparr>mod_record = moduleDocToRecord md\<rparr>"
    using commitDocToRecord_fields [OF d(2)]
    by (auto simp: Reg_ModuleByID_def Meta_GetModule_view split: option.splits sum.splits)
  then show ?thesis using d mo.keyed [OF md(1)] by (auto simp: Module_ID_def)
qed

lemma module_known:
  assumes ok: "modulesOK (view s)" and m: "Reg_ModuleByCommitID B s cid = Inr m"
  shows "knownCommit (view s) \<lparr>mi_Owner = Module_Owner m, mi_Name = Module_Name m\<rparr> cid"
  using Reg_ModuleByCommitID_Inr [OF m] ok
  by (auto simp: knownCommit_def Module_Owner_def Module_Name_def moduleDocToRecord_def)

lemma known_lookup:
  assumes "knownCommit (view s) info cid"
  shows "\<exists>m c. Reg_Module B s (mi_Owner info) (mi_Name info) = Inr m \<and> Mod_CommitByID B s m cid = Inr c"
proof -
  obtain d rcd md where ok: "modulesOK (view s)" and d: "vCommits (view s) cid = Some d"
    "commitDocToRecord d = Inr rcd" and md: "vModules (view s) (cdoc_ModuleID d) = Some md"
    "mdoc_Owner md = mi_Owner info" "mdoc_Name md = mi_Name info"
    using assms by (auto simp: knownCommit_def)
  have k: "cdoc_ModuleID d = ModuleID (OwnerID (mi_Owner info)) (mi_Name info)"
    using modulesOKD [OF ok md(1)] md by simp
  have m: "Reg_Module B s (mi_Owner info) (mi_Name info) = Inr \<lparr>mod_record = moduleDocToRecord md\<rparr>"
    using Reg_Module_present [OF ok md(1) [unfolded k] md(2,3)] .
  have "Mod_CommitByID B s \<lparr>mod_record = moduleDocToRecord md\<rparr> cid = Inr (toCommit rcd)"
    using mo.keyed [OF md(1)] commitDocToRecord_fields [OF d(2)]
    by (intro Mod_CommitByID_stored [OF d refl]) (simp add: Module_ID_def toCommit_def)
  then show ?thesis using m by blast
qed

lemma storedDepLoop_good:
  assumes "modulesOK (view s)" "d \<in> set (storedDepLoop B s host ids [])"
  shows "goodDep (view s) d"
proof (rule storedDepLoop_all [OF _ _ assms(2), where P = "goodDep (view s)"])
  fix i m c
  assume "Reg_ModuleByCommitID B s i = Inr m"
  from module_known [OF assms(1) this] show "goodDep (view s) \<lparr>bd_Remote = host, bd_Owner = Module_Owner m,
      bd_Repository = Module_Name m, bd_Commit = i, bd_Digest = ''shake256:'' @ Digest_Hex (c_FilesDigest c)\<rparr>"
    by (auto simp: goodDep_def depInfo_def Digest_Hex_def)
qed simp

lemma getStoredDeps_good:
  "getStoredDeps B s host info cid = Inr ds \<Longrightarrow> modulesOK (view s) \<Longrightarrow> d \<in> set ds \<Longrightarrow> goodDep (view s) d"
  using storedDepLoop_good [of s d host]
  by (auto simp: getStoredDeps_def split: sum.splits)

lemma getStoredDeps_known:
  assumes "knownCommit (view s) info cid"
  shows "\<exists>ds. getStoredDeps B s host info cid = Inr ds \<and> (\<forall>d \<in> set ds. goodDep (view s) d)"
proof -
  obtain ds where ds: "getStoredDeps B s host info cid = Inr ds"
    using known_lookup [OF assms] by (auto simp: getStoredDeps_def)
  then show ?thesis using getStoredDeps_good [OF ds] assms by (auto simp: knownCommit_def)
qed

lemma createV1CommitFromDep_Id: "pc_Id (createV1CommitFromDep B s d) = bd_Commit d"
  by (auto simp: createV1CommitFromDep_def getCommitObjectV1_def Let_def
      dest!: Mod_CommitByID_Inr split: sum.split)

lemma finite_moduleKeys: "finite (moduleKeys (view s))"
  unfolding moduleKeys_def by (intro finite_imageI finite_ran mo.finite_dom)

lemma card_moduleKeys: "card (moduleKeys (view s)) \<le> card (dom (vModules (view s)))"
proof -
  have "ran (vModules (view s)) = (\<lambda>k. the (vModules (view s) k)) ` dom (vModules (view s))"
    by (force simp: ran_def image_iff)
  then have "moduleKeys (view s) = (\<lambda>k. let d = the (vModules (view s) k) in moduleKey (mdoc_Owner d) (mdoc_Name d))
      ` dom (vModules (view s))"
    by (simp add: moduleKeys_def image_image Let_def)
  then show ?thesis using card_image_le [OF mo.finite_dom] by simp
qed

end

text \<open>
  Owner names without a slash (the key \<open>owner/name\<close> of the code's map then identifies the
  module), and a graph whose first nodes are commits of the requested modules, in their
  order, each at least as new as the requested commit.
\<close>

definition infoKey :: "moduleInfo \<Rightarrow> string" where
  "infoKey info = moduleKey (mi_Owner info) (mi_Name info)"


definition slashFree :: "store \<Rightarrow> bool" where
  "slashFree st \<longleftrightarrow> (\<forall>d \<in> ran (vModules st). CHR ''/'' \<notin> set (mdoc_Owner d))"

definition tops :: "store \<Rightarrow> (moduleInfo \<times> string) list \<Rightarrow> core \<Rightarrow> bool" where
  "tops st req g \<longleftrightarrow> length req \<le> length (co_Nodes g) \<and>
     (\<forall>j < length req. knownCommit st (fst (req ! j)) (co_Nodes g ! j) \<and> snd (req ! j) \<le> co_Nodes g ! j)"

lemma moduleKey_inj:
  "CHR ''/'' \<notin> set a \<Longrightarrow> CHR ''/'' \<notin> set b \<Longrightarrow> moduleKey a x = moduleKey b y \<Longrightarrow> a = b \<and> x = y"
proof (induction a arbitrary: b)
  case Nil
  then show ?case by (cases b) (auto simp: moduleKey_def)
next
  case (Cons c a)
  then obtain b' where "b = c # b'" by (cases b) (auto simp: moduleKey_def)
  then show ?case using Cons.IH [of b'] Cons.prems by (auto simp: moduleKey_def)
qed

lemma knownCommit_owner: "slashFree st \<Longrightarrow> knownCommit st info cid \<Longrightarrow> CHR ''/'' \<notin> set (mi_Owner info)"
  by (auto simp: knownCommit_def slashFree_def ran_def)

lemma knownCommit_swap:
  assumes sf: "slashFree st" and old: "knownCommit st info old" and new: "knownCommit st info' i"
    and same: "commitKey st old = Some (moduleKey (mi_Owner info') (mi_Name info'))"
  shows "knownCommit st info i"
proof -
  have "moduleKey (mi_Owner info) (mi_Name info) = moduleKey (mi_Owner info') (mi_Name info')"
    using knownCommit_key [OF old] same by simp
  then have "info = info'"
    using moduleKey_inj knownCommit_owner [OF sf old] knownCommit_owner [OF sf new] by (metis moduleInfo.equality unit.exhaust)
  then show ?thesis using new by simp
qed

lemma length_replaceFirst [simp]: "length (replaceFirst old new xs) = length xs"
  by (induction xs) auto

lemma nth_replaceFirst:
  "j < length xs \<Longrightarrow> replaceFirst old new xs ! j = xs ! j \<or> xs ! j = old \<and> replaceFirst old new xs ! j = new"
  by (induction xs arbitrary: j) (auto simp: nth_Cons split: nat.split)

lemma length_coreVisit: "length (co_Nodes g) \<le> length (co_Nodes (coreVisit cid d i g))"
  by (auto simp: coreVisit_def coreResolve_def Let_def split: option.split)

lemma nth_coreVisit:
  assumes "j < length (co_Nodes g)"
  shows "co_Nodes (coreVisit cid d i g) ! j = co_Nodes g ! j \<or>
    co_Map g (depKey d) = Some (co_Nodes g ! j) \<and> co_Nodes g ! j < i \<and> co_Nodes (coreVisit cid d i g) ! j = i"
  using assms nth_replaceFirst [OF assms]
  by (auto simp: coreVisit_def coreResolve_def Let_def nth_append split: option.split)

lemma tops_visit:
  assumes sf: "slashFree st" and inv: "coreInv (commitKey st) g" and t: "tops st req g" and d: "goodDep st d"
  shows "tops st req (coreVisit cid d (bd_Commit d) g)"
proof -
  let ?g = "coreVisit cid d (bd_Commit d) g"
  have "knownCommit st (fst (req ! j)) (co_Nodes ?g ! j) \<and> snd (req ! j) \<le> co_Nodes ?g ! j"
    if j: "j < length req" for j
  proof -
    have len: "j < length (co_Nodes g)" and k: "knownCommit st (fst (req ! j)) (co_Nodes g ! j)"
      and le: "snd (req ! j) \<le> co_Nodes g ! j"
      using t j by (auto simp: tops_def)
    from nth_coreVisit [OF len, of cid d "bd_Commit d"] show ?thesis
    proof
      assume "co_Nodes ?g ! j = co_Nodes g ! j"
      then show ?thesis using k le by simp
    next
      assume r: "co_Map g (depKey d) = Some (co_Nodes g ! j) \<and> co_Nodes g ! j < bd_Commit d \<and>
        co_Nodes ?g ! j = bd_Commit d"
      have "commitKey st (co_Nodes g ! j) = Some (infoKey (depInfo d))"
        using coreInvD [OF inv r [THEN conjunct1]] by (simp add: depInfo_def depKey_def infoKey_def)
      then have "knownCommit st (fst (req ! j)) (bd_Commit d)"
        using knownCommit_swap [OF sf k, of "depInfo d" "bd_Commit d"] d by (simp add: goodDep_def infoKey_def)
      moreover have "snd (req ! j) \<le> bd_Commit d" using le r by (meson order_trans less_imp_le)
      ultimately show ?thesis using r by simp
    qed
  qed
  then show ?thesis using t length_coreVisit [of g cid d "bd_Commit d"] by (auto simp: tops_def)
qed

text \<open>
  The invariant of a walk: \<open>one\<close> adds that there is one node per module; \<open>req\<close> are the
  requested modules with their commits, whose nodes stay in place.
\<close>

definition walkInv :: "store \<Rightarrow> bool \<Rightarrow> (moduleInfo \<times> string) list \<Rightarrow> core \<Rightarrow> bool" where
  "walkInv st one req g \<longleftrightarrow> slashFree st \<and> coreInv (commitKey st) g \<and> (one \<longrightarrow> coreOne g) \<and> tops st req g"

lemma walkInv_visit:
  "walkInv st one req g \<Longrightarrow> goodDep st d \<Longrightarrow> walkInv st one req (coreVisit cid d (bd_Commit d) g)"
  using coreInv_visit coreOne_visit tops_visit goodDep_key by (metis walkInv_def)

lemma dom_visitDep: "dom (fst (visitDep host cid d c st)) = insert (depKey d) (dom (fst st))"
proof -
  have "dom (co_Map (coreB1 x)) = dom (fst x)" for x by (auto simp: coreB1_def)
  then show ?thesis using dom_coreVisit coreB1_visit by metis
qed

lemma dom_visitDepV1: "dom (fst (visitDepV1 cid d c st)) = insert (depKey d) (dom (fst st))"
proof -
  have "dom (co_Map (coreV1 x)) = dom (fst x)" for x by (auto simp: coreV1_def)
  then show ?thesis using dom_coreVisit coreV1_visit by metis
qed

sublocale backend_laws \<subseteq> gb: dep_walk "walkerB1 B s host" "moduleKeys (view s)" "\<lambda>st. dom (fst st)"
  "knownCommit (view s)" "goodDep (view s)" "\<lambda>st. walkInv (view s) one req (coreB1 st)" for s host one req
proof
  show "finite (moduleKeys (view s))" by (rule finite_moduleKeys)
next
  fix info cid
  assume "knownCommit (view s) info cid"
  then show "\<exists>ds. w_deps (walkerB1 B s host) info cid = Inr ds \<and> (\<forall>d \<in> set ds. goodDep (view s) d)"
    using getStoredDeps_known by (simp add: walkerB1_def)
next
  fix d
  assume d: "goodDep (view s) d"
  then show "\<exists>c. w_commit (walkerB1 B s host) d = Inr c \<and> knownCommit (view s) (depInfo d) (pc_Id c)
      \<and> depKey d \<in> moduleKeys (view s)"
    using depCommitObject_good [OF d] goodDep_key [OF d] by (auto simp: walkerB1_def goodDep_def)
next
  fix cid d c and st :: "commitMap \<times> graph"
  assume "goodDep (view s) d" "w_commit (walkerB1 B s host) d = Inr c" "walkInv (view s) one req (coreB1 st)"
  then show "walkInv (view s) one req (coreB1 (w_visit (walkerB1 B s host) cid d c st))"
    using walkInv_visit depCommitObject_good by (fastforce simp: walkerB1_def coreB1_visit)
qed (auto simp: walkerB1_def dom_visitDep)

sublocale backend_laws \<subseteq> gv: dep_walk "walkerV1 B s host" "moduleKeys (view s)" "\<lambda>st. dom (fst st)"
  "knownCommit (view s)" "goodDep (view s)" "\<lambda>st. walkInv (view s) one req (coreV1 st)" for s host one req
proof
  show "finite (moduleKeys (view s))" by (rule finite_moduleKeys)
next
  fix info cid
  assume "knownCommit (view s) info cid"
  then show "\<exists>ds. w_deps (walkerV1 B s host) info cid = Inr ds \<and> (\<forall>d \<in> set ds. goodDep (view s) d)"
    using getStoredDeps_known by (simp add: walkerV1_def)
next
  fix d
  assume d: "goodDep (view s) d"
  then show "\<exists>c. w_commit (walkerV1 B s host) d = Inr c \<and> knownCommit (view s) (depInfo d) (pc_Id c)
      \<and> depKey d \<in> moduleKeys (view s)"
    using createV1CommitFromDep_Id goodDep_key [OF d] by (auto simp: walkerV1_def goodDep_def)
next
  fix cid d c and st :: "commitMap \<times> graphV1"
  assume "goodDep (view s) d" "w_commit (walkerV1 B s host) d = Inr c" "walkInv (view s) one req (coreV1 st)"
  then show "walkInv (view s) one req (coreV1 (w_visit (walkerV1 B s host) cid d c st))"
    using walkInv_visit createV1CommitFromDep_Id by (fastforce simp: walkerV1_def coreV1_visit)
qed (auto simp: walkerV1_def dom_visitDepV1)

section \<open>Fuel\<close>

text \<open>More fuel does not change the result of a walk that returned.\<close>

lemma depLoop_fuel:
  assumes walk: "\<And>info cid st r. depWalk W n info cid st = Some r \<Longrightarrow> depWalk W m info cid st = Some r"
  shows "depLoop W n cid ds st = Some r \<Longrightarrow> depLoop W m cid ds st = Some r"
proof (induction ds arbitrary: st)
  case Nil
  then show ?case by simp
next
  case (Cons d ds)
  then show ?case by (auto simp: Let_def dest!: walk split: sum.splits option.splits if_splits)
qed

lemma depWalk_fuel: "n \<le> m \<Longrightarrow> depWalk W n info cid st = Some r \<Longrightarrow> depWalk W m info cid st = Some r"
proof (induction n arbitrary: m info cid st r)
  case 0
  then show ?case by simp
next
  case (Suc n)
  then obtain m' where m: "m = Suc m'" "n \<le> m'" by (cases m) auto
  from Suc.prems(2) show ?case unfolding m(1)
    by (auto intro: depLoop_fuel [OF Suc.IH [OF m(2)]] split: sum.splits)
qed

lemma graphModules_fuel:
  "n \<le> m \<Longrightarrow> graphModules B svc n s i infos st = Some r \<Longrightarrow> graphModules B svc m s i infos st = Some r"
  by (induction infos arbitrary: i st)
    (auto simp: getGraphForModule_def dest!: depWalk_fuel [of n m] split: option.splits sum.splits)

lemma graphModulesV1_fuel:
  "n \<le> m \<Longrightarrow> graphModulesV1 B svc n s i infos st = Some r \<Longrightarrow> graphModulesV1 B svc m s i infos st = Some r"
  by (induction infos arbitrary: i st)
    (auto simp: getGraphForModuleV1_def dest!: depWalk_fuel [of n m] split: option.splits sum.splits)

lemma GetGraph_fuel:
  "n \<le> m \<Longrightarrow> Svc_GetGraph B svc n s refs = Some r \<Longrightarrow> Svc_GetGraph B svc m s refs = Some r"
  by (auto simp: Svc_GetGraph_def dest: graphModules_fuel split: if_splits sum.splits)

lemma GetGraphV1_fuel:
  "n \<le> m \<Longrightarrow> SvcV1_GetGraph B svc n s refs = Some r \<Longrightarrow> SvcV1_GetGraph B svc m s refs = Some r"
  by (auto simp: SvcV1_GetGraph_def dest: graphModulesV1_fuel split: if_splits sum.splits)

section \<open>The requested modules\<close>

text \<open>What the first loop of \<open>GetGraph\<close> leaves: the nodes are the requested, known commits.\<close>

definition refsInv :: "store \<Rightarrow> (moduleInfo \<times> string) list \<Rightarrow> core \<Rightarrow> bool" where
  "refsInv st req g \<longleftrightarrow> coreInv (commitKey st) g \<and> co_Edges g = [] \<and> co_Nodes g = map snd req \<and>
     (\<forall>p \<in> set req. knownCommit st (fst p) (snd p)) \<and>
     dom (co_Map g) = (\<lambda>p. infoKey (fst p)) ` set req \<and>
     (distinct (map (\<lambda>p. infoKey (fst p)) req) \<longrightarrow> coreOne g)"

definition coreAdd :: "moduleInfo \<Rightarrow> string \<Rightarrow> core \<Rightarrow> core" where
  "coreAdd info i g = g\<lparr>co_Map := (co_Map g)(infoKey info \<mapsto> i), co_Nodes := co_Nodes g @ [i]\<rparr>"

lemma refsInv_add:
  assumes r: "refsInv st req g" and k: "knownCommit st info i"
  shows "refsInv st (req @ [(info, i)]) (coreAdd info i g)"
proof -
  have key: "commitKey st i = Some (infoKey info)" using knownCommit_key [OF k] by (simp add: infoKey_def)
  have inv: "coreInv (commitKey st) g" and e: "co_Edges g = []" using r by (auto simp: refsInv_def)
  have "coreInv (commitKey st) (coreAdd info i g)"
    using coreInvD [OF inv] e key by (auto simp: coreInv_def coreAdd_def)
  moreover have "coreOne (coreAdd info i g)"
    if "distinct (map (\<lambda>p. infoKey (fst p)) (req @ [(info, i)]))"
  proof -
    have one: "coreOne g" using that r by (auto simp: refsInv_def)
    have "infoKey info \<notin> dom (co_Map g)" using that r by (auto simp: refsInv_def)
    then have new: "co_Map g (infoKey info) = None" by blast
    have "i \<notin> set (co_Nodes g)"
    proof
      assume "i \<in> set (co_Nodes g)"
      then obtain k where "co_Map g k = Some i" using one by (auto simp: coreOne_def ran_def)
      then show False using coreInvD [OF inv] key new by fastforce
    qed
    then show ?thesis using one new by (simp add: coreOne_def coreAdd_def)
  qed
  ultimately show ?thesis using r k e by (auto simp: refsInv_def coreAdd_def)
qed

lemma refsInv_empty: "refsInv st [] \<lparr>co_Map = Map.empty, co_Nodes = [], co_Edges = []\<rparr>"
  by (simp add: refsInv_def coreInv_def coreOne_def)

lemma refsInv_walkInv:
  "refsInv st req g \<Longrightarrow> slashFree st \<Longrightarrow>
   walkInv st (distinct (map (\<lambda>p. infoKey (fst p)) req)) req g"
  by (auto simp: refsInv_def walkInv_def tops_def)

text \<open>What one request element stands for, and the update both branches of the loop make.\<close>

definition refTarget ::
  "(string \<Rightarrow> (moduleInfo \<times> protoCommit) res) \<Rightarrow> (refName option \<Rightarrow> (moduleInfo \<times> protoCommit) res)
   \<Rightarrow> resourceRef option \<Rightarrow> (moduleInfo \<times> protoCommit) option res" where
  "refTarget byID byName ref =
     (case ref of
        None \<Rightarrow> Inl Panic
      | Some RR_None \<Rightarrow> Inr None
      | Some (RR_Id i) \<Rightarrow> map_sum id Some (byID i)
      | Some (RR_Name n) \<Rightarrow> map_sum id Some (byName n))"

text \<open>The modules a request names, with the commits it resolves to.\<close>

fun requested :: "'s backend \<Rightarrow> 's \<Rightarrow> resourceRef option list \<Rightarrow> (moduleInfo \<times> string) list" where
  "requested B s [] = []"
| "requested B s (ref # refs) =
     (case refTarget (getModuleAndCommitByID B s) (getModuleAndCommitByName B s) ref of
        Inr (Some (info, c)) \<Rightarrow> (info, pc_Id c) # requested B s refs
      | _ \<Rightarrow> requested B s refs)"

definition addTop :: "string \<Rightarrow> moduleInfo \<Rightarrow> protoCommit \<Rightarrow> commitMap \<times> graph \<Rightarrow> commitMap \<times> graph" where
  "addTop host info commit st =
     ((fst st)(infoKey info \<mapsto> commit),
      (snd st)\<lparr>gr_Commits := gr_Commits (snd st) @ [\<lparr>gc_Commit = commit, gc_Registry = host\<rparr>]\<rparr>)"

definition addTopV1 :: "moduleInfo \<Rightarrow> protoCommit \<Rightarrow> commitMap \<times> graphV1 \<Rightarrow> commitMap \<times> graphV1" where
  "addTopV1 info commit st =
     ((fst st)(infoKey info \<mapsto> commit),
      (snd st)\<lparr>g1_Commits := g1_Commits (snd st) @ [commit]\<rparr>)"

lemma graphRefs_Cons:
  "graphRefs B svc s (ref # refs) infos st =
     (case refTarget (getModuleAndCommitByID B s) (getModuleAndCommitByName B s) ref of
        Inl e \<Rightarrow> Inl e
      | Inr None \<Rightarrow> graphRefs B svc s refs infos st
      | Inr (Some (info, c)) \<Rightarrow> graphRefs B svc s refs (infos @ [info]) (addTop (sv_Host svc) info c st))"
  by (cases st) (auto simp: refTarget_def addTop_def infoKey_def split: option.split resourceRef.split sum.split)

lemma graphRefsV1_Cons:
  "graphRefsV1 B svc s (ref # refs) infos st =
     (case refTarget (getModuleAndCommitByIDV1 B s) (getModuleAndCommitByNameV1 B s) ref of
        Inl e \<Rightarrow> Inl e
      | Inr None \<Rightarrow> graphRefsV1 B svc s refs infos st
      | Inr (Some (info, c)) \<Rightarrow> graphRefsV1 B svc s refs (infos @ [info]) (addTopV1 info c st))"
  by (cases st) (auto simp: refTarget_def addTopV1_def infoKey_def split: option.split resourceRef.split sum.split)

lemma coreB1_add: "coreB1 (addTop h info c st) = coreAdd info (pc_Id c) (coreB1 st)"
  by (auto simp: coreB1_def coreAdd_def addTop_def)

lemma coreV1_add: "coreV1 (addTopV1 info c st) = coreAdd info (pc_Id c) (coreV1 st)"
  by (auto simp: coreV1_def coreAdd_def addTopV1_def)

context backend_laws
begin

lemma resolved_known:
  assumes "modulesOK (view s)" "Reg_Module B s owner name = Inr m" "Mod_CommitByID B s m cid = Inr c"
  shows "knownCommit (view s) \<lparr>mi_Owner = owner, mi_Name = name\<rparr> (c_ID c)"
proof -
  obtain d rcd where "vCommits (view s) cid = Some d" "commitDocToRecord d = Inr rcd" "toCommit rcd = c"
    "cdoc_ModuleID d = Module_ID m" "c_ID c = cid"
    using Mod_CommitByID_Inr [OF assms(3)] by blast
  then show ?thesis
    using Reg_Module_Inr [OF assms(1,2)] assms(1)
    by (auto simp: knownCommit_def moduleRecordToDoc_def Module_Owner_def Module_Name_def)
qed

lemma resolveChild_ByID: "resolveChild B s m child = Inr c \<Longrightarrow> \<exists>cid. Mod_CommitByID B s m cid = Inr c"
  by (auto simp: resolveChild_def Mod_Commit_def Let_def split: nameChild.splits sum.splits)

lemma ByID_known:
  "modulesOK (view s) \<Longrightarrow> getModuleAndCommitByID B s i = Inr (info, c) \<Longrightarrow> knownCommit (view s) info (pc_Id c)"
  by (auto simp: getModuleAndCommitByID_def commitObject_ok dest!: Mod_CommitByID_Inr module_known split: sum.splits)

lemma ByName_known:
  "modulesOK (view s) \<Longrightarrow> getModuleAndCommitByName B s n = Inr (info, c) \<Longrightarrow> knownCommit (view s) info (pc_Id c)"
  by (auto simp: getModuleAndCommitByName_def commitObject_ok dest!: resolveChild_ByID
      intro: resolved_known split: sum.splits option.splits)

lemma refTarget_known:
  "modulesOK (view s) \<Longrightarrow>
   refTarget (getModuleAndCommitByID B s) (getModuleAndCommitByName B s) ref = Inr (Some (info, c)) \<Longrightarrow>
   knownCommit (view s) info (pc_Id c)"
  by (cases "getModuleAndCommitByID B s (case ref of Some (RR_Id i) \<Rightarrow> i)";
      cases "getModuleAndCommitByName B s (case ref of Some (RR_Name n) \<Rightarrow> n)")
    (auto simp: refTarget_def dest: ByID_known ByName_known split: option.splits resourceRef.splits)

lemma graphRefs_inv:
  assumes ok: "modulesOK (view s)"
  shows "graphRefs B svc s refs (map fst req) st = Inr (infos', st') \<Longrightarrow> refsInv (view s) req (coreB1 st) \<Longrightarrow>
     infos' = map fst (req @ requested B s refs) \<and> refsInv (view s) (req @ requested B s refs) (coreB1 st')"
proof (induction refs arbitrary: req st)
  case Nil
  then show ?case by simp
next
  case (Cons ref refs)
  have top: "refsInv (view s) (req @ [(info, pc_Id c)]) (coreB1 (addTop (sv_Host svc) info c st))"
    if "refTarget (getModuleAndCommitByID B s) (getModuleAndCommitByName B s) ref = Inr (Some (info, c))" for info c
    unfolding coreB1_add using Cons.prems(2) refTarget_known [OF ok that] by (rule refsInv_add)
  show ?case using Cons.prems Cons.IH [OF _ top]
    by (auto simp: graphRefs_Cons split: sum.splits option.splits prod.splits dest: Cons.IH)
qed

text \<open>The second loop returns, keeps the invariant, and does not depend on the fuel.\<close>

lemma graphModules_total:
  assumes n: "card (dom (vModules (view s))) < n"
  shows "walkInv (view s) one req (coreB1 st) \<Longrightarrow> drop i req = rest \<Longrightarrow>
     \<exists>st'. graphModules B svc n s i (map fst rest) st = Some (Inr st') \<and> walkInv (view s) one req (coreB1 st')"
proof (induction rest arbitrary: i st)
  case Nil
  then show ?case by simp
next
  case (Cons p rest)
  have i: "i < length req" "req ! i = p" "drop (Suc i) req = rest"
    using Cons.prems(2) by (auto simp: nth_via_drop drop_Suc tl_drop [symmetric]) (metis drop_all list.discI not_le)
  let ?c = "gc_Commit (gr_Commits (snd st) ! i)"
  have "knownCommit (view s) (fst p) (pc_Id ?c)"
    using Cons.prems(1) i by (auto simp: walkInv_def tops_def coreB1_def)
  moreover have "card (moduleKeys (view s) - dom (fst st)) < n"
    using card_moduleKeys n finite_moduleKeys by (meson card_Diff_subset_Int card_mono Diff_subset order_le_less_trans)
  ultimately obtain st2 where w: "depWalk (walkerB1 B s (sv_Host svc)) n (fst p) (pc_Id ?c) st = Some (Inr st2)"
    "walkInv (view s) one req (coreB1 st2)"
    using gb.walk_total [where host = "sv_Host svc" and one = one and req = req] Cons.prems(1) by metis
  from Cons.IH [OF w(2) i(3)] w(1) show ?case by (simp add: getGraphForModule_def)
qed

end

section \<open>The two versions in step\<close>

text \<open>The same graph: the same commits in the same order, and the same edges.\<close>

definition graphIds :: "graph \<Rightarrow> string list" where
  "graphIds g = map (\<lambda>gc. pc_Id (gc_Commit gc)) (gr_Commits g)"

definition graphEdges :: "graph \<Rightarrow> (string \<times> string) list" where
  "graphEdges g = map (\<lambda>e. (gn_CommitId (ge_FromNode e), gn_CommitId (ge_ToNode e))) (gr_Edges g)"

definition sameGraph :: "graph \<Rightarrow> graphV1 \<Rightarrow> bool" where
  "sameGraph g h \<longleftrightarrow> graphIds g = map pc_Id (g1_Commits h) \<and> graphEdges g = g1_Edges h"

definition inStep :: "nat \<Rightarrow> commitMap \<times> graph \<Rightarrow> commitMap \<times> graphV1 \<Rightarrow> bool" where
  "inStep n st su \<longleftrightarrow> coreB1 st = coreV1 su \<and> n \<le> length (co_Nodes (coreV1 su))"

lemma inStep_graph: "inStep n st su \<Longrightarrow> sameGraph (snd st) (snd su)"
  by (auto simp: inStep_def coreB1_def coreV1_def sameGraph_def graphIds_def graphEdges_def)

lemma inStep_seen: "inStep n st su \<Longrightarrow> (fst st k \<noteq> None) = (fst su k \<noteq> None)"
proof -
  assume "inStep n st su"
  then have "map_option pc_Id (fst st k) = map_option pc_Id (fst su k)"
    by (auto simp: inStep_def coreB1_def coreV1_def dest: fun_cong [where x = k])
  then show ?thesis by (metis option.map_disc_iff)
qed

lemma inStep_nth:
  "inStep n st su \<Longrightarrow> i < n \<Longrightarrow> pc_Id (gc_Commit (gr_Commits (snd st) ! i)) = pc_Id (g1_Commits (snd su) ! i)"
proof -
  assume s: "inStep n st su" and i: "i < n"
  then have ids: "map (\<lambda>gc. pc_Id (gc_Commit gc)) (gr_Commits (snd st)) = map pc_Id (g1_Commits (snd su))"
    by (auto simp: inStep_def coreB1_def coreV1_def)
  moreover from this have "length (gr_Commits (snd st)) = length (g1_Commits (snd su))" by (metis length_map)
  moreover have "i < length (g1_Commits (snd su))" using s i by (simp add: inStep_def coreV1_def)
  ultimately show ?thesis by (metis nth_map)
qed

lemma inStep_visit:
  "inStep n st su \<Longrightarrow> pc_Id x = pc_Id y \<Longrightarrow> inStep n (visitDep host cid d x st) (visitDepV1 cid d y su)"
  using length_coreVisit [of "coreV1 su" cid d "pc_Id y"]
  by (auto simp: inStep_def coreB1_visit coreV1_visit)

lemma inStep_add:
  "inStep n st su \<Longrightarrow> pc_Id x = pc_Id y \<Longrightarrow> inStep (Suc n) (addTop host info x st) (addTopV1 info y su)"
  by (auto simp: inStep_def coreB1_add coreV1_add coreAdd_def)

lemma storedDep_digest:
  "d \<in> set (storedDepLoop B s host ids []) \<Longrightarrow> \<exists>bs. bd_Digest d = ''shake256:'' @ EncodeToString bs"
  by (erule storedDepLoop_all [rotated 2]) (auto simp: Digest_Hex_def)

context backend_laws
begin

lemma walks_agree:
  "inStep k st su \<Longrightarrow>
   rel_option (rel_sum (=) (inStep k)) (depWalk (walkerB1 B s host) n info cid st) (depWalk (walkerV1 B s host) n info cid su)"
proof (rule depWalk_simulation)
  fix info cid ds d
  assume "w_deps (walkerV1 B s host) info cid = Inr ds" "d \<in> set ds"
  then have "\<exists>bs. bd_Digest d = ''shake256:'' @ EncodeToString bs"
    using storedDep_digest by (auto simp: walkerV1_def getStoredDeps_def split: sum.splits)
  then obtain bs where bs: "bd_Digest d = ''shake256:'' @ EncodeToString bs" by blast
  have "\<exists>x. depCommitObject d = Inr x \<and> pc_Id x = bd_Commit d"
    unfolding depCommitObject_def bs TrimPrefix_append by (simp add: getCommitObject_def Let_def)
  then show "\<exists>x y. w_commit (walkerB1 B s host) d = Inr x \<and> w_commit (walkerV1 B s host) d = Inr y \<and> pc_Id x = pc_Id y"
    using createV1CommitFromDep_Id by (auto simp: walkerB1_def walkerV1_def)
qed (auto simp: walkerB1_def walkerV1_def inStep_visit dest: inStep_seen)

lemma targets_agree:
  "rel_sum (=) (rel_option (rel_prod (=) sameCommit))
     (refTarget (getModuleAndCommitByID B s) (getModuleAndCommitByName B s) ref)
     (refTarget (getModuleAndCommitByIDV1 B s) (getModuleAndCommitByNameV1 B s) ref)"
  by (auto simp: refTarget_def getModuleAndCommitByID_def getModuleAndCommitByIDV1_def
      getModuleAndCommitByName_def getModuleAndCommitByNameV1_def commitObject_ok
      sameCommit_def getCommitObjectV1_def split: option.split resourceRef.split sum.split)

lemma graphRefs_agree:
  "inStep (length infos) st su \<Longrightarrow>
   rel_sum (=) (\<lambda>(is, x) (js, y). is = js \<and> inStep (length is) x y)
     (graphRefs B svc s refs infos st) (graphRefsV1 B svc s refs infos su)"
proof (induction refs arbitrary: infos st su)
  case Nil
  then show ?case by simp
next
  case (Cons ref refs)
  from targets_agree [of s ref] show ?case
  proof (cases rule: rel_sum.cases)
    case (1 e f)
    then show ?thesis by (simp add: graphRefs_Cons graphRefsV1_Cons)
  next
    case (2 a b)
    then show ?thesis using Cons
      by (cases a; cases b)
        (auto simp: graphRefs_Cons graphRefsV1_Cons sameCommit_def intro!: Cons.IH inStep_add)
  qed
qed

lemma graphModules_agree:
  "inStep k st su \<Longrightarrow> i + length infos \<le> k \<Longrightarrow>
   rel_option (rel_sum (=) (inStep k)) (graphModules B svc n s i infos st) (graphModulesV1 B svc n s i infos su)"
proof (induction infos arbitrary: i st su)
  case Nil
  then show ?case by simp
next
  case (Cons info infos)
  let ?c = "gc_Commit (gr_Commits (snd st) ! i)" and ?d = "g1_Commits (snd su) ! i"
  have ids: "pc_Id ?c = pc_Id ?d" using Cons.prems by (intro inStep_nth [of k]) auto
  have rest: "rel_option (rel_sum (=) (inStep k)) (graphModules B svc n s (Suc i) infos st')
      (graphModulesV1 B svc n s (Suc i) infos su')" if "inStep k st' su'" for st' su'
    using that Cons.prems(2) by (intro Cons.IH) auto
  from walks_agree [OF Cons.prems(1), of s "sv_Host svc" n info "pc_Id ?d"] show ?case
    by (cases rule: rel_res_cases) (simp_all add: getGraphForModule_def getGraphForModuleV1_def ids rest)
qed

end

section \<open>GetGraph\<close>

definition resolvable :: "'s backend \<Rightarrow> 's \<Rightarrow> resourceRef option list \<Rightarrow> bool" where
  "resolvable B s refs \<longleftrightarrow>
     (\<forall>ref \<in> set refs. \<forall>e. refTarget (getModuleAndCommitByID B s) (getModuleAndCommitByName B s) ref \<noteq> Inl e)"

lemma graphRefs_resolvable: "(\<exists>x. graphRefs B svc s refs infos st = Inr x) \<longleftrightarrow> resolvable B s refs"
  by (induction refs arbitrary: infos st)
    (auto simp: resolvable_def graphRefs_Cons split: sum.split option.split simp del: graphRefs.simps(2))

definition enoughFuel :: "store \<Rightarrow> nat \<Rightarrow> bool" where
  "enoughFuel st fuel \<longleftrightarrow> card (dom (vModules st)) < fuel"

context backend_laws
begin

lemma GetGraph_total:
  assumes ok: "modulesOK (view s)" and sf: "slashFree (view s)" and n: "enoughFuel (view s) n"
    and refs: "graphRefs B svc s refs [] (Map.empty, \<lparr>gr_Commits = [], gr_Edges = []\<rparr>) = Inr (infos, st)"
  shows "\<exists>st'. graphModules B svc n s 0 infos st = Some (Inr st') \<and>
    walkInv (view s) (distinct (map (\<lambda>p. infoKey (fst p)) (requested B s refs))) (requested B s refs) (coreB1 st')"
proof -
  let ?req = "requested B s refs"
  have "coreB1 (Map.empty, \<lparr>gr_Commits = [], gr_Edges = []\<rparr>) = \<lparr>co_Map = Map.empty, co_Nodes = [], co_Edges = []\<rparr>"
    by (simp add: coreB1_def)
  then have r: "infos = map fst ?req" "refsInv (view s) ?req (coreB1 st)"
    using graphRefs_inv [OF ok, of svc refs "[]"] refs refsInv_empty by auto
  show ?thesis
    using graphModules_total [OF _ refsInv_walkInv [OF r(2) sf], of n 0 ?req svc] r(1) n
    by (auto simp: enoughFuel_def)
qed

lemma GetGraph_defined:
  assumes ok: "modulesOK (view s)" and sf: "slashFree (view s)" and n: "enoughFuel (view s) n"
  shows "\<exists>r. Svc_GetGraph B svc n s refs = Some r \<and> ((\<exists>g. r = Inr g) \<longleftrightarrow> sv_casReg svc \<and> resolvable B s refs)"
proof (cases "graphRefs B svc s refs [] (Map.empty, \<lparr>gr_Commits = [], gr_Edges = []\<rparr>)")
  case (Inl e)
  then have "\<not> resolvable B s refs" using graphRefs_resolvable [of B svc s refs] by (metis sum.distinct(1))
  then show ?thesis using Inl by (auto simp: Svc_GetGraph_def)
next
  case (Inr x)
  then have res: "resolvable B s refs" using graphRefs_resolvable [of B svc s refs] by metis
  obtain infos st where x: "x = (infos, st)" by (cases x)
  obtain st' where "graphModules B svc n s 0 infos st = Some (Inr st')"
    using GetGraph_total [OF ok sf n Inr [unfolded x]] by blast
  then show ?thesis using Inr x res by (auto simp: Svc_GetGraph_def)
qed

lemma GetGraph_walkInv:
  assumes ok: "modulesOK (view s)" and sf: "slashFree (view s)" and run: "Svc_GetGraph B svc n s refs = Some (Inr g)"
  shows "\<exists>m. walkInv (view s) (distinct (map (\<lambda>p. infoKey (fst p)) (requested B s refs))) (requested B s refs) (coreB1 (m, g))"
proof -
  let ?m = "max n (Suc (card (dom (vModules (view s)))))"
  have run': "Svc_GetGraph B svc ?m s refs = Some (Inr g)" using GetGraph_fuel [OF _ run] by simp
  have "enoughFuel (view s) ?m" by (simp add: enoughFuel_def less_max_iff_disj)
  note total = GetGraph_total [OF ok sf this, of svc refs]
  from run' obtain infos st where refs: "graphRefs B svc s refs [] (Map.empty, \<lparr>gr_Commits = [], gr_Edges = []\<rparr>) = Inr (infos, st)"
    by (auto simp: Svc_GetGraph_def split: if_splits sum.splits)
  from total [OF this] obtain st' where st': "graphModules B svc ?m s 0 infos st = Some (Inr st')"
    "walkInv (view s) (distinct (map (\<lambda>p. infoKey (fst p)) (requested B s refs))) (requested B s refs) (coreB1 st')" by blast
  then have "snd st' = g" using run' refs by (auto simp: Svc_GetGraph_def split: if_splits)
  then show ?thesis using st'(2) by (intro exI [of _ "fst st'"]) auto
qed

end

lemma graph_agree:
  assumes "backend_laws B view"
  shows "rel_option (rel_sum (=) sameGraph) (Svc_GetGraph B svc fuel s refs) (SvcV1_GetGraph B svc fuel s refs)"
proof -
  let ?st = "(Map.empty, \<lparr>gr_Commits = [], gr_Edges = []\<rparr>)" and ?su = "(Map.empty, \<lparr>g1_Commits = [], g1_Edges = []\<rparr>)"
  have "inStep (length []) ?st ?su" by (simp add: inStep_def coreB1_def coreV1_def)
  from backend_laws.graphRefs_agree [OF assms this, of svc s refs] show ?thesis
  proof (cases rule: rel_sum.cases)
    case (1 e f)
    then show ?thesis by (simp add: Svc_GetGraph_def SvcV1_GetGraph_def)
  next
    case (2 a b)
    then obtain infos st su where ab: "a = (infos, st)" "b = (infos, su)" "inStep (length infos) st su" by auto
    from backend_laws.graphModules_agree [OF assms ab(3), of 0 infos svc fuel s] show ?thesis
      by (cases rule: rel_res_cases)
        (simp_all add: Svc_GetGraph_def SvcV1_GetGraph_def 2 ab inStep_graph)
  qed
qed

lemma coreOne_keys: "coreInv kf g \<Longrightarrow> coreOne g \<Longrightarrow> distinct (map kf (co_Nodes g))"
proof -
  assume inv: "coreInv kf g" and one: "coreOne g"
  have "x = y" if xy: "x \<in> set (co_Nodes g)" "y \<in> set (co_Nodes g)" "kf x = kf y" for x y
  proof -
    obtain k l where "co_Map g k = Some x" "co_Map g l = Some y" using one xy by (auto simp: coreOne_def ran_def)
    then show ?thesis using coreInvD [OF inv, of k x] coreInvD [OF inv, of l y] xy(3) by auto
  qed
  then show ?thesis using one by (auto simp: coreOne_def distinct_map inj_on_def)
qed

section \<open>A registry with cyclic dependencies\<close>

definition cyclicCommit :: "string \<Rightarrow> string \<Rightarrow> CommitDoc" where
  "cyclicCommit cid dep = (exampleCommit cid)\<lparr>cdoc_ModuleID := ModuleID (OwnerID ''acme'') ''pets'',
     cdoc_DepCommitIDs := [dep]\<rparr>"

definition cyclicStore :: mem where
  "cyclicStore = memEmpty\<lparr>m_modules := [moduleRecordToDoc (newModule ''acme'' ''pets'' [] 1)],
     m_commits := [cyclicCommit ''c1'' ''c2'', cyclicCommit ''c2'' ''c1'']\<rparr>"

lemma cyclicStore_ok: "modulesOK (memView cyclicStore)" "slashFree (memView cyclicStore)"
  by (auto simp: modulesOK_def slashFree_def cyclicStore_def memView_def memFind_def moduleRecordToDoc_def
      newModule_def ran_def split: if_splits)

lemma cyclicStore_fuel: "enoughFuel (memView cyclicStore) 2"
proof -
  have "dom (vModules (memView cyclicStore)) \<subseteq> {ModuleID (OwnerID ''acme'') ''pets''}"
    by (auto simp: cyclicStore_def memView_def memFind_def moduleRecordToDoc_def newModule_def split: if_splits)
  from card_mono [OF _ this] show ?thesis by (simp add: enoughFuel_def)
qed

lemma cyclicStore_stored:
  assumes "(cid, dep) \<in> {(''c1'', ''c2''), (''c2'', ''c1'')}"
  shows "\<exists>c. Reg_ModuleByCommitID memBackend cyclicStore cid = Inr \<lparr>mod_record = newModule ''acme'' ''pets'' [] 1\<rparr> \<and>
     Mod_CommitByID memBackend cyclicStore \<lparr>mod_record = newModule ''acme'' ''pets'' [] 1\<rparr> cid = Inr c \<and>
     c_ID c = cid \<and> c_DepCommitIDs c = [dep]"
proof -
  let ?d = "cyclicCommit cid dep" and ?m = "\<lparr>mod_record = newModule ''acme'' ''pets'' [] 1\<rparr>"
  obtain rcd where rcd: "commitDocToRecord ?d = Inr rcd"
    by (simp add: cyclicCommit_def exampleCommit_def commitDocToRecord_def ParseDigest_def fromHexChar_def)
  have d: "vCommits (memView cyclicStore) cid = Some ?d"
    using assms by (auto simp: cyclicStore_def memView_def memFind_def cyclicCommit_def exampleCommit_def)
  have f: "commit_ModuleID rcd = Module_ID ?m" "commit_ID rcd = cid" "commit_DepCommitIDs rcd = [dep]"
    using commitDocToRecord_fields [OF rcd]
    by (simp_all add: cyclicCommit_def exampleCommit_def Module_ID_def newModule_def)
  have "vModules (memView cyclicStore) (Module_ID ?m) = Some (moduleRecordToDoc (mod_record ?m))"
    by (simp add: cyclicStore_def memView_def memFind_def Module_ID_def moduleRecordToDoc_def)
  from mem.ModuleByCommitID_stored [OF d rcd f(1) this]
  show ?thesis using mem.Mod_CommitByID_stored [OF d rcd refl, of ?m] f by (auto simp: toCommit_def)
qed

lemma cyclicStore_target:
  "\<exists>c. refTarget (getModuleAndCommitByID memBackend cyclicStore) (getModuleAndCommitByName memBackend cyclicStore)
     (Some (RR_Id ''c1'')) = Inr (Some (\<lparr>mi_Owner = ''acme'', mi_Name = ''pets''\<rparr>, c)) \<and> pc_Id c = ''c1''"
  using cyclicStore_stored [of "''c1''" "''c2''"]
  by (auto simp: refTarget_def getModuleAndCommitByID_def commitObject_ok Module_Owner_def Module_Name_def newModule_def)

lemma cyclicStore_resolvable: "resolvable memBackend cyclicStore [Some (RR_Id ''c1'')]"
  using cyclicStore_target by (auto simp: resolvable_def)

lemma cyclicStore_requested:
  "requested memBackend cyclicStore [Some (RR_Id ''c1'')] = [(\<lparr>mi_Owner = ''acme'', mi_Name = ''pets''\<rparr>, ''c1'')]"
  using cyclicStore_target by auto

section \<open>Properties\<close>

text \<open>
  C13. The v1beta1 and v1 graph services agree: on every request they fail with the same
  error or return the same commits in the same order and the same edges.
\<close>

theorem graph_versions_agree:
  assumes "backend_laws B view"
  shows "rel_option (rel_sum (=) sameGraph) (Svc_GetGraph B svc fuel s refs) (SvcV1_GetGraph B svc fuel s refs)"
  by (rule graph_agree [OF assms])

theorem graph_versions_agree_witness:
  "rel_option (rel_sum (=) sameGraph)
     (Svc_GetGraph memBackend \<lparr>sv_casReg = True, sv_Host = ''h''\<rparr> 1 memEmpty [Some (RR_Id ''c'')])
     (SvcV1_GetGraph memBackend \<lparr>sv_casReg = True, sv_Host = ''h''\<rparr> 1 memEmpty [Some (RR_Id ''c'')])"
  by (rule graph_versions_agree [OF mem.backend_laws_axioms])

text \<open>
  C12. The recursive walk ends: on a registry whose owner names have no slash, \<open>GetGraph\<close>
  in both versions returns, with the same result for any bound on the recursion above the
  number of modules, also when the stored dependencies are cyclic; and it fails only if
  storage is not configured or a requested reference does not resolve.
\<close>

theorem graph_returns:
  assumes "backend_laws B view" and "modulesOK (view s)" and "slashFree (view s)"
  shows "\<exists>r r1. (\<forall>fuel. enoughFuel (view s) fuel \<longrightarrow>
        Svc_GetGraph B svc fuel s refs = Some r \<and> SvcV1_GetGraph B svc fuel s refs = Some r1) \<and>
      rel_sum (=) sameGraph r r1 \<and> ((\<exists>g. r = Inr g) \<longleftrightarrow> sv_casReg svc \<and> resolvable B s refs)"
proof -
  let ?n = "Suc (card (dom (vModules (view s))))"
  have "enoughFuel (view s) ?n" by (simp add: enoughFuel_def)
  from backend_laws.GetGraph_defined [OF assms this] obtain r where r: "Svc_GetGraph B svc ?n s refs = Some r"
    "(\<exists>g. r = Inr g) \<longleftrightarrow> sv_casReg svc \<and> resolvable B s refs" by blast
  with graph_agree [OF assms(1), of svc ?n s refs] obtain r1 where
    r1: "SvcV1_GetGraph B svc ?n s refs = Some r1" "rel_sum (=) sameGraph r r1"
    by (auto elim: option.rel_cases)
  have "Svc_GetGraph B svc fuel s refs = Some r \<and> SvcV1_GetGraph B svc fuel s refs = Some r1"
    if "enoughFuel (view s) fuel" for fuel
    using that GetGraph_fuel [OF _ r(1)] GetGraphV1_fuel [OF _ r1(1)] by (simp add: enoughFuel_def)
  then show ?thesis using r(2) r1(2) by (intro exI [of _ r] exI [of _ r1]) simp
qed

theorem graph_returns_witness:
  "\<exists>g. Svc_GetGraph memBackend \<lparr>sv_casReg = True, sv_Host = ''h''\<rparr> 2 cyclicStore [Some (RR_Id ''c1'')] = Some (Inr g)"
  using graph_returns [OF mem.backend_laws_axioms cyclicStore_ok,
      where refs = "[Some (RR_Id ''c1'')]" and svc = "\<lparr>sv_casReg = True, sv_Host = ''h''\<rparr>"] cyclicStore_fuel cyclicStore_resolvable
  by fastforce

text \<open>
  C11. What \<open>GetGraph\<close> returns: every edge points to a commit of the graph; the first
  commits are those of the requested modules in their order, each at least as new as the
  requested commit; and if the requested modules are distinct there is one commit per
  module.
\<close>

theorem graph_resolved:
  assumes "backend_laws B view" and "modulesOK (view s)" and "slashFree (view s)"
    and "Svc_GetGraph B svc fuel s refs = Some (Inr g)"
  shows "(\<forall>e \<in> set (graphEdges g). snd e \<in> set (graphIds g))
     \<and> length (requested B s refs) \<le> length (graphIds g)
     \<and> (\<forall>j < length (requested B s refs). snd (requested B s refs ! j) \<le> graphIds g ! j
          \<and> commitKey (view s) (graphIds g ! j) = Some (infoKey (fst (requested B s refs ! j))))
     \<and> (distinct (map (\<lambda>p. infoKey (fst p)) (requested B s refs)) \<longrightarrow>
          distinct (map (commitKey (view s)) (graphIds g)))"
proof -
  let ?req = "requested B s refs"
  obtain m where inv: "walkInv (view s) (distinct (map (\<lambda>p. infoKey (fst p)) ?req)) ?req (coreB1 (m, g))"
    using backend_laws.GetGraph_walkInv [OF assms] by blast
  let ?c = "coreB1 (m, g)"
  have nodes: "co_Nodes ?c = graphIds g" and edges: "co_Edges ?c = graphEdges g"
    by (simp_all add: coreB1_def graphIds_def graphEdges_def)
  have core: "coreInv (commitKey (view s)) ?c" and t: "tops (view s) ?req ?c" using inv by (auto simp: walkInv_def)
  have to: "snd e \<in> set (graphIds g)" if "e \<in> set (graphEdges g)" for e
    using coreInv_edge [OF core, of e] coreInvD [OF core] that by (auto simp: edges nodes)
  have top: "snd (?req ! j) \<le> graphIds g ! j \<and> commitKey (view s) (graphIds g ! j) = Some (infoKey (fst (?req ! j)))"
    if "j < length ?req" for j
    using that t knownCommit_key by (auto simp: tops_def nodes infoKey_def)
  have one: "distinct (map (commitKey (view s)) (graphIds g))" if "distinct (map (\<lambda>p. infoKey (fst p)) ?req)"
    using inv that coreOne_keys [OF core] by (simp add: walkInv_def nodes)
  show ?thesis using to top one t by (auto simp: tops_def nodes)
qed

theorem graph_resolved_witness:
  "\<exists>g. Svc_GetGraph memBackend \<lparr>sv_casReg = True, sv_Host = ''h''\<rparr> 2 cyclicStore [Some (RR_Id ''c1'')] = Some (Inr g)
     \<and> (\<exists>i. graphIds g ! 0 = i \<and> ''c1'' \<le> i)"
proof -
  let ?svc = "\<lparr>sv_casReg = True, sv_Host = ''h''\<rparr>" and ?refs = "[Some (RR_Id ''c1'')]"
  obtain g where g: "Svc_GetGraph memBackend ?svc 2 cyclicStore ?refs = Some (Inr g)"
    using mem.GetGraph_defined [OF cyclicStore_ok cyclicStore_fuel, of ?svc ?refs] cyclicStore_resolvable by auto
  show ?thesis
    using graph_resolved [OF mem.backend_laws_axioms cyclicStore_ok g, unfolded cyclicStore_requested] g
    by auto
qed

section \<open>The edges of a module\<close>

text \<open>
  What a stretch of the walk adds to the graph, when it reads the dependencies \<open>ds\<close> of the commit \<open>cid\<close> and
  walks the commits \<open>W\<close>.  Edges are seen with the module of their target, which a redirection does not change.
  The modules of \<open>W\<close> are those that the stretch adds to the commit map, each with one commit, no newer than the
  chosen one, and with the edges of the stored dependencies of that commit.
\<close>

definition keyedEdges :: "store \<Rightarrow> core \<Rightarrow> (string \<times> string option) list" where
  "keyedEdges st g = map (\<lambda>e. (fst e, commitKey st (snd e))) (co_Edges g)"

definition targets :: "'a \<Rightarrow> ('a \<times> 'b) list \<Rightarrow> 'b list" where
  "targets c es = map snd (filter (\<lambda>e. fst e = c) es)"

lemma targets_simps [simp]:
  "targets c [] = []" "targets c (e # es) = (if fst e = c then snd e # targets c es else targets c es)"
  "targets c (es @ fs) = targets c es @ targets c fs"
  by (simp_all add: targets_def)

lemma targets_none: "c \<notin> fst ` set es \<Longrightarrow> targets c es = []"
  by (induction es) auto

definition expands :: "store \<Rightarrow> (moduleInfo \<Rightarrow> string \<Rightarrow> bufLockDep list res) \<Rightarrow> core \<Rightarrow> (string \<times> string option) list
    \<Rightarrow> string \<Rightarrow> bool" where
  "expands st depsOf g es w \<longleftrightarrow>
     (\<exists>info ds n. commitKey st w = Some (infoKey info) \<and> co_Map g (infoKey info) = Some n \<and> w \<le> n \<and>
        depsOf info w = Inr ds \<and> targets w es = map (\<lambda>d. Some (depKey d)) ds)"

definition keysOf :: "core \<Rightarrow> string option set" where
  "keysOf g = Some ` dom (co_Map g)"

lemma keysOf_visit [simp]: "keysOf (coreVisit cid d i g) = insert (Some (depKey d)) (keysOf g)"
  by (simp add: keysOf_def dom_coreVisit)

lemma disjoint_keys: "k ` S \<inter> A = {} \<Longrightarrow> k x \<in> A \<Longrightarrow> x \<notin> S"
  by blast

definition newer :: "core \<Rightarrow> core \<Rightarrow> bool" where
  "newer g g' \<longleftrightarrow> (\<forall>k i. co_Map g k = Some i \<longrightarrow> (\<exists>j. co_Map g' k = Some j \<and> i \<le> j))"

definition stretch :: "store \<Rightarrow> (moduleInfo \<Rightarrow> string \<Rightarrow> bufLockDep list res) \<Rightarrow> string \<Rightarrow> bufLockDep list \<Rightarrow> string set
    \<Rightarrow> core \<Rightarrow> core \<Rightarrow> bool" where
  "stretch st depsOf cid ds W g g' \<longleftrightarrow> newer g g' \<and>
     (\<exists>es. keyedEdges st g' = keyedEdges st g @ es \<and> fst ` set es \<subseteq> insert cid W \<and>
        targets cid es = map (\<lambda>d. Some (depKey d)) ds \<and> (\<forall>w \<in> W. expands st depsOf g' es w)) \<and>
     inj_on (commitKey st) W \<and>
     keysOf g' = keysOf g \<union> commitKey st ` W \<and>
     commitKey st ` W \<inter> keysOf g = {}"

lemma newer_refl [simp]: "newer g g"
  by (auto simp: newer_def)

lemma newer_trans: "newer f g \<Longrightarrow> newer g h \<Longrightarrow> newer f h"
  unfolding newer_def by (meson order_trans)

lemma newer_visit: "newer g (coreVisit cid d i g)"
  by (auto simp: newer_def coreVisit_def coreResolve_def Let_def split: option.split)

text \<open>A visit adds one edge, to the module of the dependency.\<close>

lemma keyedEdges_visit:
  assumes inv: "coreInv (commitKey st) g" and key: "commitKey st i = Some (depKey d)"
  shows "keyedEdges st (coreVisit cid d i g) = keyedEdges st g @ [(cid, Some (depKey d))]"
proof (cases "co_Map g (depKey d)")
  case None
  then show ?thesis using key by (simp add: keyedEdges_def coreVisit_def coreResolve_def)
next
  case (Some old)
  then have "commitKey st old = Some (depKey d)" using coreInvD [OF inv] by blast
  then show ?thesis using key Some
    by (auto simp: keyedEdges_def coreVisit_def coreResolve_def redirectEdgeV1_def Let_def comp_def)
qed

lemma stretch_refl [simp]: "stretch st depsOf cid [] {} g g"
  by (simp add: stretch_def)

lemma stretch_append:
  assumes cid: "commitKey st cid \<in> keysOf f"
    and s: "stretch st depsOf cid ds S f g" and t: "stretch st depsOf cid ds' T g h"
  shows "stretch st depsOf cid (ds @ ds') (S \<union> T) f h"
proof -
  let ?k = "commitKey st"
  obtain es where es: "keyedEdges st g = keyedEdges st f @ es" "fst ` set es \<subseteq> insert cid S"
    "targets cid es = map (\<lambda>d. Some (depKey d)) ds" "\<forall>w \<in> S. expands st depsOf g es w"
    using s by (auto simp: stretch_def)
  obtain fs where fs: "keyedEdges st h = keyedEdges st g @ fs" "fst ` set fs \<subseteq> insert cid T"
    "targets cid fs = map (\<lambda>d. Some (depKey d)) ds'" "\<forall>w \<in> T. expands st depsOf h fs w"
    using t by (auto simp: stretch_def)
  have dom: "keysOf g = keysOf f \<union> ?k ` S" "?k ` S \<inter> keysOf f = {}"
    "keysOf h = keysOf g \<union> ?k ` T" "?k ` T \<inter> keysOf g = {}"
    and inj: "inj_on ?k S" "inj_on ?k T" and new: "newer f g" "newer g h"
    using s t by (auto simp: stretch_def)
  have S: "w \<notin> insert cid T" if "w \<in> S" for w
    using that dom(1,2) cid disjoint_keys [OF dom(2), of cid] disjoint_keys [OF dom(4), of w] by auto
  have T: "w \<notin> insert cid S" if "w \<in> T" for w
    using that dom(1,4) cid disjoint_keys [OF dom(4), of cid] disjoint_keys [OF dom(4), of w] by auto
  have "expands st depsOf h (es @ fs) w" if w: "w \<in> S \<union> T" for w
  proof (cases "w \<in> S")
    case True
    then have "targets w fs = []" using S fs(2) by (intro targets_none) auto
    then show ?thesis using es(4) True new(2) unfolding expands_def newer_def by (fastforce intro: order_trans)
  next
    case False
    then have "w \<in> T" using w by blast
    moreover from this have "targets w es = []" using T es(2) by (intro targets_none) auto
    ultimately show ?thesis using fs(4) by (auto simp: expands_def)
  qed
  moreover have "inj_on ?k (S \<union> T)" using inj dom unfolding inj_on_Un by blast
  moreover have "newer f h" using new by (rule newer_trans)
  ultimately show ?thesis
    unfolding stretch_def using es(1-3) fs(1-3) dom
    by (intro conjI exI [of _ "es @ fs"]) auto
qed

text \<open>A dependency whose module was seen before, and one whose module is walked.\<close>

lemma stretch_seen:
  assumes "coreInv (commitKey st) g" "commitKey st i = Some (depKey d)" "depKey d \<in> dom (co_Map g)"
  shows "stretch st depsOf cid [d] {} g (coreVisit cid d i g)"
  unfolding stretch_def using assms(3)
  by (auto simp: newer_visit keyedEdges_visit [OF assms(1,2)] keysOf_def dom_coreVisit)

lemma stretch_walked:
  assumes inv: "coreInv (commitKey st) g" and key: "commitKey st i = Some (infoKey info)" "depKey d = infoKey info"
    and new: "depKey d \<notin> dom (co_Map g)" and cid: "commitKey st cid \<in> keysOf g"
    and ds: "depsOf info i = Inr ds" and walk: "stretch st depsOf i ds S (coreVisit cid d i g) h"
  shows "stretch st depsOf cid [d] (insert i S) g h"
proof -
  let ?k = "commitKey st" and ?g = "coreVisit cid d i g"
  obtain es where es: "keyedEdges st h = keyedEdges st ?g @ es" "fst ` set es \<subseteq> insert i S"
    "targets i es = map (\<lambda>d. Some (depKey d)) ds" "\<forall>w \<in> S. expands st depsOf h es w"
    using walk by (auto simp: stretch_def)
  have dom: "keysOf h = insert (?k i) (keysOf g) \<union> ?k ` S"
    "?k ` S \<inter> insert (?k i) (keysOf g) = {}"
    and inj: "inj_on ?k S" and new': "newer ?g h"
    using walk key by (auto simp: stretch_def)
  have i: "?k i \<notin> keysOf g" using new key by (auto simp: keysOf_def)
  have disj: "i \<notin> S" "cid \<notin> insert i S"
    using disjoint_keys [OF dom(2), of i] disjoint_keys [OF dom(2), of cid] i cid by auto
  have "co_Map ?g (infoKey info) = Some i" using new key by (simp add: coreVisit_def coreResolve_def domIff)
  then obtain n where "co_Map h (infoKey info) = Some n" "i \<le> n" using new' unfolding newer_def by blast
  then have "expands st depsOf h ((cid, Some (depKey d)) # es) i"
    unfolding expands_def using es(3) ds key disj by auto
  moreover have "expands st depsOf h ((cid, Some (depKey d)) # es) w" if "w \<in> S" for w
    using es(4) that disj by (auto simp: expands_def)
  moreover have "targets cid es = []" using es(2) disj by (intro targets_none) auto
  moreover have "newer g h" using newer_visit new' by (rule newer_trans)
  moreover have "keyedEdges st h = keyedEdges st g @ (cid, Some (depKey d)) # es"
    using es(1) keyedEdges_visit [OF inv, of i d cid] key by simp
  ultimately show ?thesis
    unfolding stretch_def using es(2) dom inj i key
    by (intro conjI exI [of _ "(cid, Some (depKey d)) # es"]) auto
qed

text \<open>
  The loop over the requested modules: \<open>T\<close> are the commits walked so far, \<open>rest\<close> the modules still to come.
\<close>

definition walked :: "store \<Rightarrow> (moduleInfo \<Rightarrow> string \<Rightarrow> bufLockDep list res) \<Rightarrow> string set \<Rightarrow> (moduleInfo \<times> string) list \<Rightarrow> core \<Rightarrow> bool" where
  "walked st depsOf T rest g \<longleftrightarrow>
     fst ` set (keyedEdges st g) \<subseteq> T \<and>
     (\<forall>w \<in> T. expands st depsOf g (keyedEdges st g) w) \<and>
     inj_on (commitKey st) T \<and>
     keysOf g = commitKey st ` T \<union> (\<lambda>p. Some (infoKey (fst p))) ` set rest \<and>
     commitKey st ` T \<inter> (\<lambda>p. Some (infoKey (fst p))) ` set rest = {}"

lemma walked_step:
  assumes w: "walked st depsOf T (p # rest) g" and dist: "infoKey (fst p) \<notin> (\<lambda>p. infoKey (fst p)) ` set rest"
    and cid: "co_Map g (infoKey (fst p)) = Some cid" "commitKey st cid = Some (infoKey (fst p))"
    and ds: "depsOf (fst p) cid = Inr ds"
    and walk: "stretch st depsOf cid ds S g h"
  shows "walked st depsOf (insert cid (T \<union> S)) rest h"
proof -
  let ?k = "commitKey st" and ?K = "keyedEdges st" and ?R = "(\<lambda>p. Some (infoKey (fst p))) ` set rest"
  obtain es where es: "?K h = ?K g @ es" "fst ` set es \<subseteq> insert cid S"
    "targets cid es = map (\<lambda>d. Some (depKey d)) ds" "\<forall>w \<in> S. expands st depsOf h es w"
    and new: "newer g h" and inj: "inj_on ?k S" and dom: "keysOf h = keysOf g \<union> ?k ` S" "?k ` S \<inter> keysOf g = {}"
    using walk by (auto simp: stretch_def)
  have T: "fst ` set (?K g) \<subseteq> T" "\<forall>w \<in> T. expands st depsOf g (?K g) w" "inj_on ?k T"
    "keysOf g = ?k ` T \<union> insert (?k cid) ?R" "?k ` T \<inter> insert (?k cid) ?R = {}"
    using w cid(2) by (simp_all add: walked_def)
  have kcid: "?k cid \<in> keysOf g" "?k cid \<notin> ?R" using T(4) dist cid(2) by auto
  have disj: "cid \<notin> S" "cid \<notin> T" "T \<inter> S = {}"
    using disjoint_keys [OF dom(2) kcid(1)] T(5) dom(2) T(4) by auto
  have "expands st depsOf h (?K g @ es) x" if x: "x \<in> insert cid (T \<union> S)" for x
  proof -
    consider "x = cid" | "x \<in> T" | "x \<in> S" using x by blast
    then show ?thesis
    proof cases
      case 1
      have "targets cid (?K g) = []" using T(1) disj by (intro targets_none) auto
      moreover obtain n where "co_Map h (infoKey (fst p)) = Some n" "cid \<le> n" using new cid(1) unfolding newer_def by blast
      ultimately show ?thesis using cid(2) ds es(3) by (auto simp: expands_def 1)
    next
      case 2
      then have "targets x es = []" using es(2) disj by (intro targets_none) auto
      then show ?thesis using T(2) 2 new unfolding expands_def newer_def by (fastforce intro: order_trans)
    next
      case 3
      then have "targets x (?K g) = []" using T(1) disj by (intro targets_none) auto
      then show ?thesis using es(4) 3 by (auto simp: expands_def)
    qed
  qed
  moreover have "inj_on ?k (insert cid (T \<union> S))"
  proof -
    have "?k ` T \<inter> ?k ` S = {}" "?k cid \<notin> ?k ` S" "?k cid \<notin> ?k ` T" using dom(2) T(4,5) kcid(1) by auto
    then show ?thesis using inj T(3) disj by (auto simp: inj_on_Un inj_on_insert)
  qed
  moreover have "keysOf h = ?k ` insert cid (T \<union> S) \<union> ?R" using dom(1) T(4) by auto
  moreover have "?k ` insert cid (T \<union> S) \<inter> ?R = {}" using dom(2) T(4,5) kcid(2) by auto
  moreover have "fst ` set (?K h) \<subseteq> insert cid (T \<union> S)" using es(1,2) T(1) by auto
  ultimately show ?thesis unfolding walked_def es(1) by blast
qed

context backend_laws
begin

lemma getStoredDeps_remote: "getStoredDeps B s host info cid = Inr ds \<Longrightarrow> d \<in> set ds \<Longrightarrow> bd_Remote d = host"
proof -
  assume "getStoredDeps B s host info cid = Inr ds" "d \<in> set ds"
  then obtain ids where "d \<in> set (storedDepLoop B s host ids [])"
    by (auto simp: getStoredDeps_def split: sum.splits)
  from storedDepLoop_all [OF _ _ this, where P = "\<lambda>d. bd_Remote d = host"] show ?thesis by simp
qed

lemma loop_stretch:
  fixes host :: string and s
  defines "R \<equiv> \<lambda>cid ds st st'. \<exists>S. stretch (view s) (getStoredDeps B s host) cid ds S (coreB1 st) (coreB1 st')
    \<and> coreInv (commitKey (view s)) (coreB1 st')"
  assumes walk: "\<And>info cid st st'. knownCommit (view s) info cid \<Longrightarrow> coreInv (commitKey (view s)) (coreB1 st) \<Longrightarrow>
      commitKey (view s) cid \<in> keysOf (coreB1 st) \<Longrightarrow> depWalk (walkerB1 B s host) n info cid st = Some (Inr st') \<Longrightarrow>
      \<exists>ds. getStoredDeps B s host info cid = Inr ds \<and> R cid ds st st'"
  shows "\<forall>d \<in> set ds. goodDep (view s) d \<and> bd_Remote d = host \<Longrightarrow> coreInv (commitKey (view s)) (coreB1 st) \<Longrightarrow>
    commitKey (view s) cid \<in> keysOf (coreB1 st) \<Longrightarrow> depLoop (walkerB1 B s host) n cid ds st = Some (Inr st') \<Longrightarrow>
    R cid ds st st'"
proof (induction ds arbitrary: st)
  case Nil
  then show ?case unfolding R_def by (intro exI [of _ "{}"]) simp
next
  case (Cons d ds)
  let ?k = "commitKey (view s)"
  have d: "goodDep (view s) d" "bd_Remote d = host" using Cons.prems(1) by auto
  obtain c where c: "depCommitObject d = Inr c" "pc_Id c = bd_Commit d" using depCommitObject_good [OF d(1)] by blast
  let ?st1 = "visitDep host cid d c st"
  have core1: "coreB1 ?st1 = coreVisit cid d (bd_Commit d) (coreB1 st)" by (simp add: coreB1_visit c(2))
  have key: "?k (bd_Commit d) = Some (depKey d)" using goodDep_key [OF d(1)] by blast
  have inv1: "coreInv ?k (coreB1 ?st1)" unfolding core1 by (rule coreInv_visit [OF Cons.prems(2) key])
  have step: "\<exists>st2 S. stretch (view s) (getStoredDeps B s host) cid [d] S (coreB1 st) (coreB1 st2) \<and>
      coreInv ?k (coreB1 st2) \<and> depLoop (walkerB1 B s host) n cid ds st2 = Some (Inr st')"
  proof (cases "fst st (depKey d)")
    case (Some x)
    then have "depKey d \<in> dom (co_Map (coreB1 st))" by (simp add: coreB1_def domIff)
    note seen = stretch_seen [OF Cons.prems(2) key this, where cid = cid, folded core1]
    have "depLoop (walkerB1 B s host) n cid ds ?st1 = Some (Inr st')"
      using Cons.prems(4) Some c by (simp add: walkerB1_def Let_def)
    then show ?thesis using seen inv1 by blast
  next
    case None
    then have new: "depKey d \<notin> dom (co_Map (coreB1 st))" by (simp add: coreB1_def domIff)
    from Cons.prems(4) None obtain st2 where
      w: "depWalk (walkerB1 B s host) n (depInfo d) (bd_Commit d) ?st1 = Some (Inr st2)"
      and rest: "depLoop (walkerB1 B s host) n cid ds st2 = Some (Inr st')"
      by (auto simp: walkerB1_def c d(2) Let_def split: option.splits sum.splits)
    have info: "depKey d = infoKey (depInfo d)" by (simp add: depKey_def infoKey_def depInfo_def)
    have known: "knownCommit (view s) (depInfo d) (bd_Commit d)" using d(1) by (simp add: goodDep_def)
    have "?k (bd_Commit d) \<in> keysOf (coreB1 ?st1)" unfolding core1 by (simp add: key)
    from walk [OF known inv1 this w] obtain es S where
      es: "getStoredDeps B s host (depInfo d) (bd_Commit d) = Inr es"
      "stretch (view s) (getStoredDeps B s host) (bd_Commit d) es S (coreB1 ?st1) (coreB1 st2)"
      "coreInv ?k (coreB1 st2)"
      unfolding R_def by blast
    have "stretch (view s) (getStoredDeps B s host) cid [d] (insert (bd_Commit d) S) (coreB1 st) (coreB1 st2)"
      using stretch_walked [OF Cons.prems(2) _ info new Cons.prems(3) es(1) es(2) [unfolded core1]] key info by simp
    then show ?thesis using es(3) rest by blast
  qed
  then obtain st2 S where st2: "stretch (view s) (getStoredDeps B s host) cid [d] S (coreB1 st) (coreB1 st2)"
    "coreInv ?k (coreB1 st2)" "depLoop (walkerB1 B s host) n cid ds st2 = Some (Inr st')" by blast
  have "?k cid \<in> keysOf (coreB1 st2)" using st2(1) Cons.prems(3) by (auto simp: stretch_def)
  from Cons.IH [OF _ st2(2) this st2(3)] Cons.prems(1) obtain T where
    "stretch (view s) (getStoredDeps B s host) cid ds T (coreB1 st2) (coreB1 st')" "coreInv ?k (coreB1 st')"
    unfolding R_def by auto
  then show ?case unfolding R_def using stretch_append [OF Cons.prems(3) st2(1)] by fastforce
qed

lemma walk_stretch:
  "knownCommit (view s) info cid \<Longrightarrow> coreInv (commitKey (view s)) (coreB1 st) \<Longrightarrow>
   commitKey (view s) cid \<in> keysOf (coreB1 st) \<Longrightarrow> depWalk (walkerB1 B s host) n info cid st = Some (Inr st') \<Longrightarrow>
   \<exists>ds. getStoredDeps B s host info cid = Inr ds \<and>
     (\<exists>S. stretch (view s) (getStoredDeps B s host) cid ds S (coreB1 st) (coreB1 st')
       \<and> coreInv (commitKey (view s)) (coreB1 st'))"
proof (induction n arbitrary: info cid st st')
  case 0
  then show ?case by simp
next
  case (Suc n)
  obtain ds where ds: "getStoredDeps B s host info cid = Inr ds" "\<forall>d \<in> set ds. goodDep (view s) d"
    using getStoredDeps_known [OF Suc.prems(1)] by blast
  then have good: "\<forall>d \<in> set ds. goodDep (view s) d \<and> bd_Remote d = host" using getStoredDeps_remote by blast
  have "depLoop (walkerB1 B s host) n cid ds st = Some (Inr st')"
    using Suc.prems(4) ds(1) by (simp add: walkerB1_def)
  from loop_stretch [OF Suc.IH good Suc.prems(2,3) this] ds(1) show ?case by blast
qed

lemma graphModules_walked:
  assumes n: "card (dom (vModules (view s))) < n" and dist: "distinct (map (\<lambda>p. infoKey (fst p)) req)"
  shows "walkInv (view s) True req (coreB1 st) \<Longrightarrow> drop i req = rest \<Longrightarrow> walked (view s) (getStoredDeps B s (sv_Host svc)) T rest (coreB1 st) \<Longrightarrow>
     \<exists>st' T'. graphModules B svc n s i (map fst rest) st = Some (Inr st') \<and> walkInv (view s) True req (coreB1 st') \<and>
       walked (view s) (getStoredDeps B s (sv_Host svc)) T' [] (coreB1 st')"
proof (induction rest arbitrary: i st T)
  case Nil
  then show ?case by auto
next
  case (Cons p rest)
  let ?host = "sv_Host svc" and ?k = "commitKey (view s)"
  have i: "i < length req" "req ! i = p" "drop (Suc i) req = rest"
    using Cons.prems(2) by (auto simp: nth_via_drop drop_Suc tl_drop [symmetric]) (metis drop_all list.discI not_le)
  let ?cid = "pc_Id (gc_Commit (gr_Commits (snd st) ! i))"
  have inv: "coreInv ?k (coreB1 st)" and one: "coreOne (coreB1 st)" and t: "tops (view s) req (coreB1 st)"
    using Cons.prems(1) by (auto simp: walkInv_def)
  have len: "i < length (co_Nodes (coreB1 st))" using t i(1) by (simp add: tops_def)
  have cid: "co_Nodes (coreB1 st) ! i = ?cid" using len by (simp add: coreB1_def)
  have known: "knownCommit (view s) (fst p) ?cid" using t i cid by (auto simp: tops_def)
  then have key: "?k ?cid = Some (infoKey (fst p))" using knownCommit_key by (simp add: infoKey_def)
  have "?cid \<in> ran (co_Map (coreB1 st))" using one nth_mem [OF len] by (simp add: coreOne_def cid)
  then obtain l where "co_Map (coreB1 st) l = Some ?cid" by (auto simp: ran_def)
  then have top: "co_Map (coreB1 st) (infoKey (fst p)) = Some ?cid" using coreInvD [OF inv] key by force
  have "card (moduleKeys (view s) - dom (fst st)) < n"
    using card_moduleKeys n finite_moduleKeys by (meson card_Diff_subset_Int card_mono Diff_subset order_le_less_trans)
  then obtain st2 where w: "depWalk (walkerB1 B s ?host) n (fst p) ?cid st = Some (Inr st2)"
    "walkInv (view s) True req (coreB1 st2)"
    using gb.walk_total [where host = ?host and one = True and req = req] known Cons.prems(1) by metis
  have "?k ?cid \<in> keysOf (coreB1 st)" using top key by (auto simp: keysOf_def)
  from walk_stretch [OF known inv this w(1)] obtain ds S where ds: "getStoredDeps B s ?host (fst p) ?cid = Inr ds"
    "stretch (view s) (getStoredDeps B s ?host) ?cid ds S (coreB1 st) (coreB1 st2)" by blast
  have "distinct (map (\<lambda>p. infoKey (fst p)) (p # rest))"
    using dist Cons.prems(2) by (metis distinct_drop drop_map)
  then have "infoKey (fst p) \<notin> (\<lambda>p. infoKey (fst p)) ` set rest" by simp
  from Cons.IH [OF w(2) i(3) walked_step [OF Cons.prems(3) this top key ds]] w(1)
  show ?case by (simp add: getGraphForModule_def)
qed

lemma GetGraph_walked:
  assumes ok: "modulesOK (view s)" and sf: "slashFree (view s)" and run: "Svc_GetGraph B svc n s refs = Some (Inr g)"
    and dist: "distinct (map (\<lambda>p. infoKey (fst p)) (requested B s refs))"
  shows "\<exists>m T. walkInv (view s) True (requested B s refs) (coreB1 (m, g)) \<and> walked (view s) (getStoredDeps B s (sv_Host svc)) T [] (coreB1 (m, g))"
proof -
  let ?m = "max n (Suc (card (dom (vModules (view s)))))" and ?req = "requested B s refs"
  let ?st0 = "(Map.empty, \<lparr>gr_Commits = [], gr_Edges = []\<rparr>)"
  have run': "Svc_GetGraph B svc ?m s refs = Some (Inr g)" using GetGraph_fuel [OF _ run] by simp
  from run' obtain infos st where refs: "graphRefs B svc s refs [] ?st0 = Inr (infos, st)"
    by (auto simp: Svc_GetGraph_def split: if_splits sum.splits)
  have "coreB1 ?st0 = \<lparr>co_Map = Map.empty, co_Nodes = [], co_Edges = []\<rparr>" by (simp add: coreB1_def)
  then have r: "infos = map fst ?req" "refsInv (view s) ?req (coreB1 st)"
    using graphRefs_inv [OF ok, of svc refs "[]"] refs refsInv_empty by auto
  have w: "walked (view s) (getStoredDeps B s (sv_Host svc)) {} ?req (coreB1 st)"
    using r(2) by (auto simp: walked_def refsInv_def keyedEdges_def keysOf_def image_image)
  have i: "walkInv (view s) True ?req (coreB1 st)" using refsInv_walkInv [OF r(2) sf] dist by simp
  have c: "card (dom (vModules (view s))) < ?m" by (simp add: less_max_iff_disj)
  obtain st' T where "graphModules B svc ?m s 0 infos st = Some (Inr st')"
    "walkInv (view s) True ?req (coreB1 st')" "walked (view s) (getStoredDeps B s (sv_Host svc)) T [] (coreB1 st')"
    using graphModules_walked [OF c dist i drop_0 w] unfolding r(1) by blast
  moreover from this(1) have "snd st' = g" using run' refs by (auto simp: Svc_GetGraph_def split: if_splits)
  ultimately show ?thesis by (intro exI [of _ "fst st'"] exI [of _ T]) auto
qed

end

text \<open>
  C14. The dependencies in the graph are those of one version per module.  If the requested modules are distinct, then for every commit \<open>n\<close> of the graph
  there is one version \<open>v\<close> of its module, no newer than \<open>n\<close>, whose stored dependencies, in their order, are the
  edges from \<open>v\<close>, each to the chosen version of the dependency's module; and no other version of the module has any edge, so the graph
  has no edges but these.  The comment in the loop promises to recurse also into a
  module seen with another version, but the test \<open>!alreadySeen\<close> does not: when a newer version replaced the one that was walked (\<open>v\<close> is not
  \<open>n\<close>), its own dependencies are missing, and the edges of the module start at a commit that is not in
  the graph.
\<close>

theorem graph_edges:
  assumes "backend_laws B view" and "modulesOK (view s)" and "slashFree (view s)"
    and "Svc_GetGraph B svc fuel s refs = Some (Inr g)"
    and "distinct (map (\<lambda>p. infoKey (fst p)) (requested B s refs))"
  shows "(\<forall>n \<in> set (graphIds g). \<exists>info v ds.
       commitKey (view s) n = Some (infoKey info) \<and> commitKey (view s) v = Some (infoKey info) \<and> v \<le> n \<and>
       getStoredDeps B s (sv_Host svc) info v = Inr ds \<and>
       map (\<lambda>e. commitKey (view s) (snd e)) (filter (\<lambda>e. fst e = v) (graphEdges g)) = map (\<lambda>d. Some (depKey d)) ds \<and>
       (\<forall>e \<in> set (graphEdges g). commitKey (view s) (fst e) = Some (infoKey info) \<longrightarrow> fst e = v)) \<and>
     (\<forall>e \<in> set (graphEdges g). snd e \<in> set (graphIds g) \<and>
       (\<exists>n \<in> set (graphIds g). commitKey (view s) (fst e) = commitKey (view s) n))"
proof -
  let ?k = "commitKey (view s)"
  obtain m T where inv: "walkInv (view s) True (requested B s refs) (coreB1 (m, g))"
    and w: "walked (view s) (getStoredDeps B s (sv_Host svc)) T [] (coreB1 (m, g))"
    using backend_laws.GetGraph_walked [OF assms] by blast
  let ?c = "coreB1 (m, g)" and ?K = "keyedEdges (view s) (coreB1 (m, g))"
  have nodes: "co_Nodes ?c = graphIds g" and edges: "co_Edges ?c = graphEdges g"
    by (simp_all add: coreB1_def graphIds_def graphEdges_def)
  have core: "coreInv ?k ?c" and one: "coreOne ?c" using inv by (auto simp: walkInv_def)
  have T: "fst ` set ?K \<subseteq> T" "\<forall>w \<in> T. expands (view s) (getStoredDeps B s (sv_Host svc)) ?c ?K w" "inj_on ?k T"
    "keysOf ?c = ?k ` T"
    using w by (simp_all add: walked_def)
  have start: "fst e \<in> T" if "e \<in> set (graphEdges g)" for e
    using T(1) that by (force simp: keyedEdges_def edges)
  have t: "targets v ?K = map (\<lambda>e. ?k (snd e)) (filter (\<lambda>e. fst e = v) (graphEdges g))" for v
    by (simp add: targets_def keyedEdges_def edges filter_map comp_def)
  have first: "\<exists>info v ds. ?k n = Some (infoKey info) \<and> ?k v = Some (infoKey info) \<and> v \<le> n \<and>
       getStoredDeps B s (sv_Host svc) info v = Inr ds \<and> targets v ?K = map (\<lambda>d. Some (depKey d)) ds \<and>
       (\<forall>e \<in> set (graphEdges g). ?k (fst e) = Some (infoKey info) \<longrightarrow> fst e = v)"
    if n: "n \<in> set (graphIds g)" for n
  proof -
    obtain l where l: "co_Map ?c l = Some n" "?k n = Some l"
      using n one coreInvD [OF core] by (auto simp: coreOne_def nodes ran_def)
    then obtain v where v: "v \<in> T" "?k v = Some l" using T(4) by (force simp: keysOf_def)
    then obtain info ds where "infoKey info = l" "v \<le> n" "getStoredDeps B s (sv_Host svc) info v = Inr ds"
      "targets v ?K = map (\<lambda>d. Some (depKey d)) ds"
      using T(2) l by (auto simp: expands_def)
    moreover have "fst e = v" if "e \<in> set (graphEdges g)" "?k (fst e) = Some l" for e
      using inj_onD [OF T(3)] start [OF that(1)] that(2) v by simp
    ultimately show ?thesis using l(2) v(2) by blast
  qed
  have "snd e \<in> set (graphIds g) \<and> (\<exists>n \<in> set (graphIds g). ?k (fst e) = ?k n)" if e: "e \<in> set (graphEdges g)" for e
  proof -
    have "?k (fst e) \<in> keysOf ?c" using start [OF e] T(4) by blast
    then obtain l n where "?k (fst e) = Some l" "co_Map ?c l = Some n" by (auto simp: keysOf_def)
    then show ?thesis using coreInvD [OF core] coreInv_edge [OF core] e unfolding nodes edges by metis
  qed
  then show ?thesis using first unfolding t by blast
qed

text \<open>
  Requesting \<open>c1\<close> of the cyclic registry: its dependency, the newer \<open>c2\<close> of the same module, replaces it, but the
  dependency of \<open>c2\<close> is not read, and the only edge starts at \<open>c1\<close>.
\<close>

lemma cyclicStore_dep:
  "\<exists>d y. getStoredDeps memBackend cyclicStore ''h'' \<lparr>mi_Owner = ''acme'', mi_Name = ''pets''\<rparr> ''c1'' = Inr [d] \<and>
     depKey d = ''acme/pets'' \<and> bd_Remote d = ''h'' \<and> depCommitObject d = Inr y \<and> pc_Id y = ''c2''"
proof -
  let ?m = "\<lparr>mod_record = newModule ''acme'' ''pets'' [] 1\<rparr>" and ?info = "\<lparr>mi_Owner = ''acme'', mi_Name = ''pets''\<rparr>"
  obtain c1 c2 where c: "Mod_CommitByID memBackend cyclicStore ?m ''c1'' = Inr c1" "c_DepCommitIDs c1 = [''c2'']"
    "Reg_ModuleByCommitID memBackend cyclicStore ''c2'' = Inr ?m" "Mod_CommitByID memBackend cyclicStore ?m ''c2'' = Inr c2"
    using cyclicStore_stored [of "''c1''" "''c2''"] cyclicStore_stored [of "''c2''" "''c1''"] by auto
  have "vModules (memView cyclicStore) (ModuleID (OwnerID ''acme'') ''pets'') = Some (moduleRecordToDoc (mod_record ?m))"
    by (simp add: cyclicStore_def memView_def memFind_def moduleRecordToDoc_def newModule_def)
  from mem.Reg_Module_present [OF cyclicStore_ok(1) this]
  have m: "Reg_Module memBackend cyclicStore ''acme'' ''pets'' = Inr ?m"
    by (simp add: moduleRecordToDoc_def moduleDocToRecord_def newModule_def)
  let ?d = "\<lparr>bd_Remote = ''h'', bd_Owner = ''acme'', bd_Repository = ''pets'', bd_Commit = ''c2'',
    bd_Digest = ''shake256:'' @ Digest_Hex (c_FilesDigest c2)\<rparr>"
  have d: "getStoredDeps memBackend cyclicStore ''h'' ?info ''c1'' = Inr [?d]"
    using c m by (simp add: getStoredDeps_def Module_Owner_def Module_Name_def newModule_def)
  have "goodDep (memView cyclicStore) ?d"
    using mem.getStoredDeps_good [OF d cyclicStore_ok(1)] by simp
  from depCommitObject_good [OF this] d show ?thesis by (auto simp: depKey_def moduleKey_def)
qed

lemma cyclicStore_graph:
  "\<exists>g. Svc_GetGraph memBackend \<lparr>sv_casReg = True, sv_Host = ''h''\<rparr> 2 cyclicStore [Some (RR_Id ''c1'')] = Some (Inr g)
     \<and> graphIds g = [''c2''] \<and> graphEdges g = [(''c1'', ''c2'')]"
proof -
  obtain x where x: "getModuleAndCommitByID memBackend cyclicStore ''c1'' = Inr (\<lparr>mi_Owner = ''acme'', mi_Name = ''pets''\<rparr>, x)"
    "pc_Id x = ''c1''"
    using cyclicStore_target
    by (cases "getModuleAndCommitByID memBackend cyclicStore ''c1''") (auto simp: refTarget_def)
  obtain d y where d: "getStoredDeps memBackend cyclicStore ''h'' \<lparr>mi_Owner = ''acme'', mi_Name = ''pets''\<rparr> ''c1'' = Inr [d]"
    "depKey d = ''acme/pets''" "bd_Remote d = ''h''" "depCommitObject d = Inr y" "pc_Id y = ''c2''"
    using cyclicStore_dep by blast
  have less: "''c1'' < ''c2''" by code_simp
  have two: "(2::nat) = Suc (Suc 0)" by simp
  show ?thesis
    unfolding two
    by (simp add: Svc_GetGraph_def x getGraphForModule_def walkerB1_def d visitDep_def resolveDep_def
        redirectEdge_def moduleKey_def graphIds_def graphEdges_def less Let_def)
qed

lemma graph_edges_witness:
  "\<exists>g. Svc_GetGraph memBackend \<lparr>sv_casReg = True, sv_Host = ''h''\<rparr> 2 cyclicStore [Some (RR_Id ''c1'')] = Some (Inr g)
     \<and> graphIds g = [''c2''] \<and> graphEdges g = [(''c1'', ''c2'')]
     \<and> (\<exists>info ds. getStoredDeps memBackend cyclicStore ''h'' info ''c1'' = Inr ds
          \<and> map (\<lambda>d. Some (depKey d)) ds = [commitKey (memView cyclicStore) ''c2''])"
proof -
  let ?k = "commitKey (memView cyclicStore)"
  obtain g where g: "Svc_GetGraph memBackend \<lparr>sv_casReg = True, sv_Host = ''h''\<rparr> 2 cyclicStore [Some (RR_Id ''c1'')] = Some (Inr g)"
    "graphIds g = [''c2'']" "graphEdges g = [(''c1'', ''c2'')]"
    using cyclicStore_graph by blast
  have "distinct (map (\<lambda>p. infoKey (fst p)) (requested memBackend cyclicStore [Some (RR_Id ''c1'')]))"
    by (simp only: cyclicStore_requested) simp
  note e = graph_edges [OF mem.backend_laws_axioms cyclicStore_ok g(1) this]
  obtain info v ds where v: "?k ''c2'' = Some (infoKey info)"
    "getStoredDeps memBackend cyclicStore ''h'' info v = Inr ds"
    "map (\<lambda>e. ?k (snd e)) (filter (\<lambda>e. fst e = v) (graphEdges g)) = map (\<lambda>d. Some (depKey d)) ds"
    "\<forall>e \<in> set (graphEdges g). ?k (fst e) = Some (infoKey info) \<longrightarrow> fst e = v"
    using e g(2) by auto
  have "?k ''c1'' = ?k ''c2''" using e g(2,3) by auto
  then have "v = ''c1''" using v(1,4) g(3) by auto
  then show ?thesis using g v(2,3) by (intro exI [of _ g] conjI exI [of _ info] exI [of _ ds]) auto
qed

end
