(* ===== verification/Download_Service.thy ===== *)
theory Download_Service
  imports Commit_Service
begin

text \<open>
  The download services: v1beta1 (\<open>service/download.go\<close>), which returns all files of a
  commit, and v1 (\<open>service/download_v1.go\<close>), which resolves names and filters by path and
  file type.
\<close>

section \<open>Messages\<close>

record protoFile =
  pf_Path :: string
  pf_Content :: string

record downloadContent =
  dc_Commit :: protoCommit
  dc_Files :: "protoFile list"
  dc_V1BufYamlFile :: "protoFile option"
  dc_V1BufLockFile :: "protoFile option"

record downloadContentV1 =
  d1_Commit :: protoCommit
  d1_Files :: "protoFile list"

datatype fileType = FT_UNSPECIFIED | FT_PROTO | FT_LICENSE | FT_DOC | FT_Other int

record downloadValueV1 =
  dv_ResourceRef :: "resourceRef option"
  dv_FileTypes :: "fileType list"
  dv_Paths :: "string list"
  dv_PathsAllowNotExist :: bool

definition toProtoFile :: "File \<Rightarrow> protoFile" where
  "toProtoFile f = \<lparr>pf_Path = f_Path f, pf_Content = f_Content f\<rparr>"

section \<open>Version v1beta1\<close>

text \<open>The loop over the files; a later \<open>buf.yaml\<close> or \<open>buf.lock\<close> replaces an earlier one.\<close>

fun addDownloadFiles :: "File list \<Rightarrow> downloadContent \<Rightarrow> downloadContent" where
  "addDownloadFiles [] contents = contents"
| "addDownloadFiles (f # fs) contents =
     (let c1 = (if f_Path f = ''buf.yaml'' then contents\<lparr>dc_V1BufYamlFile := Some (toProtoFile f)\<rparr>
                else contents);
          c2 = (if f_Path f = ''buf.lock'' then c1\<lparr>dc_V1BufLockFile := Some (toProtoFile f)\<rparr> else c1)
      in addDownloadFiles fs (c2\<lparr>dc_Files := dc_Files c2 @ [toProtoFile f]\<rparr>))"

definition buildDownloadContent :: "protoCommit \<Rightarrow> File list \<Rightarrow> downloadContent" where
  "buildDownloadContent commit files =
     addDownloadFiles files
       \<lparr>dc_Commit = commit, dc_Files = [], dc_V1BufYamlFile = None, dc_V1BufLockFile = None\<rparr>"

definition downloadByCommitID :: "'s backend \<Rightarrow> 's \<Rightarrow> string \<Rightarrow> downloadContent res" where
  "downloadByCommitID B s commitId =
     (case Reg_ModuleByCommitID B s commitId of
        Inl _ \<Rightarrow> Inl (notFoundErr (''commit not found: '' @ commitId))
      | Inr m \<Rightarrow>
          (case FilesAndCommitByCommitID B s m commitId of
             Inl err \<Rightarrow> Inl (ConnectErr CodeInternal (Some err))
           | Inr (files, commit) \<Rightarrow>
               (case commitObject commit of
                  Inl err \<Rightarrow> Inl (ConnectErr CodeInternal (Some err))
                | Inr commitObj \<Rightarrow> Inr (buildDownloadContent commitObj files))))"

text \<open>A nil \<open>ResourceRef\<close> panics; an unset oneof downloads the empty commit ID.\<close>

definition downloadValue :: "'s backend \<Rightarrow> 's \<Rightarrow> resourceRef option \<Rightarrow> downloadContent res" where
  "downloadValue B s ref =
     (case ref of
        None \<Rightarrow> Inl Panic
      | Some (RR_Id i) \<Rightarrow> downloadByCommitID B s i
      | Some (RR_Name _) \<Rightarrow>
          Inl (ConnectErr CodeInvalidArgument (Some (Errorf ''ResourceRef_Name_ not supported'')))
      | Some RR_None \<Rightarrow> downloadByCommitID B s [])"

definition Svc_Download ::
  "'s backend \<Rightarrow> Service \<Rightarrow> 's \<Rightarrow> resourceRef option list \<Rightarrow> downloadContent list res" where
  "Svc_Download B svc s values =
     (if \<not> sv_casReg svc then Inl errNoCAS else mapRes (downloadValue B s) values)"

section \<open>Version v1\<close>

text \<open>
  \<open>filePath[:len(p)]\<close> and \<open>filePath[len(p)]\<close> are in range by the first conjunct.
\<close>

fun matchPath :: "string \<Rightarrow> string list \<Rightarrow> bool" where
  "matchPath filePath [] = False"
| "matchPath filePath (p # ps) =
     (if filePath = p then True
      else if length filePath > length p \<and> take (length p) filePath = p \<and> filePath ! length p = CHR ''/''
        then True
      else matchPath filePath ps)"

fun matchFileType :: "string \<Rightarrow> fileType list \<Rightarrow> bool" where
  "matchFileType filePath [] = False"
| "matchFileType filePath (ft # fts) =
     (case ft of
        FT_PROTO \<Rightarrow>
          if length filePath > 6 \<and> drop (length filePath - 6) filePath = ''.proto'' then True
          else matchFileType filePath fts
      | FT_LICENSE \<Rightarrow>
          if filePath = ''LICENSE'' \<or> filePath = ''LICENSE.txt'' \<or> filePath = ''LICENSE.md'' then True
          else matchFileType filePath fts
      | FT_DOC \<Rightarrow>
          if filePath = ''README.md'' \<or> filePath = ''README'' \<or> filePath = ''buf.md'' then True
          else matchFileType filePath fts
      | FT_UNSPECIFIED \<Rightarrow> True
      | FT_Other _ \<Rightarrow> matchFileType filePath fts)"

fun filterFilesV1 :: "File list \<Rightarrow> fileType list \<Rightarrow> string list \<Rightarrow> protoFile list" where
  "filterFilesV1 [] fileTypes paths = []"
| "filterFilesV1 (f # fs) fileTypes paths =
     (if paths \<noteq> [] \<and> \<not> matchPath (f_Path f) paths then filterFilesV1 fs fileTypes paths
      else if fileTypes \<noteq> [] \<and> \<not> matchFileType (f_Path f) fileTypes
        then filterFilesV1 fs fileTypes paths
      else toProtoFile f # filterFilesV1 fs fileTypes paths)"

definition buildDownloadContentV1 ::
  "protoCommit \<Rightarrow> File list \<Rightarrow> fileType list \<Rightarrow> string list \<Rightarrow> bool \<Rightarrow> downloadContentV1" where
  "buildDownloadContentV1 commit files fileTypes paths pathsAllowNotExist =
     \<lparr>d1_Commit = commit, d1_Files = filterFilesV1 files fileTypes paths\<rparr>"

definition downloadByCommitIDV1 ::
  "'s backend \<Rightarrow> 's \<Rightarrow> string \<Rightarrow> fileType list \<Rightarrow> string list \<Rightarrow> bool \<Rightarrow> downloadContentV1 res" where
  "downloadByCommitIDV1 B s commitId fileTypes paths pathsAllowNotExist =
     (case Reg_ModuleByCommitID B s commitId of
        Inl _ \<Rightarrow> Inl (notFoundErr (''commit not found: '' @ commitId))
      | Inr m \<Rightarrow>
          (case FilesAndCommitByCommitID B s m commitId of
             Inl err \<Rightarrow> Inl (ConnectErr CodeInternal (Some err))
           | Inr (files, commit) \<Rightarrow>
               Inr (buildDownloadContentV1 (getCommitObjectV1 commit) files fileTypes paths
                      pathsAllowNotExist)))"

definition invalidArg :: "string \<Rightarrow> goerr" where
  "invalidArg msg = ConnectErr CodeInvalidArgument (Some (Errorf msg))"

definition resolveCommitIdV1 :: "'s backend \<Rightarrow> 's \<Rightarrow> resourceRef option \<Rightarrow> string res" where
  "resolveCommitIdV1 B s ref =
     (case ref of
        None \<Rightarrow> Inl (invalidArg ''resource_ref is required'')
      | Some (RR_Id i) \<Rightarrow> Inr i
      | Some (RR_Name None) \<Rightarrow> Inl (invalidArg ''name is required'')
      | Some (RR_Name (Some n)) \<Rightarrow>
          (case Reg_Module B s (rn_Owner n) (rn_Module n) of
             Inl _ \<Rightarrow> Inl (notFoundErr (''module not found: '' @ rn_Owner n @ ''/'' @ rn_Module n))
           | Inr m \<Rightarrow>
               (case resolveChild B s m (rn_Child n) of
                  Inl err \<Rightarrow> Inl err
                | Inr cmt \<Rightarrow> Inr (c_ID cmt)))
      | Some RR_None \<Rightarrow> Inl (invalidArg ''unsupported resource_ref type''))"

definition downloadValueV1 :: "'s backend \<Rightarrow> 's \<Rightarrow> downloadValueV1 \<Rightarrow> downloadContentV1 res" where
  "downloadValueV1 B s v =
     (case resolveCommitIdV1 B s (dv_ResourceRef v) of
        Inl err \<Rightarrow> Inl err
      | Inr commitId \<Rightarrow>
          downloadByCommitIDV1 B s commitId (dv_FileTypes v) (dv_Paths v) (dv_PathsAllowNotExist v))"

definition SvcV1_Download ::
  "'s backend \<Rightarrow> Service \<Rightarrow> 's \<Rightarrow> downloadValueV1 list \<Rightarrow> downloadContentV1 list res" where
  "SvcV1_Download B svc s values =
     (if \<not> sv_casReg svc then Inl errNoCAS else mapRes (downloadValueV1 B s) values)"

section \<open>What is delivered\<close>

lemma find_append: "find P (xs @ ys) = (case find P xs of Some x \<Rightarrow> Some x | None \<Rightarrow> find P ys)"
  by (induction xs) auto

lemma addDownloadFiles_eq:
  "addDownloadFiles fs c =
     c\<lparr>dc_Files := dc_Files c @ map toProtoFile fs,
       dc_V1BufYamlFile := (case find (\<lambda>f. f_Path f = ''buf.yaml'') (rev fs) of
          Some f \<Rightarrow> Some (toProtoFile f) | None \<Rightarrow> dc_V1BufYamlFile c),
       dc_V1BufLockFile := (case find (\<lambda>f. f_Path f = ''buf.lock'') (rev fs) of
          Some f \<Rightarrow> Some (toProtoFile f) | None \<Rightarrow> dc_V1BufLockFile c)\<rparr>"
proof (induction fs arbitrary: c)
  case Nil
  show ?case by simp
next
  case (Cons f fs)
  have "find P (rev (f # fs)) = (case find P (rev fs) of Some g \<Rightarrow> Some g | None \<Rightarrow> if P f then Some f else None)" for P
    by (simp add: find_append split: option.split)
  then show ?case using Cons.IH by (auto simp: Let_def split: option.split)
qed

text \<open>A path matches when it is a requested path or lies below a requested directory.\<close>

definition underPath :: "string \<Rightarrow> string \<Rightarrow> bool" where
  "underPath p q \<longleftrightarrow> p = q \<or> (\<exists>r. p = q @ ''/'' @ r)"

lemma under_iff:
  "length p > length q \<and> take (length q) p = q \<and> p ! length q = CHR ''/'' \<longleftrightarrow> (\<exists>r. p = q @ ''/'' @ r)"
proof
  assume a: "length p > length q \<and> take (length q) p = q \<and> p ! length q = CHR ''/''"
  then have "p = q @ p ! length q # drop (Suc (length q)) p" using id_take_nth_drop by metis
  then show "\<exists>r. p = q @ ''/'' @ r" using a by auto
qed auto

lemma matchPath_iff: "matchPath p ps \<longleftrightarrow> (\<exists>q \<in> set ps. underPath p q)"
proof (induction ps)
  case Nil
  show ?case by simp
next
  case (Cons q ps)
  have "matchPath p (q # ps) \<longleftrightarrow> underPath p q \<or> matchPath p ps"
    unfolding underPath_def under_iff [symmetric] by (simp; blast)
  then show ?case using Cons by simp
qed

definition hasType :: "string \<Rightarrow> fileType \<Rightarrow> bool" where
  "hasType p ft = (case ft of
      FT_UNSPECIFIED \<Rightarrow> True
    | FT_PROTO \<Rightarrow> p \<noteq> ''.proto'' \<and> HasSuffix p ''.proto''
    | FT_LICENSE \<Rightarrow> p \<in> {''LICENSE'', ''LICENSE.txt'', ''LICENSE.md''}
    | FT_DOC \<Rightarrow> p \<in> {''README.md'', ''README'', ''buf.md''}
    | FT_Other _ \<Rightarrow> False)"

lemma proto_suffix:
  "length p > 6 \<and> drop (length p - 6) p = ''.proto'' \<longleftrightarrow> p \<noteq> ''.proto'' \<and> HasSuffix p ''.proto''"
proof -
  have six: "length ''.proto'' = 6" by simp
  have "length p > 6 \<longleftrightarrow> p \<noteq> ''.proto''" if "6 \<le> length p" "drop (length p - 6) p = ''.proto''"
    using that by (cases "length p = 6") auto
  then show ?thesis unfolding HasSuffix_def six by (metis order_less_imp_le)
qed

lemma matchFileType_iff: "matchFileType p fts \<longleftrightarrow> (\<exists>ft \<in> set fts. hasType p ft)"
proof (induction fts)
  case Nil
  show ?case by simp
next
  case (Cons ft fts)
  show ?case
  proof (cases ft)
    case FT_PROTO
    then show ?thesis using Cons proto_suffix [of p] by (simp add: hasType_def)
  qed (use Cons in \<open>simp_all add: hasType_def\<close>)
qed

lemma filterFilesV1_eq:
  "filterFilesV1 files fts ps = map toProtoFile (filter (\<lambda>f.
     (ps = [] \<or> (\<exists>q \<in> set ps. underPath (f_Path f) q)) \<and>
     (fts = [] \<or> (\<exists>ft \<in> set fts. hasType (f_Path f) ft))) files)"
  by (induction files) (auto simp: matchPath_iff matchFileType_iff)

context backend_laws
begin

lemma upload_then_module:
  assumes ok: "regOK (shake256 B) (view s)" and wf: "\<forall>f \<in> set files. wfPath (f_Path f)"
    and run: "Mod_CreateCommit B s m files labels url deps dds = (s', Inr c)"
    and m: "vModules (view s) (Module_ID m) = Some (moduleRecordToDoc (mod_record m))"
  shows "Reg_ModuleByCommitID B s' (c_ID c) = Inr m"
proof -
  note cc = CreateCommit_ok [OF run ok wf]
  then obtain d rcd where d: "vCommits (view s') (c_ID c) = Some d" "commitDocToRecord d = Inr rcd"
    "toCommit rcd = c" by blast
  then have "commit_ModuleID rcd = Module_ID m" using cc by (auto simp: toCommit_def)
  then show ?thesis using cc m by (intro ModuleByCommitID_stored [OF d(1,2)]) simp_all
qed

end

section \<open>Properties\<close>

text \<open>
  C37. The v1 filters: a file is delivered iff it equals a requested path or lies below one
  that is a directory prefix at a slash (any path if none is requested), and has one of
  the requested types (any if none is requested); the order of the files is kept.  The
  v1beta1 content has all files, and the last \<open>buf.yaml\<close> and \<open>buf.lock\<close> apart.
\<close>

theorem download_contents:
  "d1_Files (buildDownloadContentV1 c files fileTypes paths allow) =
     map toProtoFile (filter (\<lambda>f.
       (paths = [] \<or> (\<exists>q \<in> set paths. f_Path f = q \<or> (\<exists>r. f_Path f = q @ ''/'' @ r))) \<and>
       (fileTypes = [] \<or> (\<exists>ft \<in> set fileTypes. hasType (f_Path f) ft))) files)
   \<and> dc_Files (buildDownloadContent c files) = map toProtoFile files
   \<and> dc_V1BufLockFile (buildDownloadContent c files) =
       map_option toProtoFile (find (\<lambda>f. f_Path f = ''buf.lock'') (rev files))"
  by (simp add: buildDownloadContentV1_def filterFilesV1_eq underPath_def buildDownloadContent_def
      addDownloadFiles_eq split: option.split)

text \<open>
  C4. Upload then download over the API: the commit that \<open>CreateCommit\<close> returned for a
  registered module is downloadable by its ID in both versions, with the uploaded files
  sorted by path; v1beta1 reports the B4 digest of the manifest, v1 the commit's B5 digest.
\<close>

theorem upload_then_download:
  assumes "backend_laws B view" and "regOK (shake256 B) (view s)"
    and "\<forall>f \<in> set files. wfPath (f_Path f)" and "collisionFree (shake256 B) files (view s)"
    and "vModules (view s) (Module_ID m) = Some (moduleRecordToDoc (mod_record m))"
    and "Mod_CreateCommit B s m files labels url deps depDigests = (s', Inr c)" and "sv_casReg svc"
  shows "\<exists>x y. Svc_Download B svc s' [Some (RR_Id (c_ID c))] = Inr [x]
     \<and> SvcV1_Download B svc s' [\<lparr>dv_ResourceRef = Some (RR_Id (c_ID c)), dv_FileTypes = [],
          dv_Paths = [], dv_PathsAllowNotExist = allow\<rparr>] = Inr [y]
     \<and> dc_Files x = map toProtoFile (sort_key f_Path files) \<and> d1_Files y = dc_Files x
     \<and> sameCommit (dc_Commit x) (d1_Commit y) \<and> pc_Id (dc_Commit x) = c_ID c
     \<and> pc_Digest (dc_Commit x) = md_Value (ComputeB4Digest (shake256 B) (manifestOf (shake256 B) files))
     \<and> pc_Digest (d1_Commit y) = md_Value (c_ModuleDigest c)"
proof -
  note m = backend_laws.upload_then_module [OF assms(1,2,3,6,5)]
  have f: "FilesAndCommitByCommitID B s' m (c_ID c) =
      Inr (map (stamped (shake256 B)) (sort_key f_Path files), c)"
    using backend_laws.CreateCommit_serves [OF assms(1-4,6)] by blast
  have d: "c_FilesDigest c = filesDigestOf (shake256 B) files"
    using backend_laws.CreateCommit_ok [OF assms(1,6,2,3)] by blast
  have st: "toProtoFile (stamped (shake256 B) g) = toProtoFile g" for g
    by (simp add: toProtoFile_def stamped_def)
  show ?thesis
    using assms(7) m f d
    by (simp add: Svc_Download_def SvcV1_Download_def downloadValue_def downloadValueV1_def
        resolveCommitIdV1_def downloadByCommitID_def downloadByCommitIDV1_def commitObject_ok
        buildDownloadContent_def addDownloadFiles_eq buildDownloadContentV1_def filterFilesV1_eq
        sameCommit_def getCommitObjectV1_def ComputeB4Digest_def filesDigestOf_def st comp_def)
qed

theorem upload_then_download_witness:
  "\<exists>s' c x. Mod_CreateCommit memBackend
        (memEmpty\<lparr>m_modules := [moduleRecordToDoc (newModule ''acme'' ''pets'' [] 1)]\<rparr>)
        \<lparr>mod_record = newModule ''acme'' ''pets'' [] 1\<rparr> exampleFiles [''main''] [] [] [] = (s', Inr c)
     \<and> Svc_Download memBackend \<lparr>sv_casReg = True, sv_Host = ''h''\<rparr> s' [Some (RR_Id (c_ID c))] = Inr [x]
     \<and> dc_Files x = map toProtoFile (sort_key f_Path exampleFiles)"
proof -
  let ?m = "\<lparr>mod_record = newModule ''acme'' ''pets'' [] 1\<rparr>"
  let ?s = "memEmpty\<lparr>m_modules := [moduleRecordToDoc (newModule ''acme'' ''pets'' [] 1)]\<rparr>"
  obtain s' c where run: "Mod_CreateCommit memBackend ?s ?m exampleFiles [''main''] [] [] [] = (s', Inr c)"
    using mem_CreateCommit [of "[]", simplified] by blast
  have "modulesOK (memView ?s)"
    by (simp add: modulesOK_def memView_def memFind_def moduleRecordToDoc_def newModule_def split: if_splits)
  then have ok: "regOK (shake256 memBackend) (memView ?s)"
    by (intro regOK_cong [OF regOK_empty [OF memEmpty_empty]]) (simp_all add: memView_def memEmpty_def)
  have cf: "collisionFree (shake256 memBackend) exampleFiles (memView ?s)"
    using exampleFiles_collisionFree by (simp add: collisionFree_def memView_def memEmpty_def)
  have mo: "vModules (memView ?s) (Module_ID ?m) = Some (moduleRecordToDoc (mod_record ?m))"
    by (simp add: memView_def memFind_def Module_ID_def)
  show ?thesis
    using upload_then_download [OF mem.backend_laws_axioms ok exampleFiles_wf cf mo run,
        of "\<lparr>sv_casReg = True, sv_Host = ''h''\<rparr>"] run by auto
qed

end
