(* ===== verification/Upload_Service.thy ===== *)
theory Upload_Service
  imports Download_Service
begin

text \<open>
  The v1 upload service (\<open>service/upload.go\<close>): resolving the module reference, detecting
  dependencies from the imports of the uploaded proto files, and creating the commit.  The
  regular expression of the imports is written out as the matcher it denotes.  Repeated
  message fields hold no nil elements (the decoder makes none); single message fields may
  be nil.  The lemmas characterise the matcher, the detected dependencies and the effect of
  an upload on the registry.
\<close>

section \<open>Messages\<close>

datatype moduleRef = MR_Id string | MR_Name "(string \<times> string) option" | MR_None

datatype scopedLabelRef = SL_Id string | SL_Name string | SL_None

record uploadContentMsg =
  uc_ModuleRef :: "moduleRef option"
  uc_Files :: "protoFile list"
  uc_ScopedLabelRefs :: "scopedLabelRef list"
  uc_SourceControlUrl :: string

section \<open>Imports of proto files\<close>

text \<open>The class \<open>\s\<close> of Go's regular expressions.\<close>

definition isSpace :: "char \<Rightarrow> bool" where
  "isSpace c \<longleftrightarrow> c \<in> {CHR 0x09, CHR 0x0A, CHR 0x0C, CHR 0x0D, CHR '' ''}"

text \<open>
  A match of \<open>import\s+"([^"]+)"\<close> at the start of the text: the submatch and the text after
  the match.
\<close>

definition matchImport :: "string \<Rightarrow> (string \<times> string) option" where
  "matchImport s =
     (if \<not> HasPrefix s ''import'' then None
      else let t = drop 6 s; u = dropWhile isSpace t in
        if u = t then None
        else case u of
               [] \<Rightarrow> None
             | q # v \<Rightarrow>
                 if q \<noteq> CHR 0x22 then None
                 else let g = takeWhile (\<lambda>c. c \<noteq> CHR 0x22) v; w = dropWhile (\<lambda>c. c \<noteq> CHR 0x22) v in
                   if g = [] \<or> w = [] then None else Some (g, tl w))"

lemma matchImport_shorter: "matchImport s = Some (g, r) \<Longrightarrow> length r < length s"
proof -
  assume m: "matchImport s = Some (g, r)"
  then obtain q v where qv: "dropWhile isSpace (drop 6 s) = q # v" and r: "r = tl (dropWhile (\<lambda>c. c \<noteq> CHR 0x22) v)"
    by (auto simp: matchImport_def Let_def split: if_splits list.splits)
  have "length r \<le> length v" unfolding r
    by (metis diff_le_self le_trans length_dropWhile_le length_tl)
  also have "length v < length (dropWhile isSpace (drop 6 s))" by (simp add: qv)
  also have "\<dots> \<le> length s" using length_dropWhile_le [of isSpace "drop 6 s"] by simp
  finally show ?thesis .
qed

text \<open>\<open>FindAllStringSubmatch\<close>: the leftmost match, then the matches in the text after it.\<close>

function findImports :: "string \<Rightarrow> string list" where
  "findImports [] = []"
| "findImports (c # s) =
     (case matchImport (c # s) of
        Some (g, rest) \<Rightarrow> g # findImports rest
      | None \<Rightarrow> findImports s)"
  by pat_completeness auto
termination
  by (relation "measure length") (auto dest: matchImport_shorter)

text \<open>The inner loop over the matches; \<open>seen\<close> is the map, \<open>imports\<close> the slice built so far.\<close>

fun addImports :: "string list \<Rightarrow> string set \<Rightarrow> string list \<Rightarrow> string set \<times> string list" where
  "addImports [] seen imports = (seen, imports)"
| "addImports (imp # ms) seen imports =
     (if length imp > 7 \<and> take 7 imp = ''google/'' then addImports ms seen imports
      else if imp \<notin> seen then addImports ms (insert imp seen) (imports @ [imp])
      else addImports ms seen imports)"

fun importLoop :: "File list \<Rightarrow> string set \<Rightarrow> string list \<Rightarrow> string list" where
  "importLoop [] seen imports = imports"
| "importLoop (f # fs) seen imports =
     (if length (f_Path f) < 6 \<or> drop (length (f_Path f) - 6) (f_Path f) \<noteq> ''.proto''
      then importLoop fs seen imports
      else case addImports (findImports (f_Content f)) seen imports of
             (seen', imports') \<Rightarrow> importLoop fs seen' imports')"

definition extractProtoImports :: "File list \<Rightarrow> string list" where
  "extractProtoImports files = importLoop files {} []"

section \<open>Dependency detection\<close>

text \<open>The loops of \<open>findModuleWithFile\<close>; a value is the early return.\<close>

fun findInModules :: "'s backend \<Rightarrow> 's \<Rightarrow> string \<Rightarrow> Module list \<Rightarrow> string option" where
  "findInModules B s filePath [] = None"
| "findInModules B s filePath (m # ms) =
     (case Mod_Commit B s m ''main'' of
        Inl _ \<Rightarrow> findInModules B s filePath ms
      | Inr commit \<Rightarrow>
          (case FilesAndCommitByCommitID B s m (c_ID commit) of
             Inl _ \<Rightarrow> findInModules B s filePath ms
           | Inr (files, _) \<Rightarrow>
               if list_ex (\<lambda>f. f_Path f = filePath) files then Some (c_ID commit)
               else findInModules B s filePath ms))"

fun findInOwners :: "'s backend \<Rightarrow> 's \<Rightarrow> string \<Rightarrow> OwnerRecord list \<Rightarrow> string" where
  "findInOwners B s filePath [] = []"
| "findInOwners B s filePath (owner # owners) =
     (case Reg_ListModules B s (owner_Name owner) of
        Inl _ \<Rightarrow> findInOwners B s filePath owners
      | Inr modules \<Rightarrow>
          (case findInModules B s filePath modules of
             Some i \<Rightarrow> i
           | None \<Rightarrow> findInOwners B s filePath owners))"

definition findModuleWithFile :: "'s backend \<Rightarrow> 's \<Rightarrow> string \<Rightarrow> string" where
  "findModuleWithFile B s filePath =
     (case Reg_ListOwners B s of
        Inl _ \<Rightarrow> []
      | Inr owners \<Rightarrow> findInOwners B s filePath owners)"

fun detectLoop :: "'s backend \<Rightarrow> 's \<Rightarrow> string list \<Rightarrow> string set \<Rightarrow> string list \<Rightarrow> string list" where
  "detectLoop B s [] seen depCommitIDs = depCommitIDs"
| "detectLoop B s (imp # imports) seen depCommitIDs =
     (let commitID = findModuleWithFile B s imp in
      if commitID \<noteq> [] \<and> commitID \<notin> seen
      then detectLoop B s imports (insert commitID seen) (depCommitIDs @ [commitID])
      else detectLoop B s imports seen depCommitIDs)"

definition detectDependenciesFromImports :: "'s backend \<Rightarrow> 's \<Rightarrow> File list \<Rightarrow> string list" where
  "detectDependenciesFromImports B s files =
     (let imports = extractProtoImports files in
      if imports = [] then [] else detectLoop B s imports {} [])"

section \<open>Upload\<close>

definition resolveModuleRef :: "'s backend \<Rightarrow> Service \<Rightarrow> 's \<Rightarrow> moduleRef option \<Rightarrow> (string \<times> string) res" where
  "resolveModuleRef B svc s ref =
     (case ref of
        None \<Rightarrow> Inl (Errorf ''module reference is required'')
      | Some (MR_Id i) \<Rightarrow>
          if \<not> sv_casReg svc then Inl (Errorf ''CAS storage not configured'')
          else (case Reg_ModuleByID B s i of
                  Inl err \<Rightarrow> Inl (Wrapf ''module not found: '' err)
                | Inr m \<Rightarrow> Inr (Module_Owner m, Module_Name m))
      | Some (MR_Name None) \<Rightarrow> Inl (Errorf ''module name is required'')
      | Some (MR_Name (Some n)) \<Rightarrow> Inr n
      | Some MR_None \<Rightarrow> Inl (Errorf ''unknown module reference type''))"

fun extractLabels :: "scopedLabelRef list \<Rightarrow> string list" where
  "extractLabels [] = []"
| "extractLabels (ref # refs) =
     (case ref of SL_Name name \<Rightarrow> name # extractLabels refs | _ \<Rightarrow> extractLabels refs)"

definition commitToProto :: "Commit \<Rightarrow> protoCommit" where
  "commitToProto commit =
     \<lparr>pc_Id = c_ID commit, pc_OwnerId = c_OwnerID commit, pc_ModuleId = c_ModuleID commit,
      pc_CreateTime = Some (c_CreateTime commit), pc_DigestType = DigestTypeB5,
      pc_Digest = md_Value (c_ModuleDigest commit)\<rparr>"

text \<open>The uploaded files; the digest field of a \<open>File\<close> is left at its zero value.\<close>

definition uploadFile :: "protoFile \<Rightarrow> File" where
  "uploadFile f = \<lparr>f_Path = pf_Path f, f_Content = pf_Content f, f_Digest = \<lparr>d_Algorithm = [], d_Value = []\<rparr>\<rparr>"

definition uploadLabels :: "uploadContentMsg \<Rightarrow> string list" where
  "uploadLabels content =
     (let labels = extractLabels (uc_ScopedLabelRefs content) in
      if labels = [] then [''main''] else labels)"

definition uploadDeps :: "'s backend \<Rightarrow> 's \<Rightarrow> File list \<Rightarrow> string list \<Rightarrow> string list" where
  "uploadDeps B s files depCommitIDs =
     (if depCommitIDs = []
      then let detectedDeps = detectDependenciesFromImports B s files in
        if detectedDeps \<noteq> [] then detectedDeps else depCommitIDs
      else depCommitIDs)"

definition uploadContent ::
  "'s backend \<Rightarrow> Service \<Rightarrow> 's \<Rightarrow> uploadContentMsg \<Rightarrow> string list \<Rightarrow> 's \<times> protoCommit res" where
  "uploadContent B svc s content depCommitIDs0 =
     (case resolveModuleRef B svc s (uc_ModuleRef content) of
        Inl err \<Rightarrow> (s, Inl (Wrapf ''invalid module reference: '' err))
      | Inr (owner, modName) \<Rightarrow>
          (case Reg_GetOrCreateModule B s owner modName of
             (s1, Inl err) \<Rightarrow> (s1, Inl (Wrapf ''failed to get or create module: '' err))
           | (s1, Inr m) \<Rightarrow>
               (let files = map uploadFile (uc_Files content);
                    labels = uploadLabels content;
                    depCommitIDs = uploadDeps B s1 files depCommitIDs0
                in case Reg_GetDepModuleDigests B s1 depCommitIDs of
                     Inl err \<Rightarrow> (s1, Inl (Wrapf ''failed to get dependency digests: '' err))
                   | Inr depDigests \<Rightarrow>
                       (case Mod_CreateCommit B s1 m files labels (uc_SourceControlUrl content)
                          depCommitIDs depDigests of
                          (s2, Inl err) \<Rightarrow> (s2, Inl (Wrapf ''failed to create commit: '' err))
                        | (s2, Inr commit) \<Rightarrow> (s2, Inr (commitToProto commit))))))"

fun uploadLoop ::
  "'s backend \<Rightarrow> Service \<Rightarrow> 's \<Rightarrow> uploadContentMsg list \<Rightarrow> string list \<Rightarrow> protoCommit list
   \<Rightarrow> 's \<times> protoCommit list res" where
  "uploadLoop B svc s [] deps commits = (s, Inr commits)"
| "uploadLoop B svc s (content # rest) deps commits =
     (case uploadContent B svc s content deps of
        (s', Inl err) \<Rightarrow> (s', Inl (ConnectErr CodeInternal (Some err)))
      | (s', Inr commit) \<Rightarrow> uploadLoop B svc s' rest deps (commits @ [commit]))"

definition Svc_Upload ::
  "'s backend \<Rightarrow> Service \<Rightarrow> 's \<Rightarrow> uploadContentMsg list \<Rightarrow> string list \<Rightarrow> 's \<times> protoCommit list res" where
  "Svc_Upload B svc s contents depCommitIds =
     (if \<not> sv_casReg svc then (s, Inl errNoCAS) else uploadLoop B svc s contents depCommitIds [])"

section \<open>The matcher\<close>

lemma import_split:
  "ws \<noteq> [] \<Longrightarrow> \<forall>c \<in> set ws. isSpace c \<Longrightarrow>
   dropWhile isSpace (ws @ CHR 0x22 # v) = CHR 0x22 # v"
  by (induction ws) (auto simp: isSpace_def)

lemma quote_split:
  "CHR 0x22 \<notin> set g \<Longrightarrow> takeWhile (\<lambda>c. c \<noteq> CHR 0x22) (g @ CHR 0x22 # r) = g
     \<and> dropWhile (\<lambda>c. c \<noteq> CHR 0x22) (g @ CHR 0x22 # r) = CHR 0x22 # r"
  by (induction g) auto

lemma length_import: "length ''import'' = 6"
  by simp

text \<open>The matcher accepts the language of the regular expression.\<close>

lemma matchImport_iff:
  "matchImport s = Some (g, r) \<longleftrightarrow>
     (\<exists>ws. s = ''import'' @ ws @ [CHR 0x22] @ g @ [CHR 0x22] @ r \<and> ws \<noteq> [] \<and> set ws \<subseteq> Collect isSpace
        \<and> g \<noteq> [] \<and> CHR 0x22 \<notin> set g)"
  (is "_ \<longleftrightarrow> ?R")
proof
  assume m: "matchImport s = Some (g, r)"
  let ?t = "drop 6 s"
  let ?u = "dropWhile isSpace ?t"
  have h: "HasPrefix s ''import''" and ne1: "?u \<noteq> ?t"
    using m unfolding matchImport_def Let_def by (metis option.distinct(1))+
  obtain q v where v0: "?u = q # v"
    using m h ne1 unfolding matchImport_def Let_def by (cases ?u) (simp_all del: dropWhile_eq_Nil_conv)
  let ?w = "dropWhile (\<lambda>c. c \<noteq> CHR 0x22) v"
  have "q = CHR 0x22"
    using m h ne1 v0 by (cases "q = CHR 0x22") (simp_all add: matchImport_def Let_def)
  then have c': "(if takeWhile (\<lambda>c. c \<noteq> CHR 0x22) v = [] \<or> ?w = [] then None
      else Some (takeWhile (\<lambda>c. c \<noteq> CHR 0x22) v, tl ?w)) = Some (g, r)"
    using m h ne1 v0 by (simp only: matchImport_def Let_def list.case not_not if_False simp_thms)
  have v: "?u = CHR 0x22 # v" using v0 \<open>q = CHR 0x22\<close> by simp
  have n: "\<not> (takeWhile (\<lambda>c. c \<noteq> CHR 0x22) v = [] \<or> ?w = [])" using c' by (metis option.distinct(1))
  then have g: "g = takeWhile (\<lambda>c. c \<noteq> CHR 0x22) v" and r: "r = tl ?w"
    using c' by (simp_all only: if_False option.inject prod.inject)
  have ne: "g \<noteq> []" "?w \<noteq> []" using n g by simp_all
  have "hd ?w = CHR 0x22" using hd_dropWhile [OF ne(2)] by blast
  then have w: "?w = CHR 0x22 # r" using ne(2) r by (cases ?w) simp_all
  have v': "v = g @ CHR 0x22 # r" using takeWhile_dropWhile_id [of "\<lambda>c. c \<noteq> CHR 0x22" v]
    unfolding w g [symmetric] by (rule sym)
  have "s = ''import'' @ ?t" using h unfolding HasPrefix_def by (metis append_take_drop_id length_import)
  also have "?t = takeWhile isSpace ?t @ CHR 0x22 # g @ CHR 0x22 # r"
    using v v' takeWhile_dropWhile_id [of isSpace ?t] by simp
  finally have "s = ''import'' @ takeWhile isSpace ?t @ [CHR 0x22] @ g @ [CHR 0x22] @ r" by simp
  moreover have "takeWhile isSpace ?t \<noteq> []"
    using ne1 takeWhile_dropWhile_id [of isSpace ?t] by (metis append_Nil)
  moreover have "CHR 0x22 \<notin> set g" unfolding g by (auto dest: set_takeWhileD)
  moreover have "set (takeWhile isSpace ?t) \<subseteq> Collect isSpace" by (auto dest: set_takeWhileD)
  ultimately show ?R using ne(1) by blast
next
  assume ?R
  then obtain ws where ws: "s = ''import'' @ ws @ CHR 0x22 # g @ CHR 0x22 # r" "ws \<noteq> []"
    "\<forall>c \<in> set ws. isSpace c" "g \<noteq> []" "CHR 0x22 \<notin> set g" by auto
  have "drop 6 s = ws @ CHR 0x22 # g @ CHR 0x22 # r" unfolding ws(1) by simp
  moreover have "HasPrefix s ''import''" unfolding ws(1) by (simp add: HasPrefix_def)
  moreover have "CHR 0x22 # g @ CHR 0x22 # r \<noteq> ws @ CHR 0x22 # g @ CHR 0x22 # r"
    using ws(2) by (metis append_self_conv2 append_eq_append_conv_if append_same_eq)
  ultimately show "matchImport s = Some (g, r)"
    using import_split [OF ws(2,3)] quote_split [OF ws(5), of r] ws(4) by (simp add: matchImport_def)
qed

text \<open>\<open>findImports\<close> takes the leftmost match first.\<close>

lemma findImports_skip: "matchImport s = None \<Longrightarrow> findImports s = findImports (tl s)"
  by (cases s) simp_all

lemma findImports_leftmost:
  "\<forall>i < n. matchImport (drop i s) = None \<Longrightarrow> n \<le> length s \<Longrightarrow> findImports s = findImports (drop n s)"
proof (induction n arbitrary: s)
  case 0
  then show ?case by simp
next
  case (Suc n)
  then obtain c t where s: "s = c # t" by (cases s) auto
  have "matchImport s = None" using Suc.prems(1) by (metis drop0 zero_less_Suc)
  then have "findImports s = findImports t" using findImports_skip [of s] s by simp
  moreover have "\<forall>i < n. matchImport (drop i t) = None" using Suc.prems(1) s by auto
  ultimately show ?case using Suc.IH [of t] Suc.prems(2) s by simp
qed

lemma findImports_at:
  "matchImport s = Some (g, r) \<Longrightarrow> findImports s = g # findImports r"
  by (cases s) (auto simp: matchImport_def HasPrefix_def)

lemma findImports_none: "\<forall>i < length s. matchImport (drop i s) = None \<Longrightarrow> findImports s = []"
  using findImports_leftmost [of "length s" s] by simp

section \<open>The extracted imports\<close>

definition googleImport :: "string \<Rightarrow> bool" where
  "googleImport imp \<longleftrightarrow> HasPrefix imp ''google/'' \<and> imp \<noteq> ''google/''"

lemma google_iff: "length imp > 7 \<and> take 7 imp = ''google/'' \<longleftrightarrow> googleImport imp"
proof -
  have seven: "length ''google/'' = 7" by simp
  have "length imp > 7 \<longleftrightarrow> imp \<noteq> ''google/''" if "take 7 imp = ''google/''"
    using that by (cases "length imp \<le> 7") (auto simp: not_le)
  then show ?thesis unfolding googleImport_def HasPrefix_def seven
    by (metis append_take_drop_id append_eq_conv_conj seven)
qed

lemma addImports_eq:
  "addImports ms seen imps = (seen', imps') \<Longrightarrow> seen = set imps \<Longrightarrow> distinct imps \<Longrightarrow>
   seen' = set imps' \<and> distinct imps' \<and> set imps' = set imps \<union> {i \<in> set ms. \<not> googleImport i}"
  unfolding google_iff [symmetric]
  by (induction ms seen imps rule: addImports.induct) (auto split: if_splits)

lemma importLoop_eq:
  "seen = set imps \<Longrightarrow> distinct imps \<Longrightarrow>
   distinct (importLoop files seen imps) \<and> set (importLoop files seen imps) = set imps \<union>
     {i. \<exists>f \<in> set files. HasSuffix (f_Path f) ''.proto'' \<and> i \<in> set (findImports (f_Content f)) \<and> \<not> googleImport i}"
proof (induction files arbitrary: seen imps)
  case Nil
  then show ?case by simp
next
  case (Cons f files)
  have six: "length ''.proto'' = 6" by simp
  have suf: "\<not> (length (f_Path f) < 6 \<or> drop (length (f_Path f) - 6) (f_Path f) \<noteq> ''.proto'')
      \<longleftrightarrow> HasSuffix (f_Path f) ''.proto''"
    unfolding HasSuffix_def six by auto
  obtain seen' imps' where a: "addImports (findImports (f_Content f)) seen imps = (seen', imps')"
    by fastforce
  note e = addImports_eq [OF a Cons.prems]
  show ?case
  proof (cases "HasSuffix (f_Path f) ''.proto''")
    case True
    then show ?thesis using Cons.IH [of seen' imps'] e a suf by auto
  next
    case False
    then show ?thesis using Cons.IH [OF Cons.prems] suf by auto
  qed
qed

section \<open>The detected dependencies\<close>

text \<open>The label \<open>main\<close> of a module names a commit that contains the file.\<close>

definition providedBy :: "'s backend \<Rightarrow> 's \<Rightarrow> string \<Rightarrow> string \<Rightarrow> Module \<Rightarrow> bool" where
  "providedBy B s filePath d m \<longleftrightarrow>
     (\<exists>c files c'. Mod_Commit B s m ''main'' = Inr c \<and> c_ID c = d
        \<and> FilesAndCommitByCommitID B s m d = Inr (files, c') \<and> filePath \<in> f_Path ` set files)"

definition provides :: "'s backend \<Rightarrow> 's \<Rightarrow> string \<Rightarrow> string \<Rightarrow> bool" where
  "provides B s filePath d \<longleftrightarrow>
     (\<exists>owners owner ms m. Reg_ListOwners B s = Inr owners \<and> owner \<in> set owners
        \<and> Reg_ListModules B s (owner_Name owner) = Inr ms \<and> m \<in> set ms \<and> providedBy B s filePath d m)"

lemma findInModules_Cons:
  "(\<exists>d. providedBy B s p d m \<and> findInModules B s p (m # ms) = Some d) \<or>
   (\<forall>d. \<not> providedBy B s p d m) \<and> findInModules B s p (m # ms) = findInModules B s p ms"
proof (cases "Mod_Commit B s m ''main''")
  case (Inl e)
  then show ?thesis by (simp add: providedBy_def)
next
  case (Inr c)
  show ?thesis
  proof (cases "FilesAndCommitByCommitID B s m (c_ID c)")
    case (Inl e)
    then show ?thesis using Inr by (simp add: providedBy_def)
  next
    case fc: (Inr fc)
    have "list_ex (\<lambda>f. f_Path f = p) (fst fc) \<longleftrightarrow> p \<in> f_Path ` set (fst fc)" by (auto simp: list_ex_iff)
    then show ?thesis using Inr fc by (cases fc) (auto simp: providedBy_def)
  qed
qed

lemma findInModules_Some: "findInModules B s p ms = Some d \<Longrightarrow> \<exists>m \<in> set ms. providedBy B s p d m"
proof (induction ms)
  case Nil
  then show ?case by simp
next
  case (Cons m ms)
  then show ?case using findInModules_Cons [of B s p m ms] by auto
qed

lemma findInModules_None: "findInModules B s p ms = None \<Longrightarrow> m \<in> set ms \<Longrightarrow> \<not> providedBy B s p d m"
proof (induction ms)
  case Nil
  then show ?case by simp
next
  case (Cons m' ms)
  then show ?case using findInModules_Cons [of B s p m' ms] by auto
qed

lemma findInOwners_cases:
  "(\<exists>owner \<in> set owners. \<exists>ms. Reg_ListModules B s (owner_Name owner) = Inr ms
      \<and> (\<exists>m \<in> set ms. providedBy B s p (findInOwners B s p owners) m))
   \<or> findInOwners B s p owners = [] \<and> (\<forall>owner \<in> set owners. \<forall>ms m d.
      Reg_ListModules B s (owner_Name owner) = Inr ms \<longrightarrow> m \<in> set ms \<longrightarrow> \<not> providedBy B s p d m)"
proof (induction owners)
  case Nil
  then show ?case by simp
next
  case (Cons owner owners)
  show ?case
  proof (cases "Reg_ListModules B s (owner_Name owner)")
    case (Inl e)
    then show ?thesis using Cons by auto
  next
    case (Inr ms)
    show ?thesis
    proof (cases "findInModules B s p ms")
      case (Some i)
      from findInModules_Some [OF this] show ?thesis using Inr Some by auto
    next
      case None
      from findInModules_None [OF this] show ?thesis using Cons Inr None by auto
    qed
  qed
qed

lemma find_cases:
  "provides B s p (findModuleWithFile B s p) \<or> findModuleWithFile B s p = [] \<and> (\<forall>d. \<not> provides B s p d)"
proof (cases "Reg_ListOwners B s")
  case (Inl e)
  then show ?thesis by (simp add: findModuleWithFile_def provides_def)
next
  case (Inr owners)
  then have p: "provides B s p d \<longleftrightarrow> (\<exists>owner \<in> set owners. \<exists>ms. Reg_ListModules B s (owner_Name owner) = Inr ms
      \<and> (\<exists>m \<in> set ms. providedBy B s p d m))" for d
    by (auto simp: provides_def)
  have f: "findModuleWithFile B s p = findInOwners B s p owners" using Inr by (simp add: findModuleWithFile_def)
  show ?thesis using findInOwners_cases [of owners B s p] unfolding p f by blast
qed

lemma detectLoop_eq:
  "seen = set deps \<Longrightarrow> distinct deps \<Longrightarrow> [] \<notin> set deps \<Longrightarrow>
   distinct (detectLoop B s imps seen deps) \<and> [] \<notin> set (detectLoop B s imps seen deps) \<and>
   set (detectLoop B s imps seen deps) = set deps \<union> (findModuleWithFile B s ` set imps - {[]})"
proof (induction imps arbitrary: seen deps)
  case Nil
  then show ?case by simp
next
  case (Cons i imps)
  let ?c = "findModuleWithFile B s i"
  show ?case
  proof (cases "?c \<noteq> [] \<and> ?c \<notin> seen")
    case True
    then show ?thesis using Cons.IH [of "insert ?c seen" "deps @ [?c]"] Cons.prems by (auto simp: Let_def)
  next
    case False
    then show ?thesis using Cons.IH [OF Cons.prems] Cons.prems by (auto simp: Let_def)
  qed
qed

lemma detect_eq:
  "distinct (detectDependenciesFromImports B s files) \<and> [] \<notin> set (detectDependenciesFromImports B s files)
   \<and> set (detectDependenciesFromImports B s files) = findModuleWithFile B s ` set (extractProtoImports files) - {[]}"
  using detectLoop_eq [of "{}" "[]" B s "extractProtoImports files"]
  by (auto simp: detectDependenciesFromImports_def Let_def)

lemma depDigestLoop_total:
  "\<forall>d \<in> set ds. \<exists>c. Reg_CommitByID B s d = Inr c \<Longrightarrow> \<exists>xs. depDigestLoop B s ds acc = Inr xs"
  by (induction ds arbitrary: acc) auto

context backend_laws
begin

lemma provides_commit:
  assumes ok: "regOK (shake256 B) (view s)" and p: "provides B s p d"
  shows "d \<noteq> [] \<and> (\<exists>c. Reg_CommitByID B s d = Inr c)"
proof -
  obtain m c where "Mod_Commit B s m ''main'' = Inr c" "c_ID c = d" using p by (auto simp: provides_def providedBy_def)
  then obtain cid where cid: "Mod_CommitByID B s m cid = Inr c"
    by (auto simp: Mod_Commit_def Let_def split: sum.splits if_splits)
  then obtain rcd where "Meta_GetCommit B s cid = Inr rcd" "toCommit rcd = c"
    by (auto simp: Mod_CommitByID_def split: sum.splits if_splits)
  moreover from this obtain doc where doc: "vCommits (view s) cid = Some doc" "commitDocToRecord doc = Inr rcd"
    by (auto simp: Meta_GetCommit_view split: option.splits)
  moreover have "commit_ID rcd = cid" using doc commitDocToRecord_fields [OF doc(2)] cm.keyed [OF doc(1)] by simp
  moreover have "cid \<noteq> []" using ok doc(1) by (auto simp: regOK_def commitsOK_def)
  ultimately show ?thesis using \<open>c_ID c = d\<close> by (auto simp: Reg_CommitByID_def toCommit_def)
qed

end

section \<open>Uploads as registry steps\<close>

lemma uploadContent_reach:
  assumes run: "uploadContent B svc s content deps = (s', r)" and wf: "\<forall>f \<in> set (uc_Files content). wfPath (pf_Path f)"
    and reach: "reg_reach B s0 s"
  shows "reg_reach B s0 s'"
proof (cases "resolveModuleRef B svc s (uc_ModuleRef content)")
  case (Inl e)
  then show ?thesis using run reach by (simp add: uploadContent_def)
next
  case (Inr on)
  obtain owner name where on: "on = (owner, name)" by fastforce
  obtain s1 r1 where g: "Reg_GetOrCreateModule B s owner name = (s1, r1)" by fastforce
  have s1: "reg_reach B s0 s1" by (rule reg_reach.step [OF reach reg_step.get_or_create [OF g]])
  let ?files = "map uploadFile (uc_Files content)"
  have wf': "\<forall>f \<in> set ?files. wfPath (f_Path f)" using wf by (simp add: uploadFile_def)
  show ?thesis
  proof (cases r1)
    case (Inl e)
    then show ?thesis using run s1 Inr on g by (simp add: uploadContent_def)
  next
    case m: (Inr m)
    let ?deps = "uploadDeps B s1 ?files deps"
    show ?thesis
    proof (cases "Reg_GetDepModuleDigests B s1 ?deps")
      case (Inl e)
      then show ?thesis using run s1 Inr on g m by (simp add: uploadContent_def Let_def)
    next
      case d: (Inr dds)
      obtain s2 r2 where c: "Mod_CreateCommit B s1 m ?files (uploadLabels content) (uc_SourceControlUrl content)
          ?deps dds = (s2, r2)" by fastforce
      have "s' = s2" using run Inr on g m d c by (auto simp: uploadContent_def Let_def split: sum.splits)
      then show ?thesis using reg_reach.step [OF s1 reg_step.create_commit [OF c wf']] by simp
    qed
  qed
qed

definition wfUpload :: "uploadContentMsg list \<Rightarrow> bool" where
  "wfUpload contents \<longleftrightarrow> (\<forall>content \<in> set contents. \<forall>f \<in> set (uc_Files content). wfPath (pf_Path f))"

lemma uploadLoop_reach:
  "uploadLoop B svc s contents deps commits = (s', r) \<Longrightarrow> wfUpload contents \<Longrightarrow> reg_reach B s0 s \<Longrightarrow>
   reg_reach B s0 s'"
proof (induction contents arbitrary: s commits)
  case Nil
  then show ?case by simp
next
  case (Cons content contents)
  obtain s1 r1 where u: "uploadContent B svc s content deps = (s1, r1)" by fastforce
  have s1: "reg_reach B s0 s1" using Cons.prems(2,3) by (intro uploadContent_reach [OF u]) (auto simp: wfUpload_def)
  show ?case
  proof (cases r1)
    case (Inl e)
    then show ?thesis using Cons.prems(1) u s1 by simp
  next
    case (Inr c)
    then show ?thesis using Cons.IH [of s1 "commits @ [c]"] Cons.prems(1,2) u s1 by (simp add: wfUpload_def)
  qed
qed

lemma Upload_reach:
  "Svc_Upload B svc s contents deps = (s', r) \<Longrightarrow> wfUpload contents \<Longrightarrow> reg_reach B s0 s \<Longrightarrow> reg_reach B s0 s'"
  by (auto simp: Svc_Upload_def dest: uploadLoop_reach split: if_splits)

section \<open>What an upload leaves\<close>

context backend_laws
begin

lemma uploadContent_serves:
  assumes ok: "regOK (shake256 B) (view s)" and wf: "\<forall>f \<in> set (uc_Files content). wfPath (pf_Path f)"
    and cf: "collisionFree (shake256 B) (map uploadFile (uc_Files content)) (view s)"
    and ref: "uc_ModuleRef content = Some (MR_Name (Some (owner, name)))"
    and run: "uploadContent B svc s content deps = (s', Inr p)"
  shows "\<exists>m c. p = commitToProto c \<and> Reg_Module B s' owner name = Inr m
    \<and> Reg_ModuleByCommitID B s' (c_ID c) = Inr m
    \<and> FilesAndCommitByCommitID B s' m (c_ID c) =
        Inr (map (stamped (shake256 B)) (sort_key f_Path (map uploadFile (uc_Files content))), c)
    \<and> (\<forall>l \<in> set (uploadLabels content). l \<noteq> [] \<longrightarrow> Mod_Commit B s' m l = Inr c)"
proof -
  let ?files = "map uploadFile (uc_Files content)"
  obtain s1 r1 where g: "Reg_GetOrCreateModule B s owner name = (s1, r1)" by fastforce
  then obtain m where r1: "r1 = Inr m"
    using run ref by (cases r1) (auto simp: uploadContent_def resolveModuleRef_def)
  let ?deps = "uploadDeps B s1 ?files deps"
  obtain dds where d: "Reg_GetDepModuleDigests B s1 ?deps = Inr dds"
    using run ref g r1 by (cases "Reg_GetDepModuleDigests B s1 ?deps") (auto simp: uploadContent_def resolveModuleRef_def Let_def)
  obtain s2 r2 where c2: "Mod_CreateCommit B s1 m ?files (uploadLabels content) (uc_SourceControlUrl content)
      ?deps dds = (s2, r2)" by fastforce
  then obtain c where c: "r2 = Inr c" "s' = s2" "p = commitToProto c"
    using run ref g r1 d by (cases r2) (auto simp: uploadContent_def resolveModuleRef_def Let_def)
  have mo: "modulesOK (view s)" using ok by (simp add: regOK_def)
  note m = Reg_GetOrCreateModule_ok [OF g [unfolded r1] mo]
  have ok1: "regOK (shake256 B) (view s1)" using m by (intro regOK_sameButModules [OF ok]) auto
  have cf1: "collisionFree (shake256 B) ?files (view s1)"
    using cf m by (simp add: collisionFree_def sameButModules_def)
  have wf1: "\<forall>f \<in> set ?files. wfPath (f_Path f)" using wf by (simp add: uploadFile_def)
  note serves = CreateCommit_serves [OF ok1 wf1 cf1 c2 [unfolded c(1)]]
  note cc = CreateCommit_ok [OF c2 [unfolded c(1)] ok1 wf1]
  have mod1: "vModules (view s1) (Module_ID m) = Some (moduleRecordToDoc (mod_record m))" using m by simp
  have "Reg_Module B s2 owner name = Inr m"
  proof (rule Reg_Module_after)
    show "modulesOK (view s2)" using CreateCommit_regOK [OF c2 ok1 wf1] by (simp add: regOK_def)
    show "vModules (view s2) (ModuleID (OwnerID owner) name) = Some (moduleRecordToDoc (mod_record m))"
      using cc mod1 m by simp
  qed (use m in auto)
  moreover have "Mod_Commit B s2 m l = Inr c" if "l \<in> set (uploadLabels content)" "l \<noteq> []" for l
  proof -
    have "FilesAndCommit B s2 m l = Inr (map (stamped (shake256 B)) (sort_key f_Path ?files), c)"
      using serves that by blast
    then show ?thesis
      by (cases "Mod_Commit B s2 m l") (auto simp: FilesAndCommit_def split: sum.splits)
  qed
  ultimately show ?thesis
    using serves upload_then_module [OF ok1 wf1 c2 [unfolded c(1)] mod1] c(2,3) by blast
qed

end

lemma sort_uploadFile:
  "map toProtoFile (map (stamped shake) (sort_key f_Path (map uploadFile fs))) = sort_key pf_Path fs"
proof -
  have "sort_key f_Path (map uploadFile fs) = map uploadFile (sort_key pf_Path fs)"
    by (simp add: sort_key_map uploadFile_def)
  moreover have "toProtoFile (stamped shake (uploadFile f)) = f" for f
    by (simp add: toProtoFile_def stamped_def uploadFile_def)
  ultimately show ?thesis by (simp add: comp_def)
qed

section \<open>Properties\<close>

text \<open>
  C18. A client downloads what it uploads: after \<open>Upload\<close> of one content to a module given
  by name succeeds, the v1 download of that module by any of the given labels (\<open>main\<close> if
  none was given) delivers exactly the uploaded files, sorted by path, under the commit the
  upload returned.
\<close>

theorem upload_is_downloadable:
  assumes "backend_laws B view" and "regOK (shake256 B) (view s)" and "wfUpload [content]"
    and "collisionFree (shake256 B) (map uploadFile (uc_Files content)) (view s)"
    and "uc_ModuleRef content = Some (MR_Name (Some (owner, name)))"
    and "Svc_Upload B svc s [content] deps = (s', Inr commits)"
    and "label \<in> set (uploadLabels content)" and "label \<noteq> []"
  shows "\<exists>x. SvcV1_Download B svc s' [\<lparr>dv_ResourceRef = Some (RR_Name (Some
          \<lparr>rn_Owner = owner, rn_Module = name, rn_Child = LabelName label\<rparr>)), dv_FileTypes = [],
          dv_Paths = [], dv_PathsAllowNotExist = allow\<rparr>] = Inr [x]
     \<and> d1_Files x = sort_key pf_Path (uc_Files content) \<and> commits = [d1_Commit x]"
proof -
  have cas: "sv_casReg svc" using assms(6) by (auto simp: Svc_Upload_def split: if_splits)
  obtain r where u: "uploadContent B svc s content deps = (s', r)"
    using assms(6) cas by (auto simp: Svc_Upload_def split: prod.splits sum.splits)
  then obtain p where p: "r = Inr p" "commits = [p]"
    using assms(6) cas by (cases r) (auto simp: Svc_Upload_def)
  have wf: "\<forall>f \<in> set (uc_Files content). wfPath (pf_Path f)" using assms(3) by (simp add: wfUpload_def)
  obtain m c where mc: "p = commitToProto c" "Reg_Module B s' owner name = Inr m"
    "Reg_ModuleByCommitID B s' (c_ID c) = Inr m" "Mod_Commit B s' m label = Inr c"
    "FilesAndCommitByCommitID B s' m (c_ID c) =
        Inr (map (stamped (shake256 B)) (sort_key f_Path (map uploadFile (uc_Files content))), c)"
    using backend_laws.uploadContent_serves [OF assms(1,2) wf assms(4,5) u [unfolded p(1)]] assms(7,8) by blast
  have obj: "getCommitObjectV1 c = commitToProto c" by (simp add: getCommitObjectV1_def commitToProto_def)
  have "filterFilesV1 fs [] [] = map toProtoFile fs" for fs by (simp add: filterFilesV1_eq)
  then show ?thesis
    unfolding p(2) mc(1) SvcV1_Download_def downloadValueV1_def resolveCommitIdV1_def resolveChild_def
      downloadByCommitIDV1_def buildDownloadContentV1_def
    by (simp add: cas mc(2-5) obj sort_uploadFile del: map_map)
qed

definition exampleUpload :: uploadContentMsg where
  "exampleUpload =
     \<lparr>uc_ModuleRef = Some (MR_Name (Some (''acme'', ''pets''))),
      uc_Files = [\<lparr>pf_Path = ''b.proto'', pf_Content = ''y''\<rparr>, \<lparr>pf_Path = ''a.proto'', pf_Content = ''x''\<rparr>],
      uc_ScopedLabelRefs = [], uc_SourceControlUrl = []\<rparr>"

lemma exampleUpload_files: "map uploadFile (uc_Files exampleUpload) = exampleFiles"
  by (simp add: exampleUpload_def uploadFile_def exampleFiles_def)

lemma exampleUpload_runs:
  "\<exists>s' c. Svc_Upload memBackend \<lparr>sv_casReg = True, sv_Host = ''h''\<rparr> memEmpty [exampleUpload] [] = (s', Inr [c])"
proof -
  obtain s1 m where g: "Reg_GetOrCreateModule memBackend memEmpty ''acme'' ''pets'' = (s1, Inr m)"
    using mem_create by blast
  have "extractProtoImports exampleFiles = []" by code_simp
  then have d: "uploadDeps memBackend s1 exampleFiles [] = []"
    by (simp add: uploadDeps_def detectDependenciesFromImports_def)
  obtain s2 c where "Mod_CreateCommit memBackend s1 m exampleFiles [''main''] [] [] [] = (s2, Inr c)"
    using mem_CreateCommit [of "[]", simplified] by blast
  moreover have "uploadLabels exampleUpload = [''main'']" "uc_SourceControlUrl exampleUpload = []"
    "uc_ModuleRef exampleUpload = Some (MR_Name (Some (''acme'', ''pets'')))"
    by (simp_all add: uploadLabels_def exampleUpload_def)
  ultimately show ?thesis using g d
    by (simp add: Svc_Upload_def uploadContent_def resolveModuleRef_def exampleUpload_files
        Reg_GetDepModuleDigests_def)
qed

theorem upload_is_downloadable_witness:
  "\<exists>s' c x. Svc_Upload memBackend \<lparr>sv_casReg = True, sv_Host = ''h''\<rparr> memEmpty [exampleUpload] [] = (s', Inr [c])
     \<and> SvcV1_Download memBackend \<lparr>sv_casReg = True, sv_Host = ''h''\<rparr> s' [\<lparr>dv_ResourceRef = Some (RR_Name (Some
          \<lparr>rn_Owner = ''acme'', rn_Module = ''pets'', rn_Child = LabelName ''main''\<rparr>)), dv_FileTypes = [],
          dv_Paths = [], dv_PathsAllowNotExist = False\<rparr>] = Inr [x]
     \<and> d1_Files x = sort_key pf_Path (uc_Files exampleUpload) \<and> c = d1_Commit x"
proof -
  let ?svc = "\<lparr>sv_casReg = True, sv_Host = ''h''\<rparr>"
  obtain s' c where run: "Svc_Upload memBackend ?svc memEmpty [exampleUpload] [] = (s', Inr [c])"
    using exampleUpload_runs by blast
  have ok: "regOK (shake256 memBackend) (memView memEmpty)" by (rule regOK_empty [OF memEmpty_empty])
  have wf: "wfUpload [exampleUpload]" using exampleFiles_wf
    by (simp add: wfUpload_def exampleUpload_def exampleFiles_def)
  have cf: "collisionFree (shake256 memBackend) (map uploadFile (uc_Files exampleUpload)) (memView memEmpty)"
    using exampleFiles_collisionFree by (simp add: exampleUpload_files)
  have ref: "uc_ModuleRef exampleUpload = Some (MR_Name (Some (''acme'', ''pets'')))"
    and l: "''main'' \<in> set (uploadLabels exampleUpload)" "''main'' \<noteq> ([] :: string)"
    by (simp_all add: exampleUpload_def uploadLabels_def)
  from upload_is_downloadable [OF mem.backend_laws_axioms ok wf cf ref run l, of False] run
  show ?thesis by auto
qed

text \<open>
  C25. The imports found in the uploaded files: each once, exactly the matches of the
  regular expression in the contents of the proto files, except those below \<open>google/\<close>; a
  match is the keyword, white space, and a non-empty quoted text; the leftmost match is
  taken first and the search goes on behind it.
\<close>

theorem proto_imports_correct:
  "distinct (extractProtoImports files)
   \<and> set (extractProtoImports files) =
       {i. \<exists>f \<in> set files. HasSuffix (f_Path f) ''.proto'' \<and> i \<in> set (findImports (f_Content f)) \<and> \<not> googleImport i}
   \<and> (matchImport t = Some (g, r) \<longleftrightarrow>
        (\<exists>ws. t = ''import'' @ ws @ [CHR 0x22] @ g @ [CHR 0x22] @ r \<and> ws \<noteq> [] \<and> set ws \<subseteq> Collect isSpace
           \<and> g \<noteq> [] \<and> CHR 0x22 \<notin> set g))
   \<and> findImports t =
       (case find (\<lambda>i. matchImport (drop i t) \<noteq> None) [0..<length t] of
          None \<Rightarrow> []
        | Some i \<Rightarrow> (case matchImport (drop i t) of None \<Rightarrow> [] | Some (g, r) \<Rightarrow> g # findImports r))"
proof -
  have "findImports t =
       (case find (\<lambda>i. matchImport (drop i t) \<noteq> None) [0..<length t] of
          None \<Rightarrow> []
        | Some i \<Rightarrow> (case matchImport (drop i t) of None \<Rightarrow> [] | Some (g, r) \<Rightarrow> g # findImports r))"
  proof (cases "find (\<lambda>i. matchImport (drop i t) \<noteq> None) [0..<length t]")
    case None
    then have "matchImport (drop i t) = None" if "i < length t" for i
      using that by (cases "matchImport (drop i t)") (auto simp: find_None_iff)
    then have "findImports t = []" by (intro findImports_none) blast
    then show ?thesis unfolding None by simp
  next
    case (Some i)
    then have i: "i < length t" "\<forall>j < i. matchImport (drop j t) = None" "matchImport (drop i t) \<noteq> None"
      by (auto simp: find_Some_iff simp del: not_None_eq)
    then obtain g r where gr: "matchImport (drop i t) = Some (g, r)" by auto
    have "findImports t = g # findImports r"
      using findImports_leftmost [OF i(2)] findImports_at [OF gr] i(1) by simp
    then show ?thesis unfolding Some using gr by simp
  qed
  then show ?thesis
    using importLoop_eq [of "{}" "[]" files] matchImport_iff [of t g r]
    by (simp add: extractProtoImports_def)
qed

text \<open>
  C24. Detected dependencies: each commit ID once, each the commit that \<open>main\<close> of a listed
  module names and that contains an imported file; an import that some module provides is
  covered; and the detected list never makes the upload fail, since the module digests of
  all its commits can be read.
\<close>

theorem detected_dependencies_correct:
  assumes "backend_laws B view" and "regOK (shake256 B) (view s)"
  shows "distinct (detectDependenciesFromImports B s files)
    \<and> (\<forall>d \<in> set (detectDependenciesFromImports B s files). \<exists>p \<in> set (extractProtoImports files). provides B s p d)
    \<and> (\<forall>p \<in> set (extractProtoImports files). \<forall>d. provides B s p d \<longrightarrow>
         (\<exists>d' \<in> set (detectDependenciesFromImports B s files). provides B s p d'))
    \<and> (\<exists>digests. Reg_GetDepModuleDigests B s (detectDependenciesFromImports B s files) = Inr digests)"
proof -
  let ?ds = "detectDependenciesFromImports B s files" and ?ps = "extractProtoImports files"
  have dist: "distinct ?ds" and set: "set ?ds = findModuleWithFile B s ` set ?ps - {[]}"
    using detect_eq [of B s files] by auto
  have 1: "\<exists>p \<in> set ?ps. provides B s p d" if d: "d \<in> set ?ds" for d
  proof -
    obtain p where "p \<in> set ?ps" "d = findModuleWithFile B s p" "d \<noteq> []" using d unfolding set by blast
    then show ?thesis using find_cases [of B s p] by auto
  qed
  have 2: "\<exists>d' \<in> set ?ds. provides B s p d'" if p: "p \<in> set ?ps" "provides B s p d" for p d
  proof -
    have f: "provides B s p (findModuleWithFile B s p)" using find_cases [of B s p] p(2) by blast
    have "findModuleWithFile B s p \<in> set ?ds"
      unfolding set using p(1) backend_laws.provides_commit [OF assms f] by blast
    then show ?thesis using f by (rule rev_bexI)
  qed
  have "\<exists>c. Reg_CommitByID B s d = Inr c" if d: "d \<in> set ?ds" for d
  proof -
    obtain p where "provides B s p d" using 1 [OF d] by blast
    from backend_laws.provides_commit [OF assms this] show ?thesis by blast
  qed
  then have "\<exists>xs. Reg_GetDepModuleDigests B s ?ds = Inr xs"
    unfolding Reg_GetDepModuleDigests_def by (intro depDigestLoop_total) blast
  moreover have "\<forall>d \<in> set ?ds. \<exists>p \<in> set ?ps. provides B s p d" using 1 by (rule ballI)
  moreover have "\<forall>p \<in> set ?ps. \<forall>d. provides B s p d \<longrightarrow> (\<exists>d' \<in> set ?ds. provides B s p d')"
    using 2 by (intro ballI allI impI)
  ultimately show ?thesis using dist by (intro conjI)
qed

theorem detected_dependencies_correct_witness:
  "\<exists>s' c digests. Svc_Upload memBackend \<lparr>sv_casReg = True, sv_Host = ''h''\<rparr> memEmpty [exampleUpload] [] = (s', Inr [c])
     \<and> Reg_GetDepModuleDigests memBackend s'
         (detectDependenciesFromImports memBackend s' (map uploadFile (uc_Files exampleUpload))) = Inr digests"
proof -
  let ?svc = "\<lparr>sv_casReg = True, sv_Host = ''h''\<rparr>"
  obtain s' c where run: "Svc_Upload memBackend ?svc memEmpty [exampleUpload] [] = (s', Inr [c])"
    using exampleUpload_runs by blast
  have "wfUpload [exampleUpload]" using exampleFiles_wf by (simp add: wfUpload_def exampleUpload_def exampleFiles_def)
  from Upload_reach [OF run this reg_reach.start]
  have "regOK (shake256 memBackend) (memView s')" by (rule mem.regOK_reach [OF _ regOK_empty [OF memEmpty_empty]])
  from detected_dependencies_correct [OF mem.backend_laws_axioms this] run show ?thesis by blast
qed

text \<open>
  The expression knows no modifier: an \<open>import public\<close> or \<open>import weak\<close> is not found,
  so a module imported only in this way is not detected as a dependency.
\<close>

theorem public_imports_missed:
  "findImports (''import public '' @ [CHR 0x22] @ ''a.proto'' @ [CHR 0x22]) = []
   \<and> findImports (''import weak '' @ [CHR 0x22] @ ''a.proto'' @ [CHR 0x22]) = []
   \<and> findImports (''import '' @ [CHR 0x22] @ ''a.proto'' @ [CHR 0x22]) = [''a.proto'']"
  by code_simp

end
