(* ===== verification/Module_Service.thy ===== *)
theory Module_Service
  imports Upload_Service
begin

text \<open>
  The v1 module service (\<open>service/module.go\<close>) and the owner service (\<open>service/owners.go\<close>).
  Repeated message fields hold no nil elements; the \<open>OwnerRef\<close> and \<open>ModuleRef\<close> fields of a
  value may be nil, which panics.  The lemmas show what creation and deletion do to the
  modules that are found by name, and that every state change of the API is a sequence of
  steps of the registry.
\<close>

section \<open>Messages\<close>

datatype ownerRef = OR_Id string | OR_Name string | OR_None

record protoModule =
  pm_Id :: string
  pm_OwnerId :: string
  pm_Name :: string
  pm_Description :: string
  pm_CreateTime :: time

record organization =
  org_Id :: string
  org_Name :: string

record createModuleMsg =
  cm_OwnerRef :: "ownerRef option"
  cm_Name :: string
  cm_Description :: string

text \<open>The message every handler builds from a module.\<close>

definition moduleToProto :: "Module \<Rightarrow> protoModule" where
  "moduleToProto m =
     \<lparr>pm_Id = Module_ID m, pm_OwnerId = Module_OwnerID m, pm_Name = Module_Name m,
      pm_Description = Module_Description m, pm_CreateTime = Module_CreateTime m\<rparr>"

section \<open>Reading modules\<close>

definition getModuleByID :: "'s backend \<Rightarrow> 's \<Rightarrow> string \<Rightarrow> protoModule res" where
  "getModuleByID B s i =
     (case Reg_ModuleByID B s i of
        Inl _ \<Rightarrow> Inl (notFoundErr (''module not found: '' @ i))
      | Inr m \<Rightarrow> Inr (moduleToProto m))"

definition getModuleByName :: "'s backend \<Rightarrow> 's \<Rightarrow> string \<Rightarrow> string \<Rightarrow> protoModule res" where
  "getModuleByName B s owner name =
     (case Reg_Module B s owner name of
        Inl _ \<Rightarrow> Inl (notFoundErr (''module not found: '' @ owner @ ''/'' @ name))
      | Inr m \<Rightarrow> Inr (moduleToProto m))"

text \<open>The switch over a module reference of \<open>GetModules\<close> and \<open>UpdateModules\<close>.\<close>

definition getModuleRef :: "'s backend \<Rightarrow> 's \<Rightarrow> moduleRef \<Rightarrow> protoModule res" where
  "getModuleRef B s ref =
     (case ref of
        MR_Id i \<Rightarrow> getModuleByID B s i
      | MR_Name (Some (owner, name)) \<Rightarrow> getModuleByName B s owner name
      | MR_Name None \<Rightarrow> Inl (Errorf ''module name is nil'')
      | MR_None \<Rightarrow> Inl (Errorf ''unknown module ref type''))"

definition Svc_GetModules :: "'s backend \<Rightarrow> Service \<Rightarrow> 's \<Rightarrow> moduleRef list \<Rightarrow> protoModule list res" where
  "Svc_GetModules B svc s refs =
     (if \<not> sv_casReg svc then Inl errNoCAS else mapRes (getModuleRef B s) refs)"

text \<open>References by ID and owners whose listing fails are skipped.\<close>

fun listModulesLoop :: "'s backend \<Rightarrow> 's \<Rightarrow> ownerRef list \<Rightarrow> protoModule list \<Rightarrow> protoModule list" where
  "listModulesLoop B s [] modules = modules"
| "listModulesLoop B s (ref # refs) modules =
     (case ref of
        OR_Name ownerName \<Rightarrow>
          (case Reg_ListModules B s ownerName of
             Inl _ \<Rightarrow> listModulesLoop B s refs modules
           | Inr ms \<Rightarrow> listModulesLoop B s refs (modules @ map moduleToProto ms))
      | _ \<Rightarrow> listModulesLoop B s refs modules)"

definition Svc_ListModules :: "'s backend \<Rightarrow> Service \<Rightarrow> 's \<Rightarrow> ownerRef list \<Rightarrow> protoModule list res" where
  "Svc_ListModules B svc s refs =
     (if \<not> sv_casReg svc then Inl errNoCAS
      else if refs = [] then Inr []
      else Inr (listModulesLoop B s refs []))"

section \<open>Changing modules\<close>

fun createModulesLoop ::
  "'s backend \<Rightarrow> 's \<Rightarrow> createModuleMsg list \<Rightarrow> protoModule list \<Rightarrow> 's \<times> protoModule list res" where
  "createModulesLoop B s [] modules = (s, Inr modules)"
| "createModulesLoop B s (v # vs) modules =
     (case cm_OwnerRef v of
        None \<Rightarrow> (s, Inl Panic)
      | Some (OR_Id _) \<Rightarrow> (s, Inl (invalidArg ''owner lookup by ID not supported''))
      | Some OR_None \<Rightarrow> (s, Inl (invalidArg ''invalid owner ref''))
      | Some (OR_Name ownerName) \<Rightarrow>
          (case Reg_CreateModule B s ownerName (cm_Name v) (cm_Description v) of
             (s', Inl err) \<Rightarrow> (s', Inl (ConnectErr CodeInternal (Some err)))
           | (s', Inr m) \<Rightarrow> createModulesLoop B s' vs (modules @ [moduleToProto m])))"

definition Svc_CreateModules ::
  "'s backend \<Rightarrow> Service \<Rightarrow> 's \<Rightarrow> createModuleMsg list \<Rightarrow> 's \<times> protoModule list res" where
  "Svc_CreateModules B svc s values =
     (if \<not> sv_casReg svc then (s, Inl errNoCAS) else createModulesLoop B s values [])"

text \<open>Updates are not persisted: the handler reads the modules and returns them as they are.\<close>

definition updateModuleRef :: "'s backend \<Rightarrow> 's \<Rightarrow> moduleRef option \<Rightarrow> protoModule res" where
  "updateModuleRef B s ref =
     (case ref of
        None \<Rightarrow> Inl Panic
      | Some r \<Rightarrow>
          (case getModuleRef B s r of
             Inl err \<Rightarrow> Inl (ConnectErr CodeNotFound (Some err))
           | Inr m \<Rightarrow> Inr m))"

definition Svc_UpdateModules ::
  "'s backend \<Rightarrow> Service \<Rightarrow> 's \<Rightarrow> moduleRef option list \<Rightarrow> protoModule list res" where
  "Svc_UpdateModules B svc s refs =
     (if \<not> sv_casReg svc then Inl errNoCAS else mapRes (updateModuleRef B s) refs)"

definition deleteTarget :: "'s backend \<Rightarrow> 's \<Rightarrow> moduleRef \<Rightarrow> (string \<times> string) res" where
  "deleteTarget B s ref =
     (case ref of
        MR_Id i \<Rightarrow>
          (case Reg_ModuleByID B s i of
             Inl err \<Rightarrow> Inl (ConnectErr CodeNotFound (Some err))
           | Inr m \<Rightarrow> Inr (Module_Owner m, Module_Name m))
      | MR_Name (Some n) \<Rightarrow> Inr n
      | MR_Name None \<Rightarrow> Inl (invalidArg ''module name is nil'')
      | MR_None \<Rightarrow> Inl (invalidArg ''unknown module ref type''))"

fun deleteModulesLoop :: "'s backend \<Rightarrow> 's \<Rightarrow> moduleRef list \<Rightarrow> 's \<times> goerr option" where
  "deleteModulesLoop B s [] = (s, None)"
| "deleteModulesLoop B s (ref # refs) =
     (case deleteTarget B s ref of
        Inl err \<Rightarrow> (s, Some err)
      | Inr (owner, name) \<Rightarrow>
          (case Reg_DeleteModule B s owner name of
             (s', Some err) \<Rightarrow> (s', Some (ConnectErr CodeInternal (Some err)))
           | (s', None) \<Rightarrow> deleteModulesLoop B s' refs))"

definition Svc_DeleteModules :: "'s backend \<Rightarrow> Service \<Rightarrow> 's \<Rightarrow> moduleRef list \<Rightarrow> 's \<times> goerr option" where
  "Svc_DeleteModules B svc s refs =
     (if \<not> sv_casReg svc then (s, Some errNoCAS) else deleteModulesLoop B s refs)"

section \<open>Owners\<close>

text \<open>An owner that is looked up by a name that is not known is answered as a virtual one.\<close>

definition getOwnerRef :: "'s backend \<Rightarrow> 's \<Rightarrow> ownerRef \<Rightarrow> organization res" where
  "getOwnerRef B s ref =
     (case ref of
        OR_Id i \<Rightarrow>
          (case Reg_Owner B s i of
             Inl _ \<Rightarrow> Inl (notFoundErr (''owner not found: '' @ i))
           | Inr r \<Rightarrow> Inr \<lparr>org_Id = owner_ID r, org_Name = owner_Name r\<rparr>)
      | OR_Name name \<Rightarrow>
          (case Reg_OwnerByName B s name of
             Inl _ \<Rightarrow> Inr \<lparr>org_Id = [], org_Name = name\<rparr>
           | Inr r \<Rightarrow> Inr \<lparr>org_Id = owner_ID r, org_Name = owner_Name r\<rparr>)
      | OR_None \<Rightarrow> Inl (invalidArg ''unknown owner reference type''))"

definition Svc_GetOwners :: "'s backend \<Rightarrow> Service \<Rightarrow> 's \<Rightarrow> ownerRef list \<Rightarrow> organization list res" where
  "Svc_GetOwners B svc s refs =
     (if \<not> sv_casReg svc then Inl errNoCAS else mapRes (getOwnerRef B s) refs)"

section \<open>Creation and deletion\<close>

text \<open>The name reference of a module that a request creates.\<close>

definition createdRef :: "createModuleMsg \<Rightarrow> moduleRef" where
  "createdRef v =
     (case cm_OwnerRef v of
        Some (OR_Name owner) \<Rightarrow> MR_Name (Some (owner, cm_Name v))
      | _ \<Rightarrow> MR_None)"

text \<open>The identifier a module reference stands for.\<close>

definition refID :: "moduleRef \<Rightarrow> string" where
  "refID ref =
     (case ref of
        MR_Id i \<Rightarrow> i
      | MR_Name (Some (owner, name)) \<Rightarrow> ModuleID (OwnerID owner) name
      | _ \<Rightarrow> [])"

context backend_laws
begin

lemma found_by_name:
  "modulesOK (view s) \<Longrightarrow> vModules (view s) (Module_ID m) = Some (moduleRecordToDoc (mod_record m)) \<Longrightarrow>
   Module_Owner m = owner \<Longrightarrow> Module_Name m = name \<Longrightarrow> Module_ID m = ModuleID (OwnerID owner) name \<Longrightarrow>
   getModuleRef B s (MR_Name (Some (owner, name))) = Inr (moduleToProto m)"
  by (simp add: getModuleRef_def getModuleByName_def Reg_Module_after)

lemma createModulesLoop_ok:
  "createModulesLoop B s vs ms = (s', Inr ms') \<Longrightarrow> modulesOK (view s) \<Longrightarrow>
   modulesOK (view s') \<and> sameButModules (view s) (view s') \<and> vModules (view s) \<subseteq>\<^sub>m vModules (view s')
   \<and> (\<exists>ns. ms' = ms @ ns \<and> mapRes (getModuleRef B s') (map createdRef vs) = Inr ns)"
proof (induction vs arbitrary: s ms)
  case Nil
  then show ?case by simp
next
  case (Cons v vs)
  obtain owner where o: "cm_OwnerRef v = Some (OR_Name owner)"
    using Cons.prems(1) by (auto split: option.splits ownerRef.splits)
  obtain s1 r1 where c: "Reg_CreateModule B s owner (cm_Name v) (cm_Description v) = (s1, r1)" by fastforce
  then obtain m where r1: "r1 = Inr m" and rest: "createModulesLoop B s1 vs (ms @ [moduleToProto m]) = (s', Inr ms')"
    using Cons.prems(1) o by (cases r1) auto
  note m = Reg_CreateModule_ok [OF c [unfolded r1] Cons.prems(2)]
  then have ok1: "modulesOK (view s1)" by blast
  from Cons.IH [OF rest ok1] obtain ns where ih: "modulesOK (view s')" "sameButModules (view s1) (view s')"
    "vModules (view s1) \<subseteq>\<^sub>m vModules (view s')" "ms' = (ms @ [moduleToProto m]) @ ns"
    "mapRes (getModuleRef B s') (map createdRef vs) = Inr ns" by blast
  have "vModules (view s1) (Module_ID m) = Some (moduleRecordToDoc (mod_record m))" using m by simp
  then have "vModules (view s') (Module_ID m) = Some (moduleRecordToDoc (mod_record m))"
    using ih(3) by (metis domI map_le_def)
  from found_by_name [OF ih(1) this, of owner "cm_Name v"] m o
  have "getModuleRef B s' (createdRef v) = Inr (moduleToProto m)" by (simp add: createdRef_def)
  moreover have "vModules (view s) \<subseteq>\<^sub>m vModules (view s')" using m ih(3) map_le_trans by blast
  moreover have "sameButModules (view s) (view s')" using m ih(2) by (simp add: sameButModules_def)
  ultimately show ?case using ih by simp
qed

lemma deleteTarget_ID:
  assumes "modulesOK (view s)" "deleteTarget B s ref = Inr (owner, name)"
  shows "ModuleID (OwnerID owner) name = refID ref"
proof (cases ref)
  case (MR_Id i)
  then obtain m where m: "Reg_ModuleByID B s i = Inr m" "owner = Module_Owner m" "name = Module_Name m"
    using assms(2) by (auto simp: deleteTarget_def split: sum.splits)
  then obtain d where d: "vModules (view s) i = Some d" "m = \<lparr>mod_record = moduleDocToRecord d\<rparr>"
    by (auto simp: Reg_ModuleByID_def Meta_GetModule_view split: option.splits sum.splits)
  from modulesOKD [OF assms(1) d(1)] show ?thesis
    unfolding m(2,3) d(2) MR_Id by (simp add: refID_def Module_Owner_def Module_Name_def moduleDocToRecord_def)
qed (use assms(2) in \<open>auto simp: deleteTarget_def refID_def split: option.splits\<close>)

lemma deleteModulesLoop_ok:
  "deleteModulesLoop B s refs = (s', None) \<Longrightarrow> modulesOK (view s) \<Longrightarrow>
   view s' = (view s)\<lparr>vModules := vModules (view s) |` (- (refID ` set refs))\<rparr> \<and> modulesOK (view s')
   \<and> refID ` set refs \<subseteq> dom (vModules (view s)) \<and> distinct (map refID refs)"
proof (induction refs arbitrary: s)
  case Nil
  then show ?case by simp
next
  case (Cons ref refs)
  obtain owner name where t: "deleteTarget B s ref = Inr (owner, name)"
    using Cons.prems(1) by (auto split: sum.splits)
  obtain s1 where d: "Reg_DeleteModule B s owner name = (s1, None)" and rest: "deleteModulesLoop B s1 refs = (s', None)"
    using Cons.prems(1) t by (auto split: prod.splits option.splits)
  note del = Reg_DeleteModule_ok [OF d Cons.prems(2), unfolded deleteTarget_ID [OF Cons.prems(2) t]]
  then have ok1: "modulesOK (view s1)" and v1: "view s1 = (view s)\<lparr>vModules := (vModules (view s))(refID ref := None)\<rparr>"
    by auto
  note ih = Cons.IH [OF rest ok1]
  have eq: "(vModules (view s))(refID ref := None) |` (- (refID ` set refs)) = vModules (view s) |` (- (refID ` set (ref # refs)))"
    by (auto simp: restrict_map_def)
  have "view s' = (view s1)\<lparr>vModules := vModules (view s1) |` (- (refID ` set refs))\<rparr>" using ih by blast
  also have "\<dots> = (view s)\<lparr>vModules := (vModules (view s))(refID ref := None) |` (- (refID ` set refs))\<rparr>"
    unfolding v1 by simp
  finally have "view s' = (view s)\<lparr>vModules := vModules (view s) |` (- (refID ` set (ref # refs)))\<rparr>"
    unfolding eq .
  moreover have "refID ` set refs \<subseteq> dom (vModules (view s)) - {refID ref}"
  proof -
    have "refID ` set refs \<subseteq> dom ((vModules (view s))(refID ref := None))"
      using ih [THEN conjunct2, THEN conjunct2, THEN conjunct1] unfolding v1 by (simp add: fun_upd_def del: dom_fun_upd)
    then show ?thesis by simp
  qed
  ultimately show ?case using ih del by auto
qed

lemma deleted_not_found:
  assumes "modulesOK (view s)" "vModules (view s) (refID ref) = None" "ref \<noteq> MR_None" "ref \<noteq> MR_Name None"
  shows "\<exists>msg. getModuleRef B s ref = Inl (notFoundErr msg)"
proof (cases ref)
  case (MR_Id i)
  then show ?thesis using assms(2)
    by (auto simp: getModuleRef_def getModuleByID_def Reg_ModuleByID_def Meta_GetModule_view refID_def)
next
  case (MR_Name n)
  then obtain owner name where "n = Some (owner, name)" using assms(4) by (cases n) auto
  then show ?thesis using Reg_Module_absent [OF _ assms(1), of owner name] assms(2) MR_Name
    by (auto simp: getModuleRef_def getModuleByName_def refID_def)
qed (use assms(3) in simp)

end

lemma deleteModulesLoop_refs:
  "deleteModulesLoop B s refs = (s', None) \<Longrightarrow> ref \<in> set refs \<Longrightarrow> ref \<noteq> MR_None \<and> ref \<noteq> MR_Name None"
proof (induction refs arbitrary: s)
  case Nil
  then show ?case by simp
next
  case (Cons r refs)
  then show ?case
    by (cases "ref = r") (auto simp: deleteTarget_def split: sum.splits prod.splits option.splits)
qed

section \<open>The API as steps of the registry\<close>

text \<open>
  The handlers that change the state, with any request (uploaded paths fit the manifest's
  line format) and any outcome.
\<close>

inductive api_step :: "'s backend \<Rightarrow> Service \<Rightarrow> 's \<Rightarrow> 's \<Rightarrow> bool" for B :: "'s backend" and svc :: Service where
  upload: "Svc_Upload B svc s contents deps = (s', r) \<Longrightarrow> wfUpload contents \<Longrightarrow> api_step B svc s s'"
| create_modules: "Svc_CreateModules B svc s vs = (s', r) \<Longrightarrow> api_step B svc s s'"
| delete_modules: "Svc_DeleteModules B svc s refs = (s', e) \<Longrightarrow> api_step B svc s s'"

inductive api_reach :: "'s backend \<Rightarrow> Service \<Rightarrow> 's \<Rightarrow> 's \<Rightarrow> bool"
  for B :: "'s backend" and svc :: Service and s0 :: 's where
  api_start: "api_reach B svc s0 s0"
| api_then: "api_reach B svc s0 s \<Longrightarrow> api_step B svc s s' \<Longrightarrow> api_reach B svc s0 s'"

inductive_cases api_stepE: "api_step B svc s s'"

lemma createModulesLoop_reach:
  "createModulesLoop B s vs ms = (s', r) \<Longrightarrow> reg_reach B s0 s \<Longrightarrow> reg_reach B s0 s'"
proof (induction vs arbitrary: s ms)
  case Nil
  then show ?case by simp
next
  case (Cons v vs)
  show ?case
  proof (cases "\<exists>owner. cm_OwnerRef v = Some (OR_Name owner)")
    case False
    then show ?thesis using Cons.prems by (auto split: option.splits ownerRef.splits)
  next
    case True
    then obtain owner where o: "cm_OwnerRef v = Some (OR_Name owner)" by blast
    obtain s1 r1 where c: "Reg_CreateModule B s owner (cm_Name v) (cm_Description v) = (s1, r1)" by fastforce
    have s1: "reg_reach B s0 s1" by (rule reg_reach.step [OF Cons.prems(2) reg_step.create_module [OF c]])
    show ?thesis
    proof (cases r1)
      case (Inl e)
      then show ?thesis using Cons.prems(1) o c s1 by simp
    next
      case (Inr m)
      then show ?thesis using Cons.IH [of s1 "ms @ [moduleToProto m]"] Cons.prems(1) o c s1 by simp
    qed
  qed
qed

lemma deleteModulesLoop_reach:
  "deleteModulesLoop B s refs = (s', e) \<Longrightarrow> reg_reach B s0 s \<Longrightarrow> reg_reach B s0 s'"
proof (induction refs arbitrary: s)
  case Nil
  then show ?case by simp
next
  case (Cons ref refs)
  show ?case
  proof (cases "deleteTarget B s ref")
    case (Inl err)
    then show ?thesis using Cons.prems by simp
  next
    case (Inr on)
    obtain owner name where on: "on = (owner, name)" by fastforce
    obtain s1 r1 where d: "Reg_DeleteModule B s owner name = (s1, r1)" by fastforce
    have s1: "reg_reach B s0 s1" by (rule reg_reach.step [OF Cons.prems(2) reg_step.delete_module [OF d]])
    show ?thesis using Cons.IH [OF _ s1] Cons.prems(1) Inr on d s1 by (cases r1) auto
  qed
qed

lemma api_step_reach: "api_step B svc s s' \<Longrightarrow> reg_reach B s0 s \<Longrightarrow> reg_reach B s0 s'"
  by (elim api_stepE)
    (auto simp: Svc_CreateModules_def Svc_DeleteModules_def intro: Upload_reach createModulesLoop_reach
      deleteModulesLoop_reach split: if_splits)

section \<open>Properties\<close>

text \<open>
  C19. The API refines the registry: whatever a sequence of upload, create and delete
  requests does, each succeeding or failing at any point, is a sequence of the registry's
  operations; so every registry a server reaches from an empty one keeps the registry
  invariant.
\<close>

theorem api_refines_registry:
  assumes "api_reach B svc s0 s"
  shows "reg_reach B s0 s \<and> (\<forall>view. backend_laws B view \<and> emptyStore (view s0) \<longrightarrow> regOK (shake256 B) (view s))"
proof -
  have r: "reg_reach B s0 s" using assms
    by (induction rule: api_reach.induct) (auto intro: reg_reach.start api_step_reach)
  have "regOK (shake256 B) (view s)" if "backend_laws B view" "emptyStore (view s0)" for view
    by (rule backend_laws.regOK_reach [OF that(1) r regOK_empty [OF that(2)]])
  then show ?thesis using r by blast
qed

lemma exampleUpload_wf: "wfUpload [exampleUpload]"
  using exampleFiles_wf by (simp add: wfUpload_def exampleUpload_def exampleFiles_def)

theorem api_refines_registry_witness:
  "\<exists>s' s'' c e. Svc_Upload memBackend \<lparr>sv_casReg = True, sv_Host = ''h''\<rparr> memEmpty [exampleUpload] [] = (s', Inr [c])
     \<and> Svc_DeleteModules memBackend \<lparr>sv_casReg = True, sv_Host = ''h''\<rparr> s' [MR_Name (Some (''acme'', ''pets''))] = (s'', e)
     \<and> reg_reach memBackend memEmpty s''"
proof -
  let ?svc = "\<lparr>sv_casReg = True, sv_Host = ''h''\<rparr>"
  obtain s' c where u: "Svc_Upload memBackend ?svc memEmpty [exampleUpload] [] = (s', Inr [c])"
    using exampleUpload_runs by blast
  obtain s'' e where d: "Svc_DeleteModules memBackend ?svc s' [MR_Name (Some (''acme'', ''pets''))] = (s'', e)"
    by fastforce
  have "api_reach memBackend ?svc memEmpty s''"
    by (rule api_then [OF api_then [OF api_start upload [OF u exampleUpload_wf]] delete_modules [OF d]])
  from api_refines_registry [OF this] u d show ?thesis by blast
qed

text \<open>
  C30. \<open>CreateModules\<close>: when it succeeds, a \<open>GetModules\<close> of the created names returns exactly
  the modules it answered, in the same order; modules that existed stay as they were, and
  no commit, label or blob changes.
\<close>

theorem created_modules_found:
  assumes "backend_laws B view" and "modulesOK (view s)"
    and "Svc_CreateModules B svc s vs = (s', Inr modules)"
  shows "Svc_GetModules B svc s' (map createdRef vs) = Inr modules
    \<and> vModules (view s) \<subseteq>\<^sub>m vModules (view s') \<and> sameButModules (view s) (view s') \<and> modulesOK (view s')"
  using backend_laws.createModulesLoop_ok [OF assms(1) _ assms(2), of vs "[]" s' modules] assms(3)
  by (auto simp: Svc_CreateModules_def Svc_GetModules_def split: if_splits)

theorem created_modules_found_witness:
  "\<exists>s' ms. Svc_CreateModules memBackend \<lparr>sv_casReg = True, sv_Host = ''h''\<rparr> memEmpty
       [\<lparr>cm_OwnerRef = Some (OR_Name ''acme''), cm_Name = ''pets'', cm_Description = []\<rparr>] = (s', Inr ms)
     \<and> Svc_GetModules memBackend \<lparr>sv_casReg = True, sv_Host = ''h''\<rparr> s' [MR_Name (Some (''acme'', ''pets''))] = Inr ms"
proof -
  let ?svc = "\<lparr>sv_casReg = True, sv_Host = ''h''\<rparr>"
    and ?v = "\<lparr>cm_OwnerRef = Some (OR_Name ''acme''), cm_Name = ''pets'', cm_Description = []\<rparr>"
  have e: "Reg_Module memBackend memEmpty ''acme'' ''pets'' = Inl ErrNotFound"
    by (rule mem.Reg_Module_absent) (simp_all add: memView_def memEmpty_def memFind_def modulesOK_def)
  obtain s' m where c: "Reg_CreateModule memBackend memEmpty ''acme'' ''pets'' [] = (s', Inr m)"
    using mem_create [of "''acme''" "''pets''"] e by (auto simp: Reg_GetOrCreateModule_def)
  have run: "Svc_CreateModules memBackend ?svc memEmpty [?v] = (s', Inr [moduleToProto m])"
    using c by (simp add: Svc_CreateModules_def)
  have "modulesOK (memView memEmpty)" by (simp add: memView_def memEmpty_def memFind_def modulesOK_def)
  from created_modules_found [OF mem.backend_laws_axioms this run] run
  show ?thesis by (auto simp: createdRef_def)
qed

text \<open>
  C31. \<open>DeleteModules\<close>: when it succeeds, all named modules existed and were distinct,
  exactly they are gone, nothing else changed, and a \<open>GetModules\<close> of any of them answers
  not found.
\<close>

theorem deleted_modules_gone:
  assumes "backend_laws B view" and "modulesOK (view s)" and "Svc_DeleteModules B svc s refs = (s', None)"
  shows "refID ` set refs \<subseteq> dom (vModules (view s)) \<and> distinct (map refID refs)
    \<and> view s' = (view s)\<lparr>vModules := vModules (view s) |` (- (refID ` set refs))\<rparr>
    \<and> (\<forall>ref \<in> set refs. \<exists>msg. Svc_GetModules B svc s' [ref] = Inl (notFoundErr msg))"
proof -
  have cas: "sv_casReg svc" and run: "deleteModulesLoop B s refs = (s', None)"
    using assms(3) by (auto simp: Svc_DeleteModules_def split: if_splits)
  note d = backend_laws.deleteModulesLoop_ok [OF assms(1) run assms(2)]
  have "\<exists>msg. Svc_GetModules B svc s' [ref] = Inl (notFoundErr msg)" if ref: "ref \<in> set refs" for ref
  proof -
    have "vModules (view s') (refID ref) = None" using d ref by simp
    moreover have "ref \<noteq> MR_None \<and> ref \<noteq> MR_Name None" using deleteModulesLoop_refs [OF run ref] .
    ultimately have "\<exists>msg. getModuleRef B s' ref = Inl (notFoundErr msg)"
      using backend_laws.deleted_not_found [OF assms(1), of s' ref] d by blast
    then show ?thesis using cas by (auto simp: Svc_GetModules_def)
  qed
  then show ?thesis using d by blast
qed

theorem deleted_modules_gone_witness:
  "\<exists>s' s'' m. Reg_GetOrCreateModule memBackend memEmpty ''acme'' ''pets'' = (s', Inr m)
     \<and> Svc_DeleteModules memBackend \<lparr>sv_casReg = True, sv_Host = ''h''\<rparr> s' [MR_Name (Some (''acme'', ''pets''))] = (s'', None)
     \<and> (\<exists>msg. Svc_GetModules memBackend \<lparr>sv_casReg = True, sv_Host = ''h''\<rparr> s'' [MR_Name (Some (''acme'', ''pets''))] =
          Inl (notFoundErr msg))"
proof -
  let ?svc = "\<lparr>sv_casReg = True, sv_Host = ''h''\<rparr>" and ?ref = "MR_Name (Some (''acme'', ''pets''))"
  obtain s1 m where run: "Reg_GetOrCreateModule memBackend memEmpty ''acme'' ''pets'' = (s1, Inr m)"
    and ms: "m_modules s1 = [moduleRecordToDoc (newModule ''acme'' ''pets'' [] 1)]"
    using mem_create by blast
  have ok: "modulesOK (memView s1)"
    using ms by (simp add: modulesOK_def memView_def memFind_def moduleRecordToDoc_def newModule_def
        split: if_splits)
  obtain s2 where "Reg_DeleteModule memBackend s1 ''acme'' ''pets'' = (s2, None)"
    using ms by (simp add: Reg_DeleteModule_def Meta_GetModuleByName_def Meta_DeleteModule_def
        memBackend_def memCollection_def memFind_def firstDoc_def matches_def ModuleDoc_field_def
        moduleRecordToDoc_def newModule_def)
  then have d: "Svc_DeleteModules memBackend ?svc s1 [?ref] = (s2, None)"
    by (simp add: Svc_DeleteModules_def deleteTarget_def)
  from deleted_modules_gone [OF mem.backend_laws_axioms ok d] run d show ?thesis by auto
qed

end
