(* ===== verification/Interleaving.thy ===== *)
theory Interleaving
  imports Prelude
begin

text \<open>
  Concurrent requests in general.  A request is a program whose steps are the calls it makes to the shared
  services, each of them atomic; between two calls the steps of other requests can happen, and new requests can
  arrive.  \<open>run\<close> executes a program alone.  The locale \<open>rely_guarantee\<close> gives the proof method: a
  request is safe if each of its steps keeps the invariant and changes the shared state only in ways
  the other requests tolerate (\<open>grows\<close>), apart from the names it owns; a name that is new belongs to the
  request that created it.  Safe requests stay safe in every interleaving.
\<close>

section \<open>Programs\<close>

datatype ('s, 'a) prog = Ret 'a | Act "'s \<Rightarrow> 's \<times> ('s, 'a) prog"

primrec bind :: "('s, 'a) prog \<Rightarrow> ('a \<Rightarrow> ('s, 'b) prog) \<Rightarrow> ('s, 'b) prog" where
  "bind (Ret a) g = g a"
| "bind (Act f) g = Act (map_prod (\<lambda>s. s) (\<lambda>p. bind p g) \<circ> f)"

primrec run :: "('s, 'a) prog \<Rightarrow> 's \<Rightarrow> 's \<times> 'a" where
  "run (Ret a) = (\<lambda>s. (s, a))"
| "run (Act f) = (\<lambda>s. case (map_prod (\<lambda>s. s) run \<circ> f) s of (s', r) \<Rightarrow> r s')"

text \<open>One call that may change the shared state, and one that only reads it.\<close>

definition act :: "('s \<Rightarrow> 's \<times> 'a) \<Rightarrow> ('s, 'a) prog" where
  "act g = Act (\<lambda>s. map_prod (\<lambda>s. s) Ret (g s))"

definition rd :: "('s \<Rightarrow> 'a) \<Rightarrow> ('s, 'a) prog" where
  "rd g = Act (\<lambda>s. (s, Ret (g s)))"

definition fmap :: "('a \<Rightarrow> 'b) \<Rightarrow> ('s, 'a) prog \<Rightarrow> ('s, 'b) prog" where
  "fmap h p = bind p (\<lambda>a. Ret (h a))"

text \<open>The equations and the induction rule with the pairs taken apart.\<close>

lemma bind_Act: "bind (Act f) g = Act (\<lambda>s. case f s of (s', p) \<Rightarrow> (s', bind p g))"
  by (simp add: fun_eq_iff split: prod.splits)

lemma run_Act: "run (Act f) s = (case f s of (s', p) \<Rightarrow> run p s')"
  by (simp split: prod.splits)

declare bind.simps(2) [simp del] run.simps(2) [simp del]

lemma prog_induct [case_names Ret Act]:
  assumes "\<And>a. P (Ret a)" "\<And>f. (\<And>s s' p. f s = (s', p) \<Longrightarrow> P p) \<Longrightarrow> P (Act f)"
  shows "P p"
proof (induction p)
  case (Act f)
  have "P q" if "f s = (s', q)" for s s' q
    using Act.IH [of "f s" q] that by (simp add: range_eqI [of _ f s])
  then show ?case by (rule assms(2))
qed (rule assms(1))

lemma run_bind [simp]: "run (bind p g) s = (case run p s of (s', a) \<Rightarrow> run (g a) s')"
proof (induction p arbitrary: s rule: prog_induct)
  case (Act f)
  obtain s' q where q: "f s = (s', q)" by fastforce
  show ?case using Act [OF q] by (simp add: bind_Act run_Act q)
qed simp

lemma run_act [simp]: "run (act g) s = g s"
  by (cases "g s") (simp add: act_def run_Act)

lemma run_rd [simp]: "run (rd g) s = (s, g s)"
  by (simp add: rd_def run_Act)

lemma run_fmap [simp]: "run (fmap h p) s = map_prod (\<lambda>s. s) h (run p s)"
  by (simp add: fmap_def split: prod.splits)

lemma bind_Ret: "bind p Ret = p"
proof (induction p rule: prog_induct)
  case (Act f)
  have "(case f s of (s', p) \<Rightarrow> (s', bind p Ret)) = f s" for s
    using Act by (cases "f s") simp
  then show ?case by (simp add: bind_Act)
qed simp

lemma bind_assoc: "bind (bind p g) h = bind p (\<lambda>a. bind (g a) h)"
proof (induction p rule: prog_induct)
  case (Act f)
  have "(case f s of (s', p) \<Rightarrow> (s', bind (bind p g) h)) = (case f s of (s', p) \<Rightarrow> (s', bind p (\<lambda>a. bind (g a) h)))" for s
    using Act by (cases "f s") simp
  then show ?case by (simp add: bind_Act case_prod_unfold)
qed simp

lemma fmap_bind: "fmap h (bind p g) = bind p (\<lambda>a. fmap h (g a))"
  by (simp add: fmap_def bind_assoc)

section \<open>Interleavings\<close>

text \<open>A step of one request, or the arrival of a new one.\<close>

inductive par_step ::
  "(('s, 'a) prog \<Rightarrow> bool) \<Rightarrow> 's \<times> ('s, 'a) prog list \<Rightarrow> 's \<times> ('s, 'a) prog list \<Rightarrow> bool"
  for arrives :: "('s, 'a) prog \<Rightarrow> bool" where
  thread: "i < length ps \<Longrightarrow> ps ! i = Act f \<Longrightarrow> f s = (s', p) \<Longrightarrow> par_step arrives (s, ps) (s', ps[i := p])"
| arrival: "arrives p \<Longrightarrow> par_step arrives (s, ps) (s, ps @ [p])"

inductive par_reach ::
  "(('s, 'a) prog \<Rightarrow> bool) \<Rightarrow> 's \<times> ('s, 'a) prog list \<Rightarrow> 's \<times> ('s, 'a) prog list \<Rightarrow> bool"
  for arrives :: "('s, 'a) prog \<Rightarrow> bool" and x :: "'s \<times> ('s, 'a) prog list" where
  start: "par_reach arrives x x"
| step: "par_reach arrives x y \<Longrightarrow> par_step arrives y z \<Longrightarrow> par_reach arrives x z"

inductive_cases par_stepE: "par_step arrives x y"

lemma par_reach_trans: "par_reach arrives y z \<Longrightarrow> par_reach arrives x y \<Longrightarrow> par_reach arrives x z"
  by (induction rule: par_reach.induct) (auto intro: par_reach.step)

text \<open>A schedule names the request that takes the next step; one that has finished does nothing.\<close>

fun schedule :: "nat list \<Rightarrow> 's \<times> ('s, 'a) prog list \<Rightarrow> 's \<times> ('s, 'a) prog list" where
  "schedule [] x = x"
| "schedule (i # is) (s, ps) =
     (if i < length ps
      then (case ps ! i of
              Ret a \<Rightarrow> schedule is (s, ps)
            | Act f \<Rightarrow> (case f s of (s', p) \<Rightarrow> schedule is (s', ps[i := p])))
      else schedule is (s, ps))"

lemma schedule_reach: "par_reach arrives x y \<Longrightarrow> par_reach arrives x (schedule is y)"
proof (induction "is" y rule: schedule.induct)
  case (2 i "is" s ps)
  show ?case
  proof (cases "i < length ps \<and> (\<exists>f. ps ! i = Act f)")
    case True
    then obtain f s' p where f: "ps ! i = Act f" "f s = (s', p)" by fastforce
    have "par_step arrives (s, ps) (s', ps[i := p])"
      using True f by (auto intro: par_step.thread)
    from "2.IH"(2) [OF _ f(1) f(2) [symmetric]] par_reach.step [OF "2.prems" this] True f show ?thesis by simp
  next
    case False
    then show ?thesis using 2 by (cases "ps ! i") auto
  qed
qed simp

text \<open>A request can be run alone up to the end of a part of it.\<close>

lemma part_reach:
  assumes "i < length ps" "ps ! i = bind p g" "run p s = (s', a)"
  shows "par_reach arrives (s, ps) (s', ps[i := g a])"
  using assms
proof (induction p arbitrary: s ps rule: prog_induct)
  case (Ret a)
  then have "ps[i := g a] = ps" by (metis bind.simps(1) list_update_id run.simps(1) snd_conv)
  then show ?case using Ret by (simp add: par_reach.start)
next
  case (Act f)
  obtain s1 q where f: "f s = (s1, q)" by fastforce
  have "par_step arrives (s, ps) (s1, ps[i := bind q g])"
    by (rule par_step.thread [of i ps "\<lambda>s. case f s of (s', p) \<Rightarrow> (s', bind p g)"])
      (use Act.prems f in \<open>simp_all add: bind_Act\<close>)
  note st = par_reach.step [OF par_reach.start this]
  have "par_reach arrives (s1, ps[i := bind q g]) (s', ps[i := g a])"
    using Act.IH [OF f, of "ps[i := bind q g]" s1] Act.prems f by (simp add: run_Act)
  from par_reach_trans [OF this st] show ?case .
qed

text \<open>Left alone, a request reaches the state and the result of \<open>run\<close>.\<close>

lemma run_reach:
  assumes "i < length ps" "run (ps ! i) s = (s', a)"
  shows "par_reach arrives (s, ps) (s', ps[i := Ret a])"
  using part_reach [OF assms(1) bind_Ret [symmetric] assms(2)] .

section \<open>Safety of requests\<close>

locale rely_guarantee =
  fixes view :: "'s \<Rightarrow> 'v" and inv :: "'v \<Rightarrow> bool" and grows :: "'v \<Rightarrow> 'v \<Rightarrow> bool"
    and names :: "'v \<Rightarrow> 'k set" and at :: "'v \<Rightarrow> 'k \<Rightarrow> 'x"
  assumes grows_refl: "grows v v"
    and grows_trans: "grows u v \<Longrightarrow> grows v w \<Longrightarrow> grows u w"
    and grows_names: "grows v w \<Longrightarrow> names v \<subseteq> names w"
begin

text \<open>What a request that owns the names \<open>N\<close> expects of the others, and what it promises itself.\<close>

definition rely :: "'k set \<Rightarrow> 'v \<Rightarrow> 'v \<Rightarrow> bool" where
  "rely N v w \<longleftrightarrow> grows v w \<and> (\<forall>k \<in> N. at w k = at v k)"

definition guar :: "'k set \<Rightarrow> 'v \<Rightarrow> 'v \<Rightarrow> 'k set \<Rightarrow> bool" where
  "guar N v w N' \<longleftrightarrow> grows v w \<and> (\<forall>k \<in> names v - N. at w k = at v k) \<and> N' \<subseteq> N \<union> (names w - names v)"

text \<open>A request that owns \<open>N\<close> and last saw \<open>v\<close> is safe and ends with \<open>Q\<close>.\<close>

inductive safe :: "('k set \<Rightarrow> 'v \<Rightarrow> 'a \<Rightarrow> bool) \<Rightarrow> 'k set \<Rightarrow> 'v \<Rightarrow> ('s, 'a) prog \<Rightarrow> bool"
  for Q :: "'k set \<Rightarrow> 'v \<Rightarrow> 'a \<Rightarrow> bool" where
  Ret: "Q N v a \<Longrightarrow> safe Q N v (Ret a)"
| Act: "(\<And>s. rely N v (view s) \<Longrightarrow> inv (view s) \<Longrightarrow>
      \<exists>N'. guar N (view s) (view (fst (f s))) N' \<and> inv (view (fst (f s)))
        \<and> safe Q N' (view (fst (f s))) (snd (f s))) \<Longrightarrow> safe Q N v (Act f)"

definition stable :: "('k set \<Rightarrow> 'v \<Rightarrow> 'a \<Rightarrow> bool) \<Rightarrow> bool" where
  "stable Q \<longleftrightarrow> (\<forall>N v w a. Q N v a \<longrightarrow> rely N v w \<longrightarrow> Q N w a)"

lemma rely_trans: "rely N u v \<Longrightarrow> rely N v w \<Longrightarrow> rely N u w"
  unfolding rely_def using grows_trans by simp blast

lemma rely_refl: "rely N v v"
  unfolding rely_def using grows_refl by simp

lemma guar_refl: "guar N v v N"
  unfolding guar_def using grows_refl by simp

lemma safe_rely: "safe Q N v p \<Longrightarrow> stable Q \<Longrightarrow> rely N v w \<Longrightarrow> safe Q N w p"
proof (induction rule: safe.cases)
  case (Ret N v a)
  then show ?thesis by (auto simp: stable_def intro: safe.Ret)
next
  case (Act N v f)
  then show ?thesis by (auto intro!: safe.Act dest: rely_trans)
qed

lemma safe_bind_from:
  "safe R N v p \<Longrightarrow> grows u v \<Longrightarrow> (\<And>N' w a. grows u w \<Longrightarrow> R N' w a \<Longrightarrow> safe Q N' w (g a)) \<Longrightarrow>
   safe Q N v (bind p g)"
proof (induction rule: safe.induct)
  case (Ret N v a)
  then show ?case by simp
next
  case (Act N v f)
  show ?case unfolding bind_Act
  proof (rule safe.Act)
    fix s
    assume s: "rely N v (view s)" "inv (view s)"
    obtain s' q where f: "f s = (s', q)" by fastforce
    from Act.IH [OF s] obtain N' where N': "guar N (view s) (view s') N'" "inv (view s')"
      "grows u (view s') \<Longrightarrow> safe Q N' (view s') (bind q g)"
      using Act.prems(2) f by auto
    have "grows u (view s')"
      using Act.prems(1) s(1) N'(1) unfolding rely_def guar_def by (meson grows_trans)
    with N' show "\<exists>N'. guar N (view s) (view (fst (case f s of (s', p) \<Rightarrow> (s', bind p g)))) N' \<and>
        inv (view (fst (case f s of (s', p) \<Rightarrow> (s', bind p g)))) \<and>
        safe Q N' (view (fst (case f s of (s', p) \<Rightarrow> (s', bind p g)))) (snd (case f s of (s', p) \<Rightarrow> (s', bind p g)))"
      by (auto simp: f)
  qed
qed

lemma safe_bind:
  assumes "safe R N v p" "\<And>N' w a. grows v w \<Longrightarrow> R N' w a \<Longrightarrow> safe Q N' w (g a)"
  shows "safe Q N v (bind p g)"
  using safe_bind_from [OF assms(1) grows_refl assms(2)] .

lemma safe_fmap: "safe (\<lambda>N v a. Q N v (h a)) N v p \<Longrightarrow> safe Q N v (fmap h p)"
  unfolding fmap_def by (erule safe_bind) (rule safe.Ret)

lemma safe_conseq:
  assumes "safe R N v p" "\<And>N' w a. grows v w \<Longrightarrow> R N' w a \<Longrightarrow> Q N' w a"
  shows "safe Q N v p"
  using safe_bind [OF assms(1), of Q Ret] assms(2) by (simp add: bind_Ret safe.Ret)

lemma safe_act:
  assumes "\<And>s s' a. rely N v (view s) \<Longrightarrow> inv (view s) \<Longrightarrow> g s = (s', a) \<Longrightarrow>
    \<exists>N'. guar N (view s) (view s') N' \<and> inv (view s') \<and> Q N' (view s') a"
  shows "safe Q N v (act g)"
  unfolding act_def
proof (rule safe.Act)
  fix s
  assume s: "rely N v (view s)" "inv (view s)"
  obtain s' a where g: "g s = (s', a)" by fastforce
  from assms [OF s g] show "\<exists>N'. guar N (view s) (view (fst (map_prod (\<lambda>s. s) Ret (g s)))) N' \<and>
      inv (view (fst (map_prod (\<lambda>s. s) Ret (g s)))) \<and>
      safe Q N' (view (fst (map_prod (\<lambda>s. s) Ret (g s)))) (snd (map_prod (\<lambda>s. s) Ret (g s)))"
    by (auto simp: g intro: safe.Ret)
qed

lemma safe_rd:
  assumes "\<And>s. rely N v (view s) \<Longrightarrow> inv (view s) \<Longrightarrow> Q N (view s) (g s)"
  shows "safe Q N v (rd g)"
  unfolding rd_def by (rule safe.Act) (auto intro!: exI [of _ N] guar_refl safe.Ret assms)

text \<open>
  A configuration is safe if every request is, owning names that are in use and that no other
  request owns.
\<close>

definition cfg_ok :: "(nat \<Rightarrow> 'k set \<Rightarrow> 'v \<Rightarrow> 'a \<Rightarrow> bool) \<Rightarrow> (nat \<Rightarrow> 'k set) \<Rightarrow> 's \<times> ('s, 'a) prog list \<Rightarrow> bool" where
  "cfg_ok Q Ns x \<longleftrightarrow> inv (view (fst x)) \<and>
     (\<forall>i < length (snd x). safe (Q i) (Ns i) (view (fst x)) (snd x ! i) \<and> Ns i \<subseteq> names (view (fst x))) \<and>
     (\<forall>i < length (snd x). \<forall>j < length (snd x). i \<noteq> j \<longrightarrow> Ns i \<inter> Ns j = {})"

lemma cfg_thread:
  assumes ok: "cfg_ok Q Ns (s, ps)" and st: "\<And>i. stable (Q i)"
    and i: "i < length ps" "ps ! i = Act f" "f s = (s', p)"
  shows "\<exists>Ns'. cfg_ok Q Ns' (s', ps[i := p])"
proof -
  have sf: "safe (Q i) (Ns i) (view s) (Act f)" and inv: "inv (view s)"
    using ok i by (auto simp: cfg_ok_def)
  from sf obtain N' where N': "guar (Ns i) (view s) (view s') N'" "inv (view s')" "safe (Q i) N' (view s') p"
    using rely_refl inv i(3) by (cases rule: safe.cases) fastforce
  have g: "grows (view s) (view s')" using N'(1) by (simp add: guar_def)
  have "safe (Q j) (Ns j) (view s') (ps ! j)" if j: "j < length ps" "j \<noteq> i" for j
  proof -
    have rl: "rely (Ns j) (view s) (view s')"
      using N'(1) ok j i(1) unfolding rely_def guar_def cfg_ok_def by (simp add: disjoint_iff) blast
    have "safe (Q j) (Ns j) (view s) (ps ! j)" using ok j by (simp add: cfg_ok_def)
    from safe_rely [OF this st rl] show ?thesis .
  qed
  moreover have "Ns j \<subseteq> names (view s')" if "j < length ps" for j
    using ok that grows_names [OF g] by (auto simp: cfg_ok_def)
  moreover have "N' \<subseteq> names (view s')"
  proof -
    have "Ns i \<subseteq> names (view s)" using ok i(1) by (simp add: cfg_ok_def)
    then show ?thesis using N'(1) grows_names [OF g] unfolding guar_def by blast
  qed
  moreover have "N' \<inter> Ns j = {} \<and> Ns j \<inter> N' = {}" if "j < length ps" "j \<noteq> i" for j
    using N'(1) ok i(1) that unfolding guar_def cfg_ok_def by simp blast
  ultimately have "cfg_ok Q (Ns(i := N')) (s', ps[i := p])"
    using ok N' i(1) unfolding cfg_ok_def by (auto simp: nth_list_update)
  then show ?thesis by blast
qed

lemma cfg_arrival:
  assumes ok: "cfg_ok Q Ns (s, ps)" and new: "safe (Q (length ps)) {} (view s) p"
  shows "cfg_ok Q (Ns(length ps := {})) (s, ps @ [p])"
  using ok new unfolding cfg_ok_def by (auto simp: nth_append less_Suc_eq)

lemma cfg_reach:
  assumes "par_reach arrives x y" "cfg_ok Q Ns x" "\<And>i. stable (Q i)"
    and new: "\<And>i p s. arrives p \<Longrightarrow> length (snd x) \<le> i \<Longrightarrow> inv (view s) \<Longrightarrow> safe (Q i) {} (view s) p"
  shows "\<exists>Ns'. cfg_ok Q Ns' y \<and> length (snd x) \<le> length (snd y)"
  using assms(1)
proof (induction rule: par_reach.induct)
  case start
  show ?case using assms(2) by blast
next
  case (step y z)
  then obtain Ns' where ok: "cfg_ok Q Ns' y" and len: "length (snd x) \<le> length (snd y)" by blast
  from step.hyps(2) show ?case
  proof (cases rule: par_step.cases)
    case (thread i ps f s s' p)
    then show ?thesis using cfg_thread [OF ok [unfolded thread] assms(3)] len by simp
  next
    case (arrival p s ps)
    have "inv (view s)" using ok arrival by (simp add: cfg_ok_def)
    then have "safe (Q (length ps)) {} (view s) p" using new arrival len by simp
    from cfg_arrival [OF ok [unfolded arrival(1)] this] show ?thesis using arrival len by auto
  qed
qed

text \<open>What holds of a finished request.\<close>

lemma cfg_result:
  assumes "cfg_ok Q Ns (s, ps)" "i < length ps" "ps ! i = Ret a"
  shows "Q i (Ns i) (view s) a"
proof -
  have "safe (Q i) (Ns i) (view s) (Ret a)" using assms by (auto simp: cfg_ok_def)
  then show ?thesis by (cases rule: safe.cases) auto
qed

end

end
