(* ===== verification/Concurrent_Registry.thy ===== *)
theory Concurrent_Registry
  imports Interleaving Commit_Store
begin

text \<open>
  The operations of \<open>internal/registry/registry.go\<close>, \<open>internal/registry/module.go\<close>, \<open>storage/blob.go\<close> and
  \<open>storage/manifest.go\<close> as the server runs them: concurrently, without locks or transactions, a call to the
  bucket or to a collection being the only thing that is atomic.  Each program makes the calls of the
  sequential definition in the same order, and \<open>run\<close> of it is that definition.  The theorems are about
  every interleaving of any number of requests: the registry's invariant holds at each moment, a
  download delivers exactly the files of one commit, an upload that succeeds is served ever after,
  and what makes them true is the order in which \<open>CreateCommit\<close> writes.
\<close>

section \<open>Programs\<close>

text \<open>\<open>Exists\<close>, then \<open>NewWriter\<close> with \<open>Close\<close>: another request can write the same key in between.\<close>

definition P_put :: "'s backend \<Rightarrow> string \<Rightarrow> Digest \<Rightarrow> string \<Rightarrow> ('s, Digest res) prog" where
  "P_put B key digest content =
     bind (rd (\<lambda>s. bkExists (b_bucket B) s key)) (\<lambda>r.
       case r of
         Inl err \<Rightarrow> Ret (Inl err)
       | Inr exists \<Rightarrow>
           if exists then Ret (Inr digest)
           else fmap (\<lambda>w. case w of Some err \<Rightarrow> Inl err | None \<Rightarrow> Inr digest)
             (act (\<lambda>s. bkWrite (b_bucket B) s key content)))"

definition P_Blob_Put :: "'s backend \<Rightarrow> string \<Rightarrow> ('s, Digest res) prog" where
  "P_Blob_Put B content =
     (let digest = \<lparr>d_Algorithm = DigestAlgorithmShake256, d_Value = shake256 B content\<rparr>
      in P_put B (blobKey digest) digest content)"

definition P_PutManifest :: "'s backend \<Rightarrow> Manifest \<Rightarrow> ('s, Digest res) prog" where
  "P_PutManifest B manifest =
     (let content = SerializeManifest manifest;
          digest = computeFilesDigest (shake256 B) content
      in P_put B (manifestPath digest) digest content)"

fun P_putFiles :: "'s backend \<Rightarrow> File list \<Rightarrow> ManifestEntry list \<Rightarrow> ('s, ManifestEntry list res) prog" where
  "P_putFiles B [] entries = Ret (Inr entries)"
| "P_putFiles B (f # fs) entries =
     bind (P_Blob_Put B (f_Content f)) (\<lambda>r.
       case r of
         Inl err \<Rightarrow> Ret (Inl (Wrapf (''failed to store blob '' @ f_Path f @ '': '') err))
       | Inr digest \<Rightarrow> P_putFiles B fs (entries @ [\<lparr>me_Digest = digest, me_Path = f_Path f\<rparr>]))"

fun P_updateLabels :: "'s backend \<Rightarrow> Module \<Rightarrow> string list \<Rightarrow> string \<Rightarrow> ('s, goerr option) prog" where
  "P_updateLabels B m [] commitID = Ret None"
| "P_updateLabels B m (labelName # rest) commitID =
     bind (act (\<lambda>s. updateLabel B s m labelName commitID)) (\<lambda>r.
       case r of Some err \<Rightarrow> Ret (Some err) | None \<Rightarrow> P_updateLabels B m rest commitID)"

definition P_newCommit ::
  "'s backend \<Rightarrow> Module \<Rightarrow> Digest \<Rightarrow> ModuleDigest \<Rightarrow> string list \<Rightarrow> string \<Rightarrow> string list \<Rightarrow> ('s, Commit res) prog" where
  "P_newCommit B m filesDigest moduleDigest labels sourceControlURL depCommitIDs =
     bind (act (\<lambda>s. case uuidNewV7 B s of (u, s') \<Rightarrow> (s', removeDashes u))) (\<lambda>commitID.
     bind (act (\<lambda>s. case timeNow B s of (t, s') \<Rightarrow> (s', t))) (\<lambda>now.
     (let commitRecord =
            \<lparr>commit_ID = commitID, commit_ModuleID = module_ID (mod_record m),
             commit_OwnerID = module_OwnerID (mod_record m), commit_FilesDigest = filesDigest,
             commit_ModuleDigest = moduleDigest, commit_CreateTime = now,
             commit_CreatedByUserID = [], commit_SourceControlURL = sourceControlURL,
             commit_DepCommitIDs = depCommitIDs\<rparr>
      in bind (act (\<lambda>s. Meta_CreateCommit B s commitRecord)) (\<lambda>r.
         case r of
           Some err \<Rightarrow> Ret (Inl (Wrapf ''failed to create commit: '' err))
         | None \<Rightarrow>
             fmap (\<lambda>r. case r of
                 Some err \<Rightarrow> Inl err
               | None \<Rightarrow> Inr \<lparr>c_ID = commitID, c_ModuleID = module_ID (mod_record m),
                   c_OwnerID = module_OwnerID (mod_record m), c_FilesDigest = filesDigest,
                   c_ModuleDigest = moduleDigest, c_CreateTime = now, c_DepCommitIDs = depCommitIDs\<rparr>)
               (P_updateLabels B m labels commitID)))))"

text \<open>\<open>CreateCommit\<close> in three parts: the lookup of an identical commit, the manifest, the files.\<close>

definition P_findOrCreate ::
  "'s backend \<Rightarrow> Module \<Rightarrow> string list \<Rightarrow> string \<Rightarrow> string list \<Rightarrow> Digest \<Rightarrow> ModuleDigest \<Rightarrow> ('s, Commit res) prog" where
  "P_findOrCreate B m labels sourceControlURL depCommitIDs filesDigest moduleDigest =
     bind (rd (\<lambda>s. Meta_GetCommitByFilesDigest B s filesDigest)) (\<lambda>r.
       case r of
         Inr existingCommit \<Rightarrow>
           if commit_ModuleID existingCommit = module_ID (mod_record m)
           then fmap (\<lambda>r. case r of Some err \<Rightarrow> Inl err | None \<Rightarrow> Inr (toCommit existingCommit))
             (P_updateLabels B m labels (commit_ID existingCommit))
           else P_newCommit B m filesDigest moduleDigest labels sourceControlURL depCommitIDs
       | Inl _ \<Rightarrow> P_newCommit B m filesDigest moduleDigest labels sourceControlURL depCommitIDs)"

definition P_withManifest ::
  "'s backend \<Rightarrow> Module \<Rightarrow> string list \<Rightarrow> string \<Rightarrow> string list \<Rightarrow> ModuleDigest list \<Rightarrow> Manifest \<Rightarrow>
   ('s, Commit res) prog" where
  "P_withManifest B m labels sourceControlURL depCommitIDs depDigests manifest =
     bind (P_PutManifest B manifest) (\<lambda>r.
       case r of
         Inl err \<Rightarrow> Ret (Inl (Wrapf ''failed to store manifest: '' err))
       | Inr filesDigest \<Rightarrow>
           (case ComputeB5Digest (shake256 B) manifest depDigests of
              Inl err \<Rightarrow> Ret (Inl (Wrapf ''failed to compute module digest: '' err))
            | Inr moduleDigest \<Rightarrow>
                P_findOrCreate B m labels sourceControlURL depCommitIDs filesDigest moduleDigest))"

definition P_CreateCommit ::
  "'s backend \<Rightarrow> Module \<Rightarrow> File list \<Rightarrow> string list \<Rightarrow> string \<Rightarrow> string list \<Rightarrow> ModuleDigest list \<Rightarrow>
   ('s, Commit res) prog" where
  "P_CreateCommit B m files labels sourceControlURL depCommitIDs depDigests =
     bind (P_putFiles B files []) (\<lambda>r.
       case r of
         Inl err \<Rightarrow> Ret (Inl err)
       | Inr entries \<Rightarrow>
           P_withManifest B m labels sourceControlURL depCommitIDs depDigests \<lparr>mf_Entries = entries\<rparr>)"

fun P_readEntries :: "'s backend \<Rightarrow> ManifestEntry list \<Rightarrow> File list \<Rightarrow> ('s, File list res) prog" where
  "P_readEntries B [] files = Ret (Inr files)"
| "P_readEntries B (entry # rest) files =
     bind (rd (\<lambda>s. Blob_Get B s (me_Digest entry))) (\<lambda>r.
       case r of
         Inl err \<Rightarrow> Ret (Inl (Wrapf (''failed to get blob '' @ me_Path entry @ '': '') err))
       | Inr (Inl err) \<Rightarrow> Ret (Inl (Wrapf (''failed to read blob '' @ me_Path entry @ '': '') err))
       | Inr (Inr content) \<Rightarrow>
           P_readEntries B rest
             (files @ [\<lparr>f_Path = me_Path entry, f_Content = content, f_Digest = me_Digest entry\<rparr>]))"

definition P_filesForCommit :: "'s backend \<Rightarrow> Commit \<Rightarrow> ('s, File list res) prog" where
  "P_filesForCommit B commit =
     bind (rd (\<lambda>s. GetManifest B s (c_FilesDigest commit))) (\<lambda>r.
       case r of
         Inl err \<Rightarrow> Ret (Inl (Wrapf ''failed to get manifest: '' err))
       | Inr manifest \<Rightarrow> P_readEntries B (mf_Entries manifest) [])"

definition P_withFiles :: "'s backend \<Rightarrow> ('s, Commit res) prog \<Rightarrow> ('s, (File list \<times> Commit) res) prog" where
  "P_withFiles B p =
     bind p (\<lambda>r. case r of
         Inl err \<Rightarrow> Ret (Inl err)
       | Inr commit \<Rightarrow>
           fmap (\<lambda>r. case r of Inl err \<Rightarrow> Inl err | Inr files \<Rightarrow> Inr (files, commit)) (P_filesForCommit B commit))"

definition P_Commit :: "'s backend \<Rightarrow> Module \<Rightarrow> string \<Rightarrow> ('s, Commit res) prog" where
  "P_Commit B m ref0 =
     (let ref = (if ref0 = [] then module_DefaultLabelName (mod_record m) else ref0) in
      bind (rd (\<lambda>s. Meta_GetLabel B s (module_ID (mod_record m)) ref)) (\<lambda>r.
        case r of
          Inl err \<Rightarrow> Ret (Inl (Wrapf (''label '' @ ref @ '' not found: '') err))
        | Inr label \<Rightarrow> rd (\<lambda>s. Mod_CommitByID B s m (label_CommitID label))))"

definition P_FilesAndCommit :: "'s backend \<Rightarrow> Module \<Rightarrow> string \<Rightarrow> ('s, (File list \<times> Commit) res) prog" where
  "P_FilesAndCommit B m ref = P_withFiles B (P_Commit B m ref)"

definition P_FilesAndCommitByCommitID ::
  "'s backend \<Rightarrow> Module \<Rightarrow> string \<Rightarrow> ('s, (File list \<times> Commit) res) prog" where
  "P_FilesAndCommitByCommitID B m commitID = P_withFiles B (rd (\<lambda>s. Mod_CommitByID B s m commitID))"

definition P_ensureOwner :: "'s backend \<Rightarrow> string \<Rightarrow> ('s, goerr option) prog" where
  "P_ensureOwner B owner =
     (let ownerID = OwnerID owner in
      bind (rd (\<lambda>s. Meta_GetOwner B s ownerID)) (\<lambda>r.
        case r of
          Inr _ \<Rightarrow> Ret None
        | Inl err \<Rightarrow>
            if err = ErrNotFound
            then bind (act (\<lambda>s. case timeNow B s of (t, s') \<Rightarrow> (s', t))) (\<lambda>t.
              fmap (\<lambda>r. case r of
                  Some e \<Rightarrow> if e \<noteq> ErrAlreadyExists then Some (Wrapf ''failed to create owner: '' e) else None
                | None \<Rightarrow> None)
                (act (\<lambda>s. Meta_CreateOwner B s
                   \<lparr>owner_ID = ownerID, owner_Name = owner, owner_CreateTime = t\<rparr>)))
            else Ret (Some (Wrapf ''failed to get owner: '' err))))"

definition P_CreateModule :: "'s backend \<Rightarrow> string \<Rightarrow> string \<Rightarrow> string \<Rightarrow> ('s, Module res) prog" where
  "P_CreateModule B owner name description =
     bind (P_ensureOwner B owner) (\<lambda>r.
       case r of
         Some err \<Rightarrow> Ret (Inl err)
       | None \<Rightarrow>
     bind (act (\<lambda>s. case timeNow B s of (t, s') \<Rightarrow> (s', t))) (\<lambda>now.
     (let rcd = newModule owner name description now in
      bind (act (\<lambda>s. Meta_CreateModule B s rcd)) (\<lambda>r.
        case r of
          Some err \<Rightarrow>
            if err = ErrAlreadyExists then rd (\<lambda>s. Reg_Module B s owner name)
            else Ret (Inl (Wrapf ''failed to create module: '' err))
        | None \<Rightarrow> Ret (Inr \<lparr>mod_record = rcd\<rparr>)))))"

definition P_GetOrCreateModule :: "'s backend \<Rightarrow> string \<Rightarrow> string \<Rightarrow> ('s, Module res) prog" where
  "P_GetOrCreateModule B owner name =
     bind (rd (\<lambda>s. Reg_Module B s owner name)) (\<lambda>r.
       case r of
         Inr m \<Rightarrow> Ret (Inr m)
       | Inl err \<Rightarrow> if err \<noteq> ErrNotFound then Ret (Inl err) else P_CreateModule B owner name [])"

definition P_DeleteModule :: "'s backend \<Rightarrow> string \<Rightarrow> string \<Rightarrow> ('s, goerr option) prog" where
  "P_DeleteModule B owner name =
     bind (rd (\<lambda>s. Meta_GetModuleByName B s owner name)) (\<lambda>r.
       case r of
         Inl err \<Rightarrow> Ret (Some err)
       | Inr rcd \<Rightarrow> act (\<lambda>s. Meta_DeleteModule B s (module_ID rcd)))"

section \<open>Alone, a program is the sequential operation\<close>

lemma run_P_put:
  "run (P_put B key digest content) s =
     (case bkExists (b_bucket B) s key of
        Inl err \<Rightarrow> (s, Inl err)
      | Inr exists \<Rightarrow>
          if exists then (s, Inr digest)
          else (case bkWrite (b_bucket B) s key content of
                  (s', Some err) \<Rightarrow> (s', Inl err) | (s', None) \<Rightarrow> (s', Inr digest)))"
  by (simp add: P_put_def split: sum.splits prod.splits option.splits)

lemma run_P_Blob_Put [simp]: "run (P_Blob_Put B content) s = Blob_Put B s (Inr content)"
  by (simp add: P_Blob_Put_def run_P_put Blob_Put_def Let_def)

lemma run_P_PutManifest [simp]: "run (P_PutManifest B mf) s = PutManifest B s mf"
  by (simp add: P_PutManifest_def run_P_put PutManifest_def Let_def)

lemma run_P_putFiles [simp]: "run (P_putFiles B fs entries) s = putFiles B s fs entries"
  by (induction fs arbitrary: s entries) (simp_all split: prod.splits sum.splits)

lemma run_P_updateLabels [simp]: "run (P_updateLabels B m ls cid) s = updateLabels B s m ls cid"
  by (induction ls arbitrary: s) (simp_all split: prod.splits option.splits)

lemma run_P_newCommit [simp]:
  "run (P_newCommit B m fd md ls url deps) s = newCommit B s m fd md ls url deps"
  by (simp add: P_newCommit_def newCommit_def Let_def split: prod.splits option.splits)

lemma run_P_CreateCommit [simp]:
  "run (P_CreateCommit B m files ls url deps dds) s = Mod_CreateCommit B s m files ls url deps dds"
  by (simp add: P_CreateCommit_def P_withManifest_def P_findOrCreate_def Mod_CreateCommit_def Let_def
      split: prod.splits option.splits sum.splits)

lemma run_P_readEntries [simp]: "run (P_readEntries B es files) s = (s, readEntries B s es files)"
  by (induction es arbitrary: files) (simp_all split: sum.splits)

lemma run_P_filesForCommit [simp]: "run (P_filesForCommit B c) s = (s, filesForCommit B s c)"
  by (simp add: P_filesForCommit_def filesForCommit_def split: sum.splits)

lemma run_P_Commit [simp]: "run (P_Commit B m ref) s = (s, Mod_Commit B s m ref)"
  by (simp add: P_Commit_def Mod_Commit_def Let_def split: sum.splits)

lemma run_P_FilesAndCommit [simp]: "run (P_FilesAndCommit B m ref) s = (s, FilesAndCommit B s m ref)"
  by (simp add: P_FilesAndCommit_def P_withFiles_def FilesAndCommit_def split: sum.splits)

lemma run_P_FilesAndCommitByCommitID [simp]:
  "run (P_FilesAndCommitByCommitID B m cid) s = (s, FilesAndCommitByCommitID B s m cid)"
  by (simp add: P_FilesAndCommitByCommitID_def P_withFiles_def FilesAndCommitByCommitID_def split: sum.splits)

lemma run_P_ensureOwner [simp]: "run (P_ensureOwner B owner) s = ensureOwner B s owner"
  by (simp add: P_ensureOwner_def ensureOwner_def Let_def split: sum.splits prod.splits option.splits)

lemma run_P_CreateModule [simp]: "run (P_CreateModule B owner name desc) s = Reg_CreateModule B s owner name desc"
  by (simp add: P_CreateModule_def Reg_CreateModule_def newModule_def Let_def split: prod.splits option.splits)

lemma run_P_GetOrCreateModule [simp]: "run (P_GetOrCreateModule B owner name) s = Reg_GetOrCreateModule B s owner name"
  by (simp add: P_GetOrCreateModule_def Reg_GetOrCreateModule_def split: sum.splits)

lemma run_P_DeleteModule [simp]: "run (P_DeleteModule B owner name) s = Reg_DeleteModule B s owner name"
  by (simp add: P_DeleteModule_def Reg_DeleteModule_def split: sum.splits)

section \<open>What concurrent requests keep and may change\<close>

text \<open>
  \<open>regGrows\<close> is what every step of every request respects: content and commits are never removed or
  replaced, and a label stays in its module.  \<open>regInv\<close> adds to \<open>regOK\<close> that all content is in a set \<open>C\<close>
  on which SHAKE256 is injective, and that labels sit under the key of their module and name.
\<close>

definition regGrows :: "store \<Rightarrow> store \<Rightarrow> bool" where
  "regGrows v w \<longleftrightarrow> vBlobs v \<subseteq>\<^sub>m vBlobs w \<and> vCommits v \<subseteq>\<^sub>m vCommits w \<and> vIds v \<subseteq> vIds w
     \<and> (\<forall>k l. vLabels v k = Some l \<longrightarrow> (\<exists>l'. vLabels w k = Some l' \<and> ldoc_ModuleID l' = ldoc_ModuleID l))"

definition labelsNamed :: "store \<Rightarrow> bool" where
  "labelsNamed st \<longleftrightarrow> (\<forall>k l. vLabels st k = Some l \<longrightarrow>
     k = labelID (ldoc_ModuleID l) (ldoc_Name l) \<and> CHR ''/'' \<notin> set (ldoc_ModuleID l))"

definition regInv :: "(string \<Rightarrow> byte list) \<Rightarrow> string set \<Rightarrow> store \<Rightarrow> bool" where
  "regInv shake C st \<longleftrightarrow> regOK shake st \<and> ran (vBlobs st) \<subseteq> C \<and> labelsNamed st"

lemma regGrows_refl: "regGrows v v"
  by (simp add: regGrows_def)

lemma regGrows_trans: "regGrows u v \<Longrightarrow> regGrows v w \<Longrightarrow> regGrows u w"
  unfolding regGrows_def using map_le_trans by (metis (no_types, lifting) order_trans)

lemma labelID_eq_module:
  assumes "labelID a x = labelID b y" "CHR ''/'' \<notin> set a" "CHR ''/'' \<notin> set b"
  shows "a = b \<and> x = y"
proof -
  have "takeWhile (\<lambda>c. c \<noteq> CHR ''/'') (labelID m z) = m" if "CHR ''/'' \<notin> set m" for m z
    using that by (induction m) (auto simp: labelID_def)
  then have "a = b" using assms by metis
  then show ?thesis using assms(1) by simp
qed

text \<open>The files of a commit, read off the contents.\<close>

abbreviation entryHeld :: "store \<Rightarrow> ManifestEntry \<Rightarrow> File \<Rightarrow> bool" where
  "entryHeld v \<equiv> \<lambda>e f. f_Path f = me_Path e \<and> f_Digest f = me_Digest e
     \<and> vBlobs v (blobKey (me_Digest e)) = Some (f_Content f)"

definition holds :: "store \<Rightarrow> Commit \<Rightarrow> File list \<Rightarrow> bool" where
  "holds v c files \<longleftrightarrow>
     (\<exists>d rcd t mf. vCommits v (c_ID c) = Some d \<and> commitDocToRecord d = Inr rcd \<and> toCommit rcd = c
        \<and> vBlobs v (manifestPath (c_FilesDigest c)) = Some t \<and> ParseManifest t = Inr mf
        \<and> list_all2 (entryHeld v) (mf_Entries mf) files)"

lemma holds_grows:
  assumes "holds v c files" "regGrows v w"
  shows "holds w c files"
proof -
  have b: "vBlobs w k = Some x" if "vBlobs v k = Some x" for k x
    using assms(2) that map_leD unfolding regGrows_def by metis
  have c: "vCommits w k = Some x" if "vCommits v k = Some x" for k x
    using assms(2) that map_leD unfolding regGrows_def by metis
  from assms(1) show ?thesis unfolding holds_def
    by (elim exE conjE) (intro exI conjI, auto intro: b c elim!: list_all2_mono)
qed

text \<open>What makes a download by commit or by label certain to succeed.\<close>

definition hasCommit :: "Module \<Rightarrow> string \<Rightarrow> store \<Rightarrow> bool" where
  "hasCommit m cid v \<longleftrightarrow> (\<exists>d. vCommits v cid = Some d \<and> cdoc_ModuleID d = Module_ID m)"

definition hasLabel :: "Module \<Rightarrow> string \<Rightarrow> store \<Rightarrow> bool" where
  "hasLabel m ref v \<longleftrightarrow> (\<exists>l. ldoc_ModuleID l = Module_ID m
     \<and> vLabels v (labelID (Module_ID m) (if ref = [] then Module_DefaultLabelName m else ref)) = Some l)"

locale concurrent_registry = backend_laws B view for B :: "'s backend" and view :: "'s \<Rightarrow> store" +
  fixes C :: "string set"
  assumes inj: "inj_on (shake256 B) C"

sublocale concurrent_registry \<subseteq> rg: rely_guarantee view "regInv (shake256 B) C" regGrows vIds vCommits
proof (unfold_locales, goal_cases)
  case (1 v)
  show ?case by (rule regGrows_refl)
next
  case (2 u v w)
  then show ?case by (rule regGrows_trans)
next
  case (3 v w)
  then show ?case by (simp add: regGrows_def)
qed

context concurrent_registry
begin

text \<open>What is held is what a download returns.\<close>

lemma readEntries_held:
  "list_all2 (entryHeld (view s)) es fs \<Longrightarrow>
   readEntries B s es acc = Inr (acc @ fs)"
proof (induction es arbitrary: fs acc)
  case Nil
  then show ?case by simp
next
  case (Cons e es)
  then obtain f fs' where f: "fs = f # fs'" "f_Path f = me_Path e" "f_Digest f = me_Digest e"
    "vBlobs (view s) (blobKey (me_Digest e)) = Some (f_Content f)"
    by (auto simp: list_all2_Cons1)
  then have rec: "\<lparr>f_Path = me_Path e, f_Content = f_Content f, f_Digest = me_Digest e\<rparr> = f" by (cases f) simp
  have "readEntries B s (e # es) acc = readEntries B s es
      (acc @ [\<lparr>f_Path = me_Path e, f_Content = f_Content f, f_Digest = me_Digest e\<rparr>])"
    using f(4) by (simp add: Blob_Get_view)
  also note rec
  finally show ?case using f(1) Cons.IH [of fs' "acc @ [f]"] Cons.prems by simp
qed

lemma held_download:
  assumes "holds (view s) c files" "c_ModuleID c = Module_ID m"
  shows "FilesAndCommitByCommitID B s m (c_ID c) = Inr (files, c)"
proof -
  from assms(1) obtain d rcd t mf where h: "vCommits (view s) (c_ID c) = Some d" "commitDocToRecord d = Inr rcd"
    "toCommit rcd = c" "vBlobs (view s) (manifestPath (c_FilesDigest c)) = Some t" "ParseManifest t = Inr mf"
    and r: "list_all2 (entryHeld (view s)) (mf_Entries mf) files"
    unfolding holds_def by blast
  have "Mod_CommitByID B s m (c_ID c) = Inr c" by (rule Mod_CommitByID_stored [OF h(1-3) assms(2)])
  moreover have "filesForCommit B s c = Inr files"
    using h(4,5) readEntries_held [OF r, of "[]"] by (simp add: filesForCommit_def GetManifest_view)
  ultimately show ?thesis by (simp add: FilesAndCommitByCommitID_def)
qed

text \<open>Content that is present under the hash of a text of \<open>C\<close> is that text.\<close>

lemma content_unique:
  assumes "regInv (shake256 B) C st" "vBlobs st (key (computeFilesDigest (shake256 B) c)) = Some x" "c \<in> C"
    and "key = blobKey \<or> key = manifestPath"
  shows "x = c"
proof -
  have "shake256 B c = shake256 B x"
    using assms unfolding regInv_def regOK_def casOK_def by blast
  moreover have "x \<in> C" using assms(1,2) by (auto simp: regInv_def intro: ranI)
  ultimately show ?thesis using inj assms(3) by (metis inj_onD)
qed

text \<open>Writing such a text, although its key may have appeared since, inserts it.\<close>

lemma write_inserts:
  assumes "regInv (shake256 B) C st" "c \<in> C" "key = blobKey \<or> key = manifestPath"
  shows "st\<lparr>vBlobs := (vBlobs st)(key (computeFilesDigest (shake256 B) c) \<mapsto> c)\<rparr> =
    insertBlob (key (computeFilesDigest (shake256 B) c)) c st"
  using content_unique [OF assms(1) _ assms(2,3)]
  by (cases "vBlobs st (key (computeFilesDigest (shake256 B) c))") (auto simp: insertBlob_def fun_upd_idem)

lemma regInv_insert:
  assumes ok: "regInv (shake256 B) C st" and c: "c \<in> C" and key: "key = blobKey \<or> key = manifestPath"
    and man: "key = manifestPath \<Longrightarrow>
      \<exists>mf. ParseManifest c = Inr mf \<and> (\<forall>e \<in> set (mf_Entries mf). vBlobs st (blobKey (me_Digest e)) \<noteq> None)"
  shows "regInv (shake256 B) C (insertBlob (key (computeFilesDigest (shake256 B) c)) c st)"
proof -
  have "regOK (shake256 B) (insertBlob (key (computeFilesDigest (shake256 B) c)) c st)"
  proof (rule regOK_insertBlob_cong)
    show "regOK (shake256 B) st" using ok by (simp add: regInv_def)
    show "casOK (shake256 B) (insertBlob (key (computeFilesDigest (shake256 B) c)) c st)"
      using ok key by (intro casOK_insertBlob) (simp_all add: regInv_def regOK_def)
    show "\<exists>mf. ParseManifest c = Inr mf \<and> (\<forall>e \<in> set (mf_Entries mf). vBlobs st (blobKey (me_Digest e)) \<noteq> None)"
      if "manifestPath (computeFilesDigest (shake256 B) a) = key (computeFilesDigest (shake256 B) c)" for a
      using key
    proof
      assume "key = blobKey"
      then show ?thesis using that blobKey_manifestPath [OF shake_length, symmetric] by simp
    qed (rule man)
  qed
  moreover have "ran (vBlobs (insertBlob (key (computeFilesDigest (shake256 B) c)) c st)) \<subseteq> C"
    using ran_insertBlob [of _ c st] ok c unfolding regInv_def by blast
  ultimately show ?thesis using ok by (simp add: regInv_def labelsNamed_def)
qed

lemma regGrows_insert: "regGrows st (insertBlob k c st)"
  using insertBlob_mono by (simp add: regGrows_def)

end

section \<open>Uploads are safe\<close>

lemma regGrowsB: "regGrows v w \<Longrightarrow> vBlobs v k = Some x \<Longrightarrow> vBlobs w k = Some x"
  unfolding regGrows_def by (metis map_leD)

lemma regGrowsC: "regGrows v w \<Longrightarrow> vCommits v k = Some x \<Longrightarrow> vCommits w k = Some x"
  unfolding regGrows_def by (metis map_leD)

lemma regGrowsB_present: "regGrows v w \<Longrightarrow> vBlobs v k \<noteq> None \<Longrightarrow> vBlobs w k \<noteq> None"
  using regGrowsB by fastforce

context concurrent_registry
begin

lemma rely_grows: "rg.rely N v w \<Longrightarrow> regGrows v w"
  by (simp add: rg.rely_def)

text \<open>A step that leaves commits and identifiers alone promises what it owes with the names it has.\<close>

lemma guar_same: "regGrows v w \<Longrightarrow> vCommits w = vCommits v \<Longrightarrow> rg.guar N v w N"
  by (simp add: rg.guar_def)

lemma safe_now_frame:
  "rg.safe (\<lambda>N' w t. N' = N \<and> (\<forall>k \<in> N. vCommits w k = vCommits v k)) N v
    (act (\<lambda>s. case timeNow B s of (t, s') \<Rightarrow> (s', t)))"
proof (rule rg.safe_act)
  fix s s' a
  assume s: "rg.rely N v (view s)" "regInv (shake256 B) C (view s)"
    and "(case timeNow B s of (t, s') \<Rightarrow> (s', t)) = (s', a)"
  then have "view s' = view s" using now_view by (auto split: prod.splits)
  then show "\<exists>N'. rg.guar N (view s) (view s') N' \<and> regInv (shake256 B) C (view s') \<and>
      N' = N \<and> (\<forall>k \<in> N. vCommits (view s') k = vCommits v k)"
    using s by (auto intro: rg.guar_refl simp: rg.rely_def)
qed

lemma safe_P_put:
  assumes c: "c \<in> C" and key: "key = blobKey \<or> key = manifestPath"
    and man: "key = manifestPath \<Longrightarrow>
      \<exists>mf. ParseManifest c = Inr mf \<and> (\<forall>e \<in> set (mf_Entries mf). vBlobs v (blobKey (me_Digest e)) \<noteq> None)"
  shows "rg.safe (\<lambda>N' w r. N' = N \<and> (\<forall>d. r = Inr d \<longrightarrow> d = digest
      \<and> vBlobs w (key (computeFilesDigest (shake256 B) c)) = Some c))
    N v (P_put B (key (computeFilesDigest (shake256 B) c)) digest c)"
    (is "rg.safe ?Q N v (P_put B ?k digest c)")
  unfolding P_put_def
proof (rule rg.safe_bind [where R = "\<lambda>N' w r. N' = N \<and> (r = Inr True \<longrightarrow> vBlobs w ?k = Some c)"])
  show "rg.safe (\<lambda>N' w r. N' = N \<and> (r = Inr True \<longrightarrow> vBlobs w ?k = Some c)) N v
      (rd (\<lambda>s. bkExists (b_bucket B) s ?k))"
    by (rule rg.safe_rd) (auto simp: bk.exists dest: content_unique [OF _ _ c key])
next
  fix N' w and r :: "bool res"
  assume w: "regGrows v w" and r: "N' = N \<and> (r = Inr True \<longrightarrow> vBlobs w ?k = Some c)"
  let ?put = "act (\<lambda>s. bkWrite (b_bucket B) s ?k c)"
  have wr: "rg.safe (\<lambda>N' w r. ?Q N' w (case r of Some err \<Rightarrow> Inl err | None \<Rightarrow> Inr digest)) N w ?put"
  proof (rule rg.safe_act)
    fix s s' e
    assume s: "rg.rely N w (view s)" "regInv (shake256 B) C (view s)" "bkWrite (b_bucket B) s ?k c = (s', e)"
    show "\<exists>N'. rg.guar N (view s) (view s') N' \<and> regInv (shake256 B) C (view s')
        \<and> ?Q N' (view s') (case e of Some err \<Rightarrow> Inl err | None \<Rightarrow> Inr digest)"
    proof (cases e)
      case None
      have v: "view s' = insertBlob ?k c (view s)"
        using bk.write_ok [OF s(3) [unfolded None]] write_inserts [OF s(2) c key] by simp
      have "\<exists>mf. ParseManifest c = Inr mf \<and> (\<forall>e \<in> set (mf_Entries mf). vBlobs (view s) (blobKey (me_Digest e)) \<noteq> None)"
        if "key = manifestPath"
        using man [OF that] regGrowsB_present [OF regGrows_trans [OF w rely_grows [OF s(1)]]] by blast
      then have "regInv (shake256 B) C (view s')" unfolding v by (rule regInv_insert [OF s(2) c key])
      moreover from this have "vBlobs (view s') ?k = Some c"
        using content_unique [OF _ _ c key] insertBlob_present [of ?k c "view s"] unfolding v by fastforce
      moreover have "rg.guar N (view s) (view s') N"
        unfolding v by (intro guar_same regGrows_insert) simp
      ultimately show ?thesis using None by auto
    next
      case (Some err)
      then have "view s' = view s" using bk.write_err s(3) by blast
      then show ?thesis using s(2) Some by (auto intro: rg.guar_refl)
    qed
  qed
  show "rg.safe ?Q N' w (case r of Inl err \<Rightarrow> Ret (Inl err)
      | Inr exists \<Rightarrow> if exists then Ret (Inr digest)
          else fmap (\<lambda>w. case w of None \<Rightarrow> Inr digest | Some err \<Rightarrow> Inl err) ?put)"
    using r wr by (auto intro!: rg.Ret rg.safe_fmap split: sum.split)
qed

lemma blobKey_neq [simp]: "blobKey \<noteq> manifestPath"
  by (metis blobKey_manifestPath shake_length)

text \<open>After the blobs are stored they are all there with their contents, and so is the manifest after it.\<close>

definition filesStored :: "File list \<Rightarrow> store \<Rightarrow> bool" where
  "filesStored fs v \<longleftrightarrow>
     (\<forall>f \<in> set fs. vBlobs v (blobKey (computeFilesDigest (shake256 B) (f_Content f))) = Some (f_Content f))"

lemma filesStored_grows: "filesStored fs v \<Longrightarrow> regGrows v w \<Longrightarrow> filesStored fs w"
  unfolding filesStored_def using regGrowsB by blast

lemma safe_P_putFiles:
  assumes "\<forall>f \<in> set fs. f_Content f \<in> C"
  shows "rg.safe (\<lambda>N' w r. N' = N \<and> (\<forall>es'. r = Inr es' \<longrightarrow>
      es' = es @ map (entryOf (shake256 B)) fs \<and> filesStored fs w)) N v (P_putFiles B fs es)"
  using assms
proof (induction fs arbitrary: es v)
  case Nil
  show ?case by (auto intro: rg.Ret simp: filesStored_def)
next
  case (Cons f fs)
  let ?d = "computeFilesDigest (shake256 B) (f_Content f)"
  have "rg.safe (\<lambda>N' w r. N' = N \<and> (\<forall>d. r = Inr d \<longrightarrow> d = ?d \<and> vBlobs w (blobKey ?d) = Some (f_Content f)))
      N v (P_Blob_Put B (f_Content f))"
    unfolding P_Blob_Put_def Let_def computeFilesDigest_def [symmetric]
    by (rule safe_P_put [of "f_Content f" blobKey v, simplified]) (use Cons.prems in simp)
  then show ?case unfolding P_putFiles.simps
  proof (rule rg.safe_bind)
    fix N' and w :: store and r :: "Digest res"
    assume r: "N' = N \<and> (\<forall>d. r = Inr d \<longrightarrow> d = ?d \<and> vBlobs w (blobKey ?d) = Some (f_Content f))"
    show "rg.safe (\<lambda>N' w r. N' = N \<and> (\<forall>es'. r = Inr es' \<longrightarrow>
          es' = es @ map (entryOf (shake256 B)) (f # fs) \<and> filesStored (f # fs) w)) N' w
        (case r of Inl err \<Rightarrow> Ret (Inl (Wrapf (''failed to store blob '' @ f_Path f @ '': '') err))
         | Inr digest \<Rightarrow> P_putFiles B fs (es @ [\<lparr>me_Digest = digest, me_Path = f_Path f\<rparr>]))"
    proof (cases r)
      case (Inl e)
      then show ?thesis using r by (auto intro: rg.Ret)
    next
      case (Inr d)
      then have d: "d = ?d" "vBlobs w (blobKey ?d) = Some (f_Content f)" "N' = N" using r by auto
      have "rg.safe (\<lambda>N' x r. N' = N \<and> (\<forall>es'. r = Inr es' \<longrightarrow>
          es' = (es @ [entryOf (shake256 B) f]) @ map (entryOf (shake256 B)) fs \<and> filesStored fs x)) N w
          (P_putFiles B fs (es @ [entryOf (shake256 B) f]))"
        by (rule Cons.IH) (use Cons.prems in simp)
      then show ?thesis unfolding Inr sum.case d(1,3) entryOf_def [symmetric]
        by (rule rg.safe_conseq) (use regGrowsB d(2) in \<open>auto simp: filesStored_def\<close>)
    qed
  qed
qed

lemma safe_updateLabel:
  assumes "CHR ''/'' \<notin> set (Module_ID m)" "vCommits v cid = Some d" "cdoc_ModuleID d = Module_ID m"
  shows "rg.safe (\<lambda>N' w r. N' = N) N v (act (\<lambda>s. updateLabel B s m name cid))"
proof (rule rg.safe_act)
  fix s s' e
  assume s: "rg.rely N v (view s)" "regInv (shake256 B) C (view s)" "updateLabel B s m name cid = (s', e)"
  let ?l = "\<lparr>ldoc_ID = labelID (Module_ID m) name, ldoc_ModuleID = Module_ID m, ldoc_Name = name, ldoc_CommitID = cid\<rparr>"
  show "\<exists>N'. rg.guar N (view s) (view s') N' \<and> regInv (shake256 B) C (view s') \<and> N' = N"
  proof (cases e)
    case None
    then have w: "view s' = (view s)\<lparr>vLabels := (vLabels (view s))(labelID (Module_ID m) name \<mapsto> ?l)\<rparr>"
      using updateLabel_view [OF s(3)] by simp
    have "vCommits (view s) (ldoc_CommitID ?l) = Some d"
      using regGrowsC [OF rely_grows [OF s(1)] assms(2)] by simp
    from regOK_addLabel [OF _ this] have "regInv (shake256 B) C (view s')"
      using s(2) assms(1,3) unfolding w regInv_def by (simp add: labelsNamed_def)
    moreover have "ldoc_ModuleID l = Module_ID m" if "vLabels (view s) (labelID (Module_ID m) name) = Some l" for l
    proof -
      have "labelID (Module_ID m) name = labelID (ldoc_ModuleID l) (ldoc_Name l)" "CHR ''/'' \<notin> set (ldoc_ModuleID l)"
        using s(2) that unfolding regInv_def labelsNamed_def by blast+
      then show ?thesis using labelID_eq_module assms(1) by metis
    qed
    then have "regGrows (view s) (view s')" unfolding w regGrows_def by simp
    ultimately show ?thesis using guar_same [of "view s" "view s'" N] w by auto
  next
    case (Some err)
    then have "view s' = view s" using updateLabel_view [OF s(3)] by simp
    then show ?thesis using s(2) by (auto intro: rg.guar_refl)
  qed
qed

lemma safe_P_updateLabels:
  assumes "CHR ''/'' \<notin> set (Module_ID m)" "vCommits v cid = Some d" "cdoc_ModuleID d = Module_ID m"
  shows "rg.safe (\<lambda>N' w r. N' = N) N v (P_updateLabels B m ls cid)"
  using assms(2)
proof (induction ls arbitrary: v)
  case Nil
  show ?case by (auto intro: rg.Ret)
next
  case (Cons l ls)
  show ?case unfolding P_updateLabels.simps
  proof (rule rg.safe_bind [OF safe_updateLabel [OF assms(1) Cons.prems assms(3)]])
    fix N' w and r :: "goerr option"
    assume "regGrows v w" "N' = N"
    then show "rg.safe (\<lambda>N' w r. N' = N) N' w
        (case r of None \<Rightarrow> P_updateLabels B m ls cid | Some err \<Rightarrow> Ret (Some err))"
      using Cons.IH regGrowsC Cons.prems by (auto intro: rg.Ret split: option.split)
  qed
qed

text \<open>A new identifier belongs to the request that drew it, so nobody else creates its commit.\<close>

lemma safe_uuid:
  "rg.safe (\<lambda>N' w cid. cid \<in> N' \<and> cid \<in> vIds w \<and> vCommits w cid = None) N v
     (act (\<lambda>s. case uuidNewV7 B s of (u, s') \<Rightarrow> (s', removeDashes u)))"
proof (rule rg.safe_act)
  fix s s' cid
  assume s: "regInv (shake256 B) C (view s)" "(case uuidNewV7 B s of (u, s') \<Rightarrow> (s', removeDashes u)) = (s', cid)"
  then obtain u where u: "uuidNewV7 B s = (u, s')" "cid = removeDashes u" by (auto split: prod.splits)
  have w: "view s' = (view s)\<lparr>vIds := insert cid (vIds (view s))\<rparr>" and new: "cid \<noteq> []" "cid \<notin> vIds (view s)"
    using uuid_new [OF u(1)] unfolding u(2) by auto
  have "vCommits (view s) cid = None"
    using s(1) new(2) unfolding regInv_def regOK_def commitsOK_def by (metis not_None_eq)
  moreover have "regInv (shake256 B) C (view s')"
    using s(1) new(1) unfolding w regInv_def labelsNamed_def by (simp add: regOK_addId)
  moreover have "rg.guar N (view s) (view s') (insert cid N)"
    using new(2) unfolding w by (auto simp: rg.guar_def regGrows_def)
  ultimately show "\<exists>N'. rg.guar N (view s) (view s') N' \<and> regInv (shake256 B) C (view s') \<and>
      cid \<in> N' \<and> cid \<in> vIds (view s') \<and> vCommits (view s') cid = None"
    unfolding w by (intro exI [of _ "insert cid N"]) simp
qed

lemma safe_CreateCommit_record:
  assumes cid: "commit_ID r \<in> N" "commit_ID r \<in> vIds v" "vCommits v (commit_ID r) = None"
    and valid: "commitDocToRecord (commitRecordToDoc r) = Inr r"
    and fd: "commit_FilesDigest r = computeFilesDigest (shake256 B) a" "md_Type (commit_ModuleDigest r) = DigestTypeB5"
    and mf: "vBlobs v (manifestPath (computeFilesDigest (shake256 B) a)) \<noteq> None"
  shows "rg.safe (\<lambda>N' w e. e = None \<longrightarrow> vCommits w (commit_ID r) = Some (commitRecordToDoc r)) N v
    (act (\<lambda>s. Meta_CreateCommit B s r))"
proof (rule rg.safe_act)
  fix s s' e
  assume s: "rg.rely N v (view s)" "regInv (shake256 B) C (view s)" "Meta_CreateCommit B s r = (s', e)"
  have free: "vCommits (view s) (commit_ID r) = None" and ids: "commit_ID r \<in> vIds (view s)"
    using s(1) cid by (auto simp: rg.rely_def regGrows_def)
  note w = Meta_CreateCommit_view [OF s(3)]
  show "\<exists>N'. rg.guar N (view s) (view s') N' \<and> regInv (shake256 B) C (view s')
      \<and> (e = None \<longrightarrow> vCommits (view s') (commit_ID r) = Some (commitRecordToDoc r))"
  proof (cases e)
    case None
    then have w: "view s' = (view s)\<lparr>vCommits := (vCommits (view s))(commit_ID r \<mapsto> commitRecordToDoc r)\<rparr>"
      using w free by simp
    have "commitOK (shake256 B) (view s) (commitRecordToDoc r)"
      unfolding commitOK_def valid using fd regGrowsB_present [OF rely_grows [OF s(1)] mf] by fastforce
    then have "regInv (shake256 B) C (view s')"
      using s(2) free ids unfolding w regInv_def labelsNamed_def by (simp add: regOK_addCommit)
    moreover have "rg.guar N (view s) (view s') N"
      using free cid(1) unfolding w by (auto simp: rg.guar_def regGrows_def map_le_def)
    ultimately show ?thesis unfolding w by auto
  next
    case (Some err)
    then have "view s' = view s" using w by simp
    then show ?thesis using s(2) Some by (auto intro: rg.guar_refl)
  qed
qed

text \<open>A commit that is stored as the record it was made from.\<close>

definition commitStored :: "Commit \<Rightarrow> store \<Rightarrow> bool" where
  "commitStored c v \<longleftrightarrow> (\<exists>d rcd. vCommits v (c_ID c) = Some d \<and> commitDocToRecord d = Inr rcd \<and> toCommit rcd = c)"

lemma commitStored_grows: "commitStored c v \<Longrightarrow> regGrows v w \<Longrightarrow> commitStored c w"
  unfolding commitStored_def using regGrowsC by blast

lemma safe_P_newCommit:
  assumes m: "CHR ''/'' \<notin> set (Module_ID m)" and fd: "fd = computeFilesDigest (shake256 B) a"
    and md: "validModuleDigest md" "md_Type md = DigestTypeB5"
    and mf: "vBlobs v (manifestPath fd) \<noteq> None"
  shows "rg.safe (\<lambda>N' w r. \<forall>c. r = Inr c \<longrightarrow> c_FilesDigest c = fd \<and> c_ModuleID c = Module_ID m \<and> commitStored c w)
    N v (P_newCommit B m fd md labels url deps)" (is "rg.safe ?Q N v _")
  unfolding P_newCommit_def
proof (rule rg.safe_bind [OF safe_uuid], rule rg.safe_bind [OF safe_now_frame], unfold Let_def)
  fix N1 v1 cid N2 v2 t
  assume 1: "regGrows v v1" "cid \<in> N1 \<and> cid \<in> vIds v1 \<and> vCommits v1 cid = None"
    and 2: "regGrows v1 v2" "N2 = N1 \<and> (\<forall>k \<in> N1. vCommits v2 k = vCommits v1 k)"
  let ?r = "\<lparr>commit_ID = cid, commit_ModuleID = module_ID (mod_record m),
             commit_OwnerID = module_OwnerID (mod_record m), commit_FilesDigest = fd,
             commit_ModuleDigest = md, commit_CreateTime = t, commit_CreatedByUserID = [],
             commit_SourceControlURL = url, commit_DepCommitIDs = deps\<rparr>"
  let ?c = "\<lparr>c_ID = cid, c_ModuleID = module_ID (mod_record m), c_OwnerID = module_OwnerID (mod_record m),
      c_FilesDigest = fd, c_ModuleDigest = md, c_CreateTime = t, c_DepCommitIDs = deps\<rparr>"
  have valid: "commitDocToRecord (commitRecordToDoc ?r) = Inr ?r"
    using md(1) fd by (intro commit_roundtrip)
      (simp add: validCommitRecord_def computeFilesDigest_def DigestAlgorithmShake256_def)
  have cid: "cid \<in> N2" "cid \<in> vIds v2" "vCommits v2 cid = None"
    using 1(2) 2 by (auto simp: regGrows_def)
  have mf2: "vBlobs v2 (manifestPath (computeFilesDigest (shake256 B) a)) \<noteq> None"
    using regGrowsB_present [OF regGrows_trans [OF 1(1) 2(1)] mf] fd by simp
  have "rg.safe (\<lambda>N' w e. e = None \<longrightarrow> vCommits w cid = Some (commitRecordToDoc ?r)) N2 v2
      (act (\<lambda>s. Meta_CreateCommit B s ?r))"
    using safe_CreateCommit_record [of ?r N2 v2 a] cid valid fd md(2) mf2 by simp
  then show "rg.safe ?Q N2 v2 (bind (act (\<lambda>s. Meta_CreateCommit B s ?r)) (\<lambda>r. case r of
        None \<Rightarrow> fmap (\<lambda>r. case r of None \<Rightarrow> Inr ?c | Some err \<Rightarrow> Inl err) (P_updateLabels B m labels cid)
      | Some err \<Rightarrow> Ret (Inl (Wrapf ''failed to create commit: '' err))))"
  proof (rule rg.safe_bind)
    fix N3 and v3 :: store and e :: "goerr option"
    assume 3: "e = None \<longrightarrow> vCommits v3 cid = Some (commitRecordToDoc ?r)"
    show "rg.safe ?Q N3 v3 (case e of
        None \<Rightarrow> fmap (\<lambda>r. case r of None \<Rightarrow> Inr ?c | Some err \<Rightarrow> Inl err) (P_updateLabels B m labels cid)
      | Some err \<Rightarrow> Ret (Inl (Wrapf ''failed to create commit: '' err)))"
    proof (cases e)
      case None
      then have d: "vCommits v3 cid = Some (commitRecordToDoc ?r)" using 3 by simp
      have "cdoc_ModuleID (commitRecordToDoc ?r) = Module_ID m"
        by (simp add: commitRecordToDoc_def Module_ID_def)
      from safe_P_updateLabels [OF m d this, of N3 labels]
      have "rg.safe (\<lambda>N' w r. vCommits w cid = Some (commitRecordToDoc ?r)) N3 v3 (P_updateLabels B m labels cid)"
        by (rule rg.safe_conseq) (use regGrowsC d in blast)
      then have "rg.safe (\<lambda>N' w r. ?Q N' w (case r of None \<Rightarrow> Inr ?c | Some err \<Rightarrow> Inl err)) N3 v3
          (P_updateLabels B m labels cid)"
        by (rule rg.safe_conseq)
          (use valid in \<open>auto simp: Module_ID_def commitStored_def toCommit_def split: option.splits\<close>)
      then show ?thesis using None by (simp add: rg.safe_fmap)
    qed (auto intro: rg.Ret)
  qed
qed

lemma manifest_parses:
  assumes "\<forall>f \<in> set files. wfPath (f_Path f)"
  shows "ParseManifest (SerializeManifest (manifestOf (shake256 B) files)) =
    Inr \<lparr>mf_Entries = map (entryOf (shake256 B)) (sort_key f_Path files)\<rparr>"
proof -
  have wf: "\<forall>e \<in> set (mf_Entries (manifestOf (shake256 B) files)). wfEntry e"
    using manifestOf_entries [OF assms] by (simp add: manifestOf_def)
  have "sort_key me_Path (map (entryOf (shake256 B)) files) = map (entryOf (shake256 B)) (sort_key f_Path files)"
    by (simp add: sort_key_map entryOf_def)
  then show ?thesis using ParseManifest_SerializeManifest [OF wf] by (simp add: manifestOf_def)
qed

text \<open>A stored commit whose files and manifest are stored holds the files, sorted and with their digests.\<close>

lemma stored_holds:
  assumes "commitStored c v" "filesStored files v" "c_FilesDigest c = filesDigestOf (shake256 B) files"
    and "vBlobs v (manifestPath (filesDigestOf (shake256 B) files)) = Some (SerializeManifest (manifestOf (shake256 B) files))"
    and "\<forall>f \<in> set files. wfPath (f_Path f)"
  shows "holds v c (map (stamped (shake256 B)) (sort_key f_Path files))"
proof -
  have "list_all2 (entryHeld v)
      (map (entryOf (shake256 B)) (sort_key f_Path files)) (map (stamped (shake256 B)) (sort_key f_Path files))"
    unfolding list.rel_map
    by (rule list.rel_refl_strong) (use assms(2) in \<open>simp add: filesStored_def entryOf_def stamped_def\<close>)
  then show ?thesis
    using assms(1,3,4) manifest_parses [OF assms(5)] unfolding holds_def commitStored_def by fastforce
qed

lemma safe_P_PutManifest:
  assumes "\<forall>f \<in> set files. wfPath (f_Path f)" "filesStored files v"
    and "SerializeManifest (manifestOf (shake256 B) files) \<in> C"
  shows "rg.safe (\<lambda>N' w r. N' = N \<and> (\<forall>d. r = Inr d \<longrightarrow> d = filesDigestOf (shake256 B) files \<and>
      vBlobs w (manifestPath d) = Some (SerializeManifest (manifestOf (shake256 B) files)))) N v
    (P_PutManifest B (manifestOf (shake256 B) files))"
proof -
  have "\<exists>mf. ParseManifest (SerializeManifest (manifestOf (shake256 B) files)) = Inr mf
      \<and> (\<forall>e \<in> set (mf_Entries mf). vBlobs v (blobKey (me_Digest e)) \<noteq> None)"
    using assms(2) manifest_parses [OF assms(1)] by (auto simp: filesStored_def entryOf_def)
  then show ?thesis
    unfolding P_PutManifest_def Let_def
    by (intro rg.safe_conseq [OF safe_P_put [OF assms(3)]]) (auto simp: filesDigestOf_def)
qed

text \<open>An upload that ends without an error leaves a commit of its module that holds its files.\<close>

definition uploadDone :: "Module \<Rightarrow> File list \<Rightarrow> store \<Rightarrow> Commit res \<Rightarrow> bool" where
  "uploadDone m files w r \<longleftrightarrow>
     (\<forall>c. r = Inr c \<longrightarrow> c_ModuleID c = Module_ID m \<and> holds w c (map (stamped (shake256 B)) (sort_key f_Path files)))"

lemma uploadDone_error [simp]: "uploadDone m files w (Inl e)"
  by (simp add: uploadDone_def)

lemma safe_existing:
  assumes m: "CHR ''/'' \<notin> set (Module_ID m)" "commit_ModuleID e = Module_ID m"
    and d: "vCommits v (commit_ID e) = Some d" "commitDocToRecord d = Inr e" "cdoc_ModuleID d = commit_ModuleID e"
    and fd: "commit_FilesDigest e = filesDigestOf (shake256 B) files"
    and st: "filesStored files v" "\<forall>f \<in> set files. wfPath (f_Path f)"
      "vBlobs v (manifestPath (filesDigestOf (shake256 B) files)) = Some (SerializeManifest (manifestOf (shake256 B) files))"
  shows "rg.safe (\<lambda>N' w r. uploadDone m files w r) N v
    (fmap (\<lambda>r. case r of None \<Rightarrow> Inr (toCommit e) | Some err \<Rightarrow> Inl err) (P_updateLabels B m ls (commit_ID e)))"
proof (rule rg.safe_fmap, rule rg.safe_conseq)
  show "rg.safe (\<lambda>N' w r. N' = N) N v (P_updateLabels B m ls (commit_ID e))"
    using safe_P_updateLabels [OF m(1) d(1)] m(2) d(3) by simp
  fix N' w and r :: "goerr option"
  assume w: "regGrows v w"
  have "commitStored (toCommit e) v" using d by (auto simp: commitStored_def toCommit_def)
  from stored_holds [OF commitStored_grows [OF this w] filesStored_grows [OF st(1) w] _ regGrowsB [OF w st(3)] st(2)]
  have "holds w (toCommit e) (map (stamped (shake256 B)) (sort_key f_Path files))"
    using fd by (simp add: toCommit_def)
  then show "uploadDone m files w (case r of None \<Rightarrow> Inr (toCommit e) | Some err \<Rightarrow> Inl err)"
    using m(2) by (auto simp: uploadDone_def toCommit_def split: option.splits)
qed

lemma safe_new:
  assumes m: "CHR ''/'' \<notin> set (Module_ID m)"
    and md: "ComputeB5Digest (shake256 B) (manifestOf (shake256 B) files) dds = Inr md"
    and st: "filesStored files v" "\<forall>f \<in> set files. wfPath (f_Path f)"
      "vBlobs v (manifestPath (filesDigestOf (shake256 B) files)) = Some (SerializeManifest (manifestOf (shake256 B) files))"
  shows "rg.safe (\<lambda>N' w r. uploadDone m files w r) N v
    (P_newCommit B m (filesDigestOf (shake256 B) files) md ls url deps)"
proof (rule rg.safe_conseq)
  show "rg.safe (\<lambda>N' w r. \<forall>c. r = Inr c \<longrightarrow> c_FilesDigest c = filesDigestOf (shake256 B) files
      \<and> c_ModuleID c = Module_ID m \<and> commitStored c w) N v
    (P_newCommit B m (filesDigestOf (shake256 B) files) md ls url deps)"
    using ComputeB5Digest_valid [OF md shake_length] ComputeB5Digest_Type [OF md] st(3)
    by (intro safe_P_newCommit [OF m filesDigestOf_def]) simp_all
  fix N' w and r :: "Commit res"
  assume w: "regGrows v w" and r: "\<forall>c. r = Inr c \<longrightarrow> c_FilesDigest c = filesDigestOf (shake256 B) files
      \<and> c_ModuleID c = Module_ID m \<and> commitStored c w"
  then show "uploadDone m files w r"
    using stored_holds [OF _ filesStored_grows [OF st(1) w] _ regGrowsB [OF w st(3)] st(2)]
    by (auto simp: uploadDone_def)
qed

lemma safe_P_findOrCreate:
  assumes m: "CHR ''/'' \<notin> set (Module_ID m)"
    and md: "ComputeB5Digest (shake256 B) (manifestOf (shake256 B) files) dds = Inr md"
    and st: "filesStored files v" "\<forall>f \<in> set files. wfPath (f_Path f)"
      "vBlobs v (manifestPath (filesDigestOf (shake256 B) files)) = Some (SerializeManifest (manifestOf (shake256 B) files))"
  shows "rg.safe (\<lambda>N' w r. uploadDone m files w r) N v
    (P_findOrCreate B m ls url deps (filesDigestOf (shake256 B) files) md)"
  unfolding P_findOrCreate_def
proof (rule rg.safe_bind)
  let ?fd = "filesDigestOf (shake256 B) files"
  let ?R = "\<lambda>N' w r. \<forall>e. r = Inr e \<longrightarrow> (\<exists>d. vCommits w (commit_ID e) = Some d \<and> commitDocToRecord d = Inr e
    \<and> cdoc_ModuleID d = commit_ModuleID e \<and> commit_FilesDigest e = ?fd)"
  show "rg.safe ?R N v (rd (\<lambda>s. Meta_GetCommitByFilesDigest B s ?fd))"
    by (rule rg.safe_rd) (use existing_commit in blast)
  fix N' w and r :: "CommitRecord res"
  assume w: "regGrows v w" and r: "?R N' w r"
  note st' = filesStored_grows [OF st(1) w] st(2) regGrowsB [OF w st(3)]
  note new = safe_new [OF m md st']
  show "rg.safe (\<lambda>N' w r. uploadDone m files w r) N' w (case r of
      Inl x \<Rightarrow> P_newCommit B m ?fd md ls url deps
    | Inr existing \<Rightarrow> if commit_ModuleID existing = module_ID (mod_record m)
        then fmap (\<lambda>r. case r of None \<Rightarrow> Inr (toCommit existing) | Some err \<Rightarrow> Inl err)
          (P_updateLabels B m ls (commit_ID existing))
        else P_newCommit B m ?fd md ls url deps)"
  proof (cases r)
    case (Inr e)
    then obtain d where d: "vCommits w (commit_ID e) = Some d" "commitDocToRecord d = Inr e"
      "cdoc_ModuleID d = commit_ModuleID e" "commit_FilesDigest e = ?fd" using r by blast
    show ?thesis
      using new safe_existing [OF m _ d st'] Inr by (simp add: Module_ID_def)
  qed (use new in simp)
qed

lemma safe_P_withManifest:
  assumes m: "CHR ''/'' \<notin> set (Module_ID m)" and wf: "\<forall>f \<in> set files. wfPath (f_Path f)"
    and mf: "SerializeManifest (manifestOf (shake256 B) files) \<in> C" and st: "filesStored files v"
  shows "rg.safe (\<lambda>N' w r. uploadDone m files w r) N v
    (P_withManifest B m ls url deps dds (manifestOf (shake256 B) files))"
  unfolding P_withManifest_def
proof (rule rg.safe_bind [OF safe_P_PutManifest [OF wf st mf]])
  let ?mf = "manifestOf (shake256 B) files" and ?fd = "filesDigestOf (shake256 B) files"
  fix N' w and r :: "Digest res"
  assume w: "regGrows v w" and r: "N' = N \<and> (\<forall>d. r = Inr d \<longrightarrow> d = ?fd \<and>
      vBlobs w (manifestPath d) = Some (SerializeManifest ?mf))"
  then show "rg.safe (\<lambda>N' w r. uploadDone m files w r) N' w (case r of
      Inl err \<Rightarrow> Ret (Inl (Wrapf ''failed to store manifest: '' err))
    | Inr filesDigest \<Rightarrow> (case ComputeB5Digest (shake256 B) ?mf dds of
          Inl err \<Rightarrow> Ret (Inl (Wrapf ''failed to compute module digest: '' err))
        | Inr moduleDigest \<Rightarrow> P_findOrCreate B m ls url deps filesDigest moduleDigest))"
    using safe_P_findOrCreate [OF m _ filesStored_grows [OF st w] wf]
    by (cases r; cases "ComputeB5Digest (shake256 B) ?mf dds") (auto intro: rg.Ret)
qed

lemma safe_P_CreateCommit:
  assumes m: "CHR ''/'' \<notin> set (Module_ID m)"
    and files: "\<forall>f \<in> set files. wfPath (f_Path f) \<and> f_Content f \<in> C"
    and mf: "SerializeManifest (manifestOf (shake256 B) files) \<in> C"
  shows "rg.safe (\<lambda>N' w r. uploadDone m files w r) N v (P_CreateCommit B m files ls url deps dds)"
  unfolding P_CreateCommit_def
proof (rule rg.safe_bind [OF safe_P_putFiles])
  show "\<forall>f \<in> set files. f_Content f \<in> C" using files by blast
  fix N' w and r :: "ManifestEntry list res"
  assume r: "N' = N \<and> (\<forall>es'. r = Inr es' \<longrightarrow> es' = [] @ map (entryOf (shake256 B)) files \<and> filesStored files w)"
  show "rg.safe (\<lambda>N' w r. uploadDone m files w r) N' w
      (case r of Inl err \<Rightarrow> Ret (Inl err) | Inr entries \<Rightarrow> P_withManifest B m ls url deps dds \<lparr>mf_Entries = entries\<rparr>)"
  proof (cases r)
    case (Inr es)
    then have es: "\<lparr>mf_Entries = es\<rparr> = manifestOf (shake256 B) files" and st: "filesStored files w"
      using r by (auto simp: manifestOf_def)
    from safe_P_withManifest [OF m _ mf st] show ?thesis using files unfolding Inr sum.case es by blast
  qed (auto intro: rg.Ret)
qed

section \<open>Downloads are safe\<close>

lemma entriesHeld_grows: "list_all2 (entryHeld v) es fs \<Longrightarrow> regGrows v w \<Longrightarrow> list_all2 (entryHeld w) es fs"
  by (erule list_all2_mono) (auto intro: regGrowsB)

lemma safe_P_readEntries:
  assumes "\<forall>e \<in> set es. vBlobs v (blobKey (me_Digest e)) \<noteq> None"
  shows "rg.safe (\<lambda>N' w r. \<exists>fs. r = Inr (acc @ fs) \<and> list_all2 (entryHeld w) es fs) N v (P_readEntries B es acc)"
  using assms
proof (induction es arbitrary: acc N v)
  case Nil
  show ?case by (auto intro: rg.Ret)
next
  case (Cons e es)
  obtain x where x: "vBlobs v (blobKey (me_Digest e)) = Some x" using Cons.prems by auto
  have "rg.safe (\<lambda>N' w r. r = Inr (Inr x)) N v (rd (\<lambda>s. Blob_Get B s (me_Digest e)))"
    by (rule rg.safe_rd) (use regGrowsB [OF rely_grows x] in \<open>simp add: Blob_Get_view\<close>)
  then show ?case unfolding P_readEntries.simps
  proof (rule rg.safe_bind)
    fix N' w and r :: "string res res"
    assume w: "regGrows v w" and r: "r = Inr (Inr x)"
    let ?f = "\<lparr>f_Path = me_Path e, f_Content = x, f_Digest = me_Digest e\<rparr>"
    have "\<forall>e \<in> set es. vBlobs w (blobKey (me_Digest e)) \<noteq> None"
      using Cons.prems regGrowsB_present [OF w] by simp
    from Cons.IH [OF this, of "acc @ [?f]" N']
    have "rg.safe (\<lambda>N' w r. \<exists>fs. r = Inr (acc @ fs) \<and> list_all2 (entryHeld w) (e # es) fs) N' w
        (P_readEntries B es (acc @ [?f]))"
    proof (rule rg.safe_conseq)
      fix N'' u and r :: "File list res"
      assume u: "regGrows w u" and "\<exists>fs. r = Inr ((acc @ [?f]) @ fs) \<and> list_all2 (entryHeld u) es fs"
      then obtain fs where "r = Inr (acc @ ?f # fs)" "list_all2 (entryHeld u) es fs" by auto
      then show "\<exists>fs. r = Inr (acc @ fs) \<and> list_all2 (entryHeld u) (e # es) fs"
        using regGrowsB [OF regGrows_trans [OF w u] x] by (intro exI [of _ "?f # fs"]) simp
    qed
    then show "rg.safe (\<lambda>N' w r. \<exists>fs. r = Inr (acc @ fs) \<and> list_all2 (entryHeld w) (e # es) fs) N' w
        (case r of Inl err \<Rightarrow> Ret (Inl (Wrapf (''failed to get blob '' @ me_Path e @ '': '') err))
         | Inr (Inl err) \<Rightarrow> Ret (Inl (Wrapf (''failed to read blob '' @ me_Path e @ '': '') err))
         | Inr (Inr content) \<Rightarrow> P_readEntries B es
             (acc @ [\<lparr>f_Path = me_Path e, f_Content = content, f_Digest = me_Digest e\<rparr>]))"
      by (simp add: r)
  qed
qed

lemma safe_P_filesForCommit:
  assumes "commitStored c v"
  shows "rg.safe (\<lambda>N' w r. \<exists>files. r = Inr files \<and> holds w c files) N v (P_filesForCommit B c)"
  unfolding P_filesForCommit_def
proof (rule rg.safe_bind)
  let ?R = "\<lambda>N' w r. \<exists>t mf. r = Inr mf \<and> vBlobs w (manifestPath (c_FilesDigest c)) = Some t
    \<and> ParseManifest t = Inr mf \<and> (\<forall>e \<in> set (mf_Entries mf). vBlobs w (blobKey (me_Digest e)) \<noteq> None)"
  show "rg.safe ?R N v (rd (\<lambda>s. GetManifest B s (c_FilesDigest c)))"
  proof (rule rg.safe_rd)
    fix s
    assume s: "rg.rely N v (view s)" "regInv (shake256 B) C (view s)"
    obtain d rcd where d: "vCommits (view s) (c_ID c) = Some d" "commitDocToRecord d = Inr rcd" "toCommit rcd = c"
      using commitStored_grows [OF assms rely_grows [OF s(1)]] by (auto simp: commitStored_def)
    then have "commitOK (shake256 B) (view s) d"
      using s(2) unfolding regInv_def regOK_def commitsOK_def by blast
    then obtain a t where a: "c_FilesDigest c = computeFilesDigest (shake256 B) a"
      "vBlobs (view s) (manifestPath (c_FilesDigest c)) = Some t"
      using d(2,3) unfolding commitOK_def by (auto simp: toCommit_def)
    then obtain mf where "ParseManifest t = Inr mf"
      "\<forall>e \<in> set (mf_Entries mf). vBlobs (view s) (blobKey (me_Digest e)) \<noteq> None"
      using s(2) unfolding regInv_def regOK_def manifestsOK_def by metis
    then show "?R N (view s) (GetManifest B s (c_FilesDigest c))" using a(2) by (simp add: GetManifest_view)
  qed
  fix N' w and r :: "Manifest res"
  assume w: "regGrows v w" and "?R N' w r"
  then obtain t mf where mf: "r = Inr mf" "vBlobs w (manifestPath (c_FilesDigest c)) = Some t" "ParseManifest t = Inr mf"
    "\<forall>e \<in> set (mf_Entries mf). vBlobs w (blobKey (me_Digest e)) \<noteq> None" by blast
  show "rg.safe (\<lambda>N' w r. \<exists>files. r = Inr files \<and> holds w c files) N' w
      (case r of Inl err \<Rightarrow> Ret (Inl (Wrapf ''failed to get manifest: '' err))
       | Inr manifest \<Rightarrow> P_readEntries B (mf_Entries manifest) [])"
    unfolding mf(1) sum.case
  proof (rule rg.safe_conseq [OF safe_P_readEntries [OF mf(4)]])
    fix N'' u and r :: "File list res"
    assume u: "regGrows w u" and "\<exists>fs. r = Inr ([] @ fs) \<and> list_all2 (entryHeld u) (mf_Entries mf) fs"
    then show "\<exists>files. r = Inr files \<and> holds u c files"
      using commitStored_grows [OF assms regGrows_trans [OF w u]] regGrowsB [OF u mf(2)] mf(3)
      unfolding commitStored_def holds_def by auto
  qed
qed

text \<open>
  What a download gives back: the files of one commit of its module.  \<open>must\<close> says that it has to succeed.
\<close>

definition downloadDone :: "bool \<Rightarrow> Module \<Rightarrow> store \<Rightarrow> (File list \<times> Commit) res \<Rightarrow> bool" where
  "downloadDone must m w r \<longleftrightarrow>
     (\<forall>files c. r = Inr (files, c) \<longrightarrow> c_ModuleID c = Module_ID m \<and> holds w c files) \<and> (must \<longrightarrow> (\<exists>x. r = Inr x))"

definition commitFound :: "bool \<Rightarrow> Module \<Rightarrow> store \<Rightarrow> Commit res \<Rightarrow> bool" where
  "commitFound must m w r \<longleftrightarrow>
     (\<forall>c. r = Inr c \<longrightarrow> c_ModuleID c = Module_ID m \<and> commitStored c w) \<and> (must \<longrightarrow> (\<exists>c. r = Inr c))"

lemma safe_P_withFiles:
  assumes "rg.safe (\<lambda>N' w r. commitFound must m w r) N v p"
  shows "rg.safe (\<lambda>N' w r. downloadDone must m w r) N v (P_withFiles B p)"
  unfolding P_withFiles_def
proof (rule rg.safe_bind [OF assms])
  fix N' w and r :: "Commit res"
  assume r: "commitFound must m w r"
  show "rg.safe (\<lambda>N' w r. downloadDone must m w r) N' w (case r of Inl err \<Rightarrow> Ret (Inl err)
      | Inr commit \<Rightarrow> fmap (\<lambda>r. case r of Inl err \<Rightarrow> Inl err | Inr files \<Rightarrow> Inr (files, commit)) (P_filesForCommit B commit))"
  proof (cases r)
    case (Inl e)
    then show ?thesis using r by (auto intro!: rg.Ret simp: commitFound_def downloadDone_def)
  next
    case (Inr c)
    then have c: "commitStored c w" "c_ModuleID c = Module_ID m" using r by (auto simp: commitFound_def)
    show ?thesis unfolding Inr sum.case
      by (rule rg.safe_fmap, rule rg.safe_conseq [OF safe_P_filesForCommit [OF c(1)]])
        (use c(2) in \<open>auto simp: downloadDone_def\<close>)
  qed
qed

lemma safe_CommitByID:
  assumes "must \<longrightarrow> hasCommit m cid v"
  shows "rg.safe (\<lambda>N' w r. commitFound must m w r) N v (rd (\<lambda>s. Mod_CommitByID B s m cid))"
proof (rule rg.safe_rd)
  fix s
  assume s: "rg.rely N v (view s)" "regInv (shake256 B) C (view s)"
  have ok: "cdoc_ID d = cid" "\<exists>rcd. commitDocToRecord d = Inr rcd" if "vCommits (view s) cid = Some d" for d
    using s(2) that unfolding regInv_def regOK_def commitsOK_def commitOK_def by blast+
  show "commitFound must m (view s) (Mod_CommitByID B s m cid)"
  proof (cases "vCommits (view s) cid")
    case None
    then have "\<not> must" using assms regGrowsC [OF rely_grows [OF s(1)]] by (auto simp: hasCommit_def)
    then show ?thesis using None by (simp add: commitFound_def Mod_CommitByID_def Meta_GetCommit_view)
  next
    case (Some d)
    obtain rcd where rcd: "commitDocToRecord d = Inr rcd" using ok(2) [OF Some] by blast
    note f = commitDocToRecord_fields [OF rcd]
    have "must \<longrightarrow> cdoc_ModuleID d = Module_ID m"
      using assms regGrowsC [OF rely_grows [OF s(1)]] Some by (fastforce simp: hasCommit_def)
    then show ?thesis using Some rcd f ok(1) [OF Some]
      by (auto simp: commitFound_def Mod_CommitByID_def Meta_GetCommit_view Module_ID_def commitStored_def toCommit_def)
  qed
qed

lemma safe_P_Commit:
  assumes "must \<longrightarrow> hasLabel m ref v"
  shows "rg.safe (\<lambda>N' w r. commitFound must m w r) N v (P_Commit B m ref)"
  unfolding P_Commit_def Let_def
proof (rule rg.safe_bind)
  let ?ref = "if ref = [] then module_DefaultLabelName (mod_record m) else ref"
  let ?R = "\<lambda>N' w r. must \<longrightarrow> (\<exists>l. r = Inr l \<and> hasCommit m (label_CommitID l) w)"
  show "rg.safe ?R N v (rd (\<lambda>s. Meta_GetLabel B s (module_ID (mod_record m)) ?ref))"
  proof (rule rg.safe_rd, rule impI)
    fix s
    assume s: "rg.rely N v (view s)" "regInv (shake256 B) C (view s)" and must
    then obtain l where l: "vLabels (view s) (labelID (Module_ID m) ?ref) = Some l" "ldoc_ModuleID l = Module_ID m"
      using assms rely_grows [OF s(1)] unfolding hasLabel_def regGrows_def Module_DefaultLabelName_def by metis
    then have "hasCommit m (ldoc_CommitID l) (view s)"
      using s(2) unfolding regInv_def regOK_def labelsOK_def hasCommit_def by metis
    then show "\<exists>l. Meta_GetLabel B s (module_ID (mod_record m)) ?ref = Inr l \<and> hasCommit m (label_CommitID l) (view s)"
      using l(1) by (simp add: Meta_GetLabel_view Module_ID_def labelDocToRecord_def)
  qed
  fix N' w and r :: "LabelRecord res"
  assume "?R N' w r"
  then show "rg.safe (\<lambda>N' w r. commitFound must m w r) N' w
      (case r of Inl err \<Rightarrow> Ret (Inl (Wrapf (''label '' @ ?ref @ '' not found: '') err))
       | Inr label \<Rightarrow> rd (\<lambda>s. Mod_CommitByID B s m (label_CommitID label)))"
    using safe_CommitByID by (cases r) (auto intro!: rg.Ret simp: commitFound_def)
qed

lemma safe_P_FilesAndCommit:
  "must \<longrightarrow> hasLabel m ref v \<Longrightarrow> rg.safe (\<lambda>N' w r. downloadDone must m w r) N v (P_FilesAndCommit B m ref)"
  unfolding P_FilesAndCommit_def by (rule safe_P_withFiles) (rule safe_P_Commit)

lemma safe_P_FilesAndCommitByCommitID:
  "must \<longrightarrow> hasCommit m cid v \<Longrightarrow>
   rg.safe (\<lambda>N' w r. downloadDone must m w r) N v (P_FilesAndCommitByCommitID B m cid)"
  unfolding P_FilesAndCommitByCommitID_def by (rule safe_P_withFiles) (rule safe_CommitByID)

section \<open>Module operations are safe\<close>

lemma safe_only_owners:
  assumes "\<And>s s' r. g s = (s', r) \<Longrightarrow> sameButOwners (view s) (view s')"
  shows "rg.safe (\<lambda>_ _ _. True) N v (act g)"
proof (rule rg.safe_act)
  fix s s' r
  assume s: "regInv (shake256 B) C (view s)" "g s = (s', r)"
  note same = assms [OF s(2)]
  have "regInv (shake256 B) C (view s')"
    using s(1) same regOK_cong [of "shake256 B" "view s" "view s'"] unfolding regInv_def sameButOwners_def labelsNamed_def
    by (auto simp: regOK_def modulesOK_def)
  moreover have "regGrows (view s) (view s')" using same by (simp add: regGrows_def sameButOwners_def)
  ultimately show "\<exists>N'. rg.guar N (view s) (view s') N' \<and> regInv (shake256 B) C (view s') \<and> True"
    using guar_same same by (auto simp: sameButOwners_def)
qed

lemma safe_only_modules:
  assumes "\<And>s s' r. regInv (shake256 B) C (view s) \<Longrightarrow> g s = (s', r) \<Longrightarrow>
    sameButModules (view s) (view s') \<and> modulesOK (view s')"
  shows "rg.safe (\<lambda>_ _ _. True) N v (act g)"
proof (rule rg.safe_act)
  fix s s' r
  assume s: "regInv (shake256 B) C (view s)" "g s = (s', r)"
  note same = assms [OF s]
  have "regInv (shake256 B) C (view s')"
    using s(1) same regOK_sameButModules [of s s'] unfolding regInv_def sameButModules_def labelsNamed_def by auto
  moreover have "regGrows (view s) (view s')" using same by (simp add: regGrows_def sameButModules_def)
  ultimately show "\<exists>N'. rg.guar N (view s) (view s') N' \<and> regInv (shake256 B) C (view s') \<and> True"
    using guar_same same by (auto simp: sameButModules_def)
qed

lemma safe_true: "rg.safe R N v p \<Longrightarrow> rg.safe (\<lambda>_ _ _. True) N v p"
  by (erule rg.safe_conseq) simp

lemma safe_P_ensureOwner: "rg.safe (\<lambda>_ _ _. True) N v (P_ensureOwner B owner)"
  unfolding P_ensureOwner_def Let_def
proof (rule rg.safe_bind [where R = "\<lambda>_ _ _. True"])
  show "rg.safe (\<lambda>_ _ _. True) N v (rd (\<lambda>s. Meta_GetOwner B s (OwnerID owner)))" by (rule rg.safe_rd) simp
  have c: "rg.safe (\<lambda>_ _ _. True) N' w (act (\<lambda>s. Meta_CreateOwner B s r))" for N' w r
    by (rule safe_only_owners) (auto dest!: Meta_CreateOwner_view simp: sameButOwners_def split: option.splits)
  have "rg.safe (\<lambda>_ _ _. True) N' w (bind (act (\<lambda>s. case timeNow B s of (t, s') \<Rightarrow> (s', t)))
      (\<lambda>t. fmap h (act (\<lambda>s. Meta_CreateOwner B s (r t)))))" for N' w and h :: "goerr option \<Rightarrow> goerr option" and r
    by (rule rg.safe_bind [OF safe_now_frame], rule rg.safe_fmap, rule c)
  then show "rg.safe (\<lambda>_ _ _. True) N' w (case r of
      Inl err \<Rightarrow> if err = ErrNotFound
        then bind (act (\<lambda>s. case timeNow B s of (t, s') \<Rightarrow> (s', t))) (\<lambda>t.
          fmap (\<lambda>r. case r of None \<Rightarrow> None
              | Some e \<Rightarrow> if e \<noteq> ErrAlreadyExists then Some (Wrapf ''failed to create owner: '' e) else None)
            (act (\<lambda>s. Meta_CreateOwner B s \<lparr>owner_ID = OwnerID owner, owner_Name = owner, owner_CreateTime = t\<rparr>)))
        else Ret (Some (Wrapf ''failed to get owner: '' err))
    | Inr x \<Rightarrow> Ret None)" for N' w and r :: "OwnerRecord res"
    by (auto intro: rg.Ret split: sum.split)
qed

text \<open>A module that is returned has the name asked for and the identifier derived from it.\<close>

definition moduleNamed :: "string \<Rightarrow> string \<Rightarrow> Module res \<Rightarrow> bool" where
  "moduleNamed owner name r \<longleftrightarrow> (\<forall>m. r = Inr m \<longrightarrow> Module_Owner m = owner \<and> Module_Name m = name
     \<and> Module_ID m = ModuleID (OwnerID owner) name)"

lemma moduleNamed_simps [simp]:
  "moduleNamed owner name (Inl e)"
  "moduleNamed owner name (Inr \<lparr>mod_record = newModule owner name desc now\<rparr>)"
  by (simp_all add: moduleNamed_def newModule_def Module_Owner_def Module_Name_def Module_ID_def)

lemma safe_lookup: "rg.safe (\<lambda>N' w r. moduleNamed owner name r) N v (rd (\<lambda>s. Reg_Module B s owner name))"
  by (rule rg.safe_rd) (auto simp: moduleNamed_def regInv_def regOK_def dest: Reg_Module_Inr)

lemma safe_create_record:
  "rg.safe (\<lambda>_ _ _. True) N v (act (\<lambda>s. Meta_CreateModule B s (newModule owner name desc now)))"
proof (rule safe_only_modules)
  fix s s' e
  assume s: "regInv (shake256 B) C (view s)" "Meta_CreateModule B s (newModule owner name desc now) = (s', e)"
  have ok: "modulesOK (view s)" using s(1) by (simp add: regInv_def regOK_def)
  show "sameButModules (view s) (view s') \<and> modulesOK (view s')"
    using Meta_CreateModule_view [OF s(2)] ok
    by (cases e) (auto simp: sameButModules_def modulesOK_def newModule_def moduleRecordToDoc_def)
qed

lemma safe_P_CreateModule:
  "rg.safe (\<lambda>N' w r. moduleNamed owner name r) N v (P_CreateModule B owner name desc)"
  unfolding P_CreateModule_def
proof (rule rg.safe_bind [OF safe_P_ensureOwner])
  fix N1 v1 and r1 :: "goerr option"
  let ?rec = "newModule owner name desc"
  have tail: "rg.safe (\<lambda>N' w r. moduleNamed owner name r) N2 v2 (bind (act (\<lambda>s. Meta_CreateModule B s (?rec now))) (\<lambda>r.
      case r of None \<Rightarrow> Ret (Inr \<lparr>mod_record = ?rec now\<rparr>)
      | Some err \<Rightarrow> if err = ErrAlreadyExists then rd (\<lambda>s. Reg_Module B s owner name)
          else Ret (Inl (Wrapf ''failed to create module: '' err))))" for N2 v2 now
    by (rule rg.safe_bind [OF safe_create_record])
      (auto intro!: rg.Ret safe_lookup split: option.split)
  show "rg.safe (\<lambda>N' w r. moduleNamed owner name r) N1 v1 (case r1 of
      None \<Rightarrow> bind (act (\<lambda>s. case timeNow B s of (t, s') \<Rightarrow> (s', t))) (\<lambda>now. let rcd = ?rec now in
        bind (act (\<lambda>s. Meta_CreateModule B s rcd)) (\<lambda>r. case r of None \<Rightarrow> Ret (Inr \<lparr>mod_record = rcd\<rparr>)
          | Some err \<Rightarrow> if err = ErrAlreadyExists then rd (\<lambda>s. Reg_Module B s owner name)
              else Ret (Inl (Wrapf ''failed to create module: '' err))))
    | Some err \<Rightarrow> Ret (Inl err))"
    unfolding Let_def using rg.safe_bind [OF safe_now_frame tail]
    by (auto intro: rg.Ret split: option.split)
qed

lemma safe_P_GetOrCreateModule:
  "rg.safe (\<lambda>N' w r. moduleNamed owner name r) N v (P_GetOrCreateModule B owner name)"
  unfolding P_GetOrCreateModule_def
  by (rule rg.safe_bind [OF safe_lookup])
    (auto intro: rg.Ret safe_P_CreateModule split: sum.split)

lemma safe_P_DeleteModule: "rg.safe (\<lambda>_ _ _. True) N v (P_DeleteModule B owner name)"
  unfolding P_DeleteModule_def
proof (rule rg.safe_bind [where R = "\<lambda>_ _ _. True"])
  have "rg.safe (\<lambda>_ _ _. True) N' w (act (\<lambda>s. Meta_DeleteModule B s k))" for N' w k
  proof (rule safe_only_modules)
    fix s s' e
    assume s: "regInv (shake256 B) C (view s)" "Meta_DeleteModule B s k = (s', e)"
    then show "sameButModules (view s) (view s') \<and> modulesOK (view s')"
      using Meta_DeleteModule_view [OF s(2)]
      by (cases e) (auto simp: sameButModules_def modulesOK_def regInv_def regOK_def)
  qed
  then show "rg.safe (\<lambda>_ _ _. True) N' w (case r of Inl err \<Rightarrow> Ret (Some err)
      | Inr rcd \<Rightarrow> act (\<lambda>s. Meta_DeleteModule B s (module_ID rcd)))" for N' w and r :: "ModuleRecord res"
    by (auto intro: rg.Ret split: sum.split)
qed (rule rg.safe_rd, simp)

section \<open>Stability\<close>

lemma stable_download: "rg.stable (\<lambda>N w r. downloadDone must m w r)"
  unfolding rg.stable_def downloadDone_def using holds_grows rely_grows by blast

lemma stable_upload: "rg.stable (\<lambda>N w r. uploadDone m files w r)"
  unfolding rg.stable_def uploadDone_def using holds_grows rely_grows by blast

lemma stable_named: "rg.stable (\<lambda>N w r. moduleNamed owner name r)"
  by (simp add: rg.stable_def)

end

section \<open>Requests\<close>

datatype outcome = Uploaded "Commit res" | Downloaded "(File list \<times> Commit) res" | GotModule "Module res"
  | Deleted "goerr option"

text \<open>
  The requests that may arrive at any time.  Uploads have paths that fit the manifest's line format and content,
  the manifest included, in \<open>C\<close>; the identifier of a module has no slash, as derived identifiers
  never do.
\<close>

inductive registry_request :: "'s backend \<Rightarrow> string set \<Rightarrow> ('s, outcome) prog \<Rightarrow> bool"
  for B :: "'s backend" and C :: "string set" where
  upload: "CHR ''/'' \<notin> set (Module_ID m) \<Longrightarrow> \<forall>f \<in> set files. wfPath (f_Path f) \<and> f_Content f \<in> C \<Longrightarrow>
    SerializeManifest (manifestOf (shake256 B) files) \<in> C \<Longrightarrow>
    registry_request B C (fmap Uploaded (P_CreateCommit B m files labels url deps dds))"
| download: "registry_request B C (fmap Downloaded (P_FilesAndCommit B m ref))"
| download_commit: "registry_request B C (fmap Downloaded (P_FilesAndCommitByCommitID B m cid))"
| create_module: "registry_request B C (fmap GotModule (P_CreateModule B owner name desc))"
| get_or_create_module: "registry_request B C (fmap GotModule (P_GetOrCreateModule B owner name))"
| delete_module: "registry_request B C (fmap Deleted (P_DeleteModule B owner name))"

lemma regInv_empty: "emptyStore st \<Longrightarrow> regInv shake C st"
  using regOK_empty by (simp add: regInv_def labelsNamed_def emptyStore_def)

context concurrent_registry
begin

lemma request_safe:
  assumes "registry_request B C p"
  shows "rg.safe (\<lambda>_ _ _. True) {} v p"
  using assms
proof (cases rule: registry_request.cases)
  case (upload m files labels url deps dds)
  show ?thesis unfolding upload(1)
    by (rule rg.safe_fmap, rule safe_true, rule safe_P_CreateCommit [OF upload(2-4)])
next
  case (download m ref)
  show ?thesis unfolding download
    by (rule rg.safe_fmap, rule safe_true, rule safe_P_FilesAndCommit [where must = False]) simp
next
  case (download_commit m cid)
  show ?thesis unfolding download_commit
    by (rule rg.safe_fmap, rule safe_true, rule safe_P_FilesAndCommitByCommitID [where must = False]) simp
qed (auto intro: rg.safe_fmap safe_true [OF safe_P_CreateModule] safe_true [OF safe_P_GetOrCreateModule]
      safe_P_DeleteModule)

text \<open>Requests of any kind that are safe keep the invariant, whenever they arrive.\<close>

lemma arrivals_reach:
  assumes "par_reach arrives (s0, []) (s, ps)" "emptyStore (view s0)"
    and new: "\<And>p v. arrives p \<Longrightarrow> rg.safe (\<lambda>_ _ _. True) {} v p"
  shows "\<exists>Ns. rg.cfg_ok (\<lambda>_ _ _ _. True) Ns (s, ps)"
proof -
  have "rg.cfg_ok (\<lambda>_ _ _ _. True) (\<lambda>_. {}) (s0, [])"
    using regInv_empty [OF assms(2)] by (simp add: rg.cfg_ok_def)
  from rg.cfg_reach [OF assms(1) this] new show ?thesis by (auto simp: rg.stable_def)
qed

lemma arrivals_regInv:
  assumes "par_reach arrives (s0, []) (s, ps)" "emptyStore (view s0)"
    and "\<And>p v. arrives p \<Longrightarrow> rg.safe (\<lambda>_ _ _. True) {} v p"
  shows "regInv (shake256 B) C (view s)"
  using arrivals_reach [OF assms] by (auto simp: rg.cfg_ok_def)

text \<open>What a request ends with that joins them.\<close>

lemma arrival_result:
  assumes "par_reach arrives (s0, []) (s, ps)" "emptyStore (view s0)"
    and new: "\<And>p v. arrives p \<Longrightarrow> rg.safe (\<lambda>_ _ _. True) {} v p"
    and p: "rg.safe Q {} (view s) p" and st: "rg.stable Q"
    and reach: "par_reach arrives (s, ps @ [p]) (s', ps')" and r: "ps' ! length ps = Ret a"
  shows "regInv (shake256 B) C (view s') \<and> (\<exists>N. Q N (view s') a)"
proof -
  obtain Ns where ok: "rg.cfg_ok (\<lambda>_ _ _ _. True) Ns (s, ps)" using arrivals_reach [OF assms(1-3)] by blast
  let ?Q = "\<lambda>i. if i = length ps then Q else (\<lambda>_ _ _. True)"
  have "rg.cfg_ok ?Q Ns (s, ps)" using ok by (simp add: rg.cfg_ok_def)
  then have "rg.cfg_ok ?Q (Ns(length ps := {})) (s, ps @ [p])"
    by (rule rg.cfg_arrival) (simp add: p)
  moreover have "rg.stable (?Q i)" for i using st by (simp add: rg.stable_def)
  ultimately obtain Ns' where c: "rg.cfg_ok ?Q Ns' (s', ps')" "length (ps @ [p]) \<le> length ps'"
    using rg.cfg_reach [OF reach, of ?Q "Ns(length ps := {})"] new by fastforce
  from rg.cfg_result [OF c(1) _ r] c show ?thesis by (auto simp: rg.cfg_ok_def)
qed

lemma requests_regOK:
  "par_reach (registry_request B C) (s0, []) (s, ps) \<Longrightarrow> emptyStore (view s0) \<Longrightarrow> regOK (shake256 B) (view s)"
  using arrivals_regInv [OF _ _ request_safe] by (simp add: regInv_def)

lemma upload_served:
  assumes "par_reach (registry_request B C) (s0, []) (s, ps)" "emptyStore (view s0)"
    and req: "CHR ''/'' \<notin> set (Module_ID m)" "\<forall>f \<in> set files. wfPath (f_Path f) \<and> f_Content f \<in> C"
      "SerializeManifest (manifestOf (shake256 B) files) \<in> C"
    and reach: "par_reach (registry_request B C)
      (s, ps @ [fmap Uploaded (P_CreateCommit B m files labels url deps dds)]) (s', ps')"
    and r: "ps' ! length ps = Ret (Uploaded (Inr c))"
  shows "FilesAndCommitByCommitID B s' m (c_ID c) = Inr (map (stamped (shake256 B)) (sort_key f_Path files), c)"
proof -
  let ?Q = "\<lambda>N w out. \<forall>r. out = Uploaded r \<longrightarrow> uploadDone m files w r"
  have "rg.safe ?Q {} (view s) (fmap Uploaded (P_CreateCommit B m files labels url deps dds))"
    by (rule rg.safe_fmap, rule rg.safe_conseq [OF safe_P_CreateCommit [OF req]]) simp
  moreover have "rg.stable ?Q" using stable_upload unfolding rg.stable_def by blast
  ultimately have "uploadDone m files (view s') (Inr c)"
    using arrival_result [OF assms(1,2) request_safe _ _ reach r] by blast
  then show ?thesis by (intro held_download) (auto simp: uploadDone_def)
qed

lemma download_consistent:
  assumes "par_reach (registry_request B C) (s0, []) (s, ps)" "emptyStore (view s0)"
    and reach: "par_reach (registry_request B C) (s, ps @ [fmap Downloaded (P_FilesAndCommit B m ref)]) (s', ps')"
    and r: "ps' ! length ps = Ret (Downloaded r)"
  shows "(case r of Inr (files, c) \<Rightarrow> FilesAndCommitByCommitID B s' m (c_ID c) = Inr (files, c)
    | Inl e \<Rightarrow> \<not> hasLabel m ref (view s))"
proof -
  let ?Q = "\<lambda>N w out. \<forall>r. out = Downloaded r \<longrightarrow> downloadDone (hasLabel m ref (view s)) m w r"
  have "rg.safe ?Q {} (view s) (fmap Downloaded (P_FilesAndCommit B m ref))"
    by (rule rg.safe_fmap, rule rg.safe_conseq
        [OF safe_P_FilesAndCommit [where must = "hasLabel m ref (view s)"]]) simp_all
  moreover have "rg.stable ?Q" using stable_download unfolding rg.stable_def by blast
  ultimately have "downloadDone (hasLabel m ref (view s)) m (view s') r"
    using arrival_result [OF assms(1,2) request_safe _ _ reach r] by blast
  then show ?thesis using held_download by (auto simp: downloadDone_def split: sum.split)
qed

end

section \<open>Examples\<close>

definition exampleTexts :: "string set" where
  "exampleTexts = insert (SerializeManifest (manifestOf memShake exampleFiles)) (f_Content ` set exampleFiles)"

interpretation memc: concurrent_registry memBackend memView exampleTexts
proof unfold_locales
  have "ran (vBlobs (memView memEmpty)) = {}" by (simp add: memView_def memEmpty_def)
  then show "inj_on (shake256 memBackend) exampleTexts"
    using exampleFiles_collisionFree by (simp add: collisionFree_def exampleTexts_def)
qed

definition exampleRequest :: "(mem, outcome) prog" where
  "exampleRequest = fmap Uploaded (P_CreateCommit memBackend exampleModule exampleFiles [''main''] [] [] [])"

lemma exampleRequest_args:
  "CHR ''/'' \<notin> set (Module_ID exampleModule)"
  "\<forall>f \<in> set exampleFiles. wfPath (f_Path f) \<and> f_Content f \<in> exampleTexts"
  "SerializeManifest (manifestOf (shake256 memBackend) exampleFiles) \<in> exampleTexts"
  using exampleFiles_wf by (auto simp: exampleModule_def Module_ID_def exampleTexts_def)

lemma exampleRequest_request: "registry_request memBackend exampleTexts exampleRequest"
  unfolding exampleRequest_def by (rule registry_request.upload [OF exampleRequest_args])

lemma exampleRequest_runs:
  "\<exists>s' c. run exampleRequest s = (s', Uploaded (Inr c))
     \<and> Mod_CreateCommit memBackend s exampleModule exampleFiles [''main''] [] [] [] = (s', Inr c)"
  using mem_CreateCommit [of "[]" s exampleModule exampleFiles "[''main'']" "[]" "[]"]
  by (auto simp: exampleRequest_def)

lemma exampleRequest_reach:
  "\<exists>s' c. par_reach (registry_request memBackend exampleTexts) (memEmpty, [exampleRequest]) (s', [Ret (Uploaded (Inr c))])
     \<and> Mod_CreateCommit memBackend memEmpty exampleModule exampleFiles [''main''] [] [] [] = (s', Inr c)"
proof -
  obtain s' c where r: "run exampleRequest memEmpty = (s', Uploaded (Inr c))"
    "Mod_CreateCommit memBackend memEmpty exampleModule exampleFiles [''main''] [] [] [] = (s', Inr c)"
    using exampleRequest_runs by blast
  from run_reach [of 0 "[exampleRequest]" memEmpty s' "Uploaded (Inr c)"] r show ?thesis by auto
qed

lemma concurrent: "backend_laws B view \<Longrightarrow> inj_on (shake256 B) C \<Longrightarrow> concurrent_registry B view C"
  by (simp add: concurrent_registry.intro concurrent_registry_axioms.intro)

lemma arrive_first: "registry_request B C p \<Longrightarrow> par_reach (registry_request B C) (s, []) (s, [p])"
  using par_reach.step [OF par_reach.start, of "registry_request B C" "(s, [])" "(s, [p])"]
    par_step.arrival [of "registry_request B C" p s "[]"] by simp

text \<open>As long as there is no commit, the upload gets past the look for an identical one.\<close>

definition exampleNew :: "ModuleDigest \<Rightarrow> (mem, outcome) prog" where
  "exampleNew md = fmap Uploaded (P_newCommit memBackend exampleModule (filesDigestOf memShake exampleFiles) md
     [''main''] [] [])"

lemma upload_lookup:
  assumes st: "vCommits (memView s) = Map.empty" "regOK memShake (memView s)"
    and i: "i < length ps" "ps ! i = exampleRequest"
  shows "\<exists>s2 md. par_reach arrives (s, ps) (s2, ps[i := exampleNew md])
    \<and> memView s2 = uploaded memShake exampleFiles (memView s) \<and> regOK memShake (memView s2)
    \<and> ComputeB5Digest memShake (manifestOf memShake exampleFiles) [] = Inr md"
proof -
  let ?mf = "manifestOf memShake exampleFiles" and ?fd = "filesDigestOf memShake exampleFiles"
  obtain s1 es where 1: "putFiles memBackend s exampleFiles [] = (s1, Inr es)" using mem_putFiles by blast
  then have v1: "memView s1 = insertFiles memShake exampleFiles (memView s)" and es: "\<lparr>mf_Entries = es\<rparr> = ?mf"
    using mem.putFiles_ok [OF 1] by (simp_all add: manifestOf_def)
  obtain s2 fd where 2: "PutManifest memBackend s1 ?mf = (s2, Inr fd)" using mem_PutManifest by blast
  have v2: "memView s2 = uploaded memShake exampleFiles (memView s)" and fd: "fd = ?fd"
    using mem.PutManifest_view [OF 2] by (simp_all add: v1 uploaded_def insertManifest_def filesDigestOf_def)
  have ok1: "regOK memShake (memView s1)" using mem.regOK_putFiles [OF 1] st(2) by simp
  have "\<forall>e \<in> set (mf_Entries ?mf). wfEntry e \<and> vBlobs (memView s1) (blobKey (me_Digest e)) \<noteq> None"
    using mem.manifestOf_entries [OF exampleFiles_wf] unfolding v1 by (simp add: manifestOf_def)
  then have ok2: "regOK memShake (memView s2)" using mem.regOK_PutManifest [OF 2] ok1 by simp
  obtain md where md: "ComputeB5Digest memShake ?mf [] = Inr md"
    using ComputeB5Digest_B5 [of "[]" memShake ?mf] by auto
  obtain e where 3: "Meta_GetCommitByFilesDigest memBackend s2 ?fd = Inl e"
    using mem.existing_commit [of s2 exampleFiles] v2 st(1)
    by (cases "Meta_GetCommitByFilesDigest memBackend s2 ?fd") auto
  let ?after = "\<lambda>r. fmap Uploaded (case r of Inl err \<Rightarrow> Ret (Inl err)
    | Inr entries \<Rightarrow> P_withManifest memBackend exampleModule [''main''] [] [] [] \<lparr>mf_Entries = entries\<rparr>)"
  have p0: "ps ! i = bind (P_putFiles memBackend exampleFiles []) ?after"
    using i(2) by (simp add: exampleRequest_def P_CreateCommit_def fmap_bind)
  have r1: "par_reach arrives (s, ps) (s1, ps[i := fmap Uploaded
      (P_withManifest memBackend exampleModule [''main''] [] [] [] ?mf)])"
    using part_reach [OF i(1) p0, of s s1 "Inr es"] 1 es by simp
  let ?wm = "fmap Uploaded (P_withManifest memBackend exampleModule [''main''] [] [] [] ?mf)"
  let ?fc = "fmap Uploaded (P_findOrCreate memBackend exampleModule [''main''] [] [] ?fd md)"
  obtain g where g: "?wm = bind (P_PutManifest memBackend ?mf) g" "g (Inr fd) = ?fc"
    using fd md by (simp add: P_withManifest_def fmap_bind)
  have r2: "par_reach arrives (s1, ps[i := ?wm]) (s2, ps[i := ?fc])"
    using part_reach [of i "ps[i := ?wm]" "P_PutManifest memBackend ?mf" g s1 s2 "Inr fd"] i(1) 2 g by simp
  obtain h where h: "?fc = bind (rd (\<lambda>s. Meta_GetCommitByFilesDigest memBackend s ?fd)) h" "h (Inl e) = exampleNew md"
    by (simp add: P_findOrCreate_def fmap_bind exampleNew_def)
  have r3: "par_reach arrives (s2, ps[i := ?fc]) (s2, ps[i := exampleNew md])"
    using part_reach [of i "ps[i := ?fc]" "rd (\<lambda>s. Meta_GetCommitByFilesDigest memBackend s ?fd)" h s2 s2 "Inl e"]
      i(1) 3 h by simp
  from par_reach_trans [OF r3 par_reach_trans [OF r2 r1]] v2 ok2 md show ?thesis by blast
qed

lemma upload_creates:
  assumes ok: "regOK memShake (memView s)" and i: "i < length ps" "ps ! i = exampleNew md"
    and md: "ComputeB5Digest memShake (manifestOf memShake exampleFiles) [] = Inr md"
    and mf: "vBlobs (memView s) (manifestPath (filesDigestOf memShake exampleFiles)) \<noteq> None"
  shows "\<exists>s' c d. par_reach arrives (s, ps) (s', ps[i := Ret (Uploaded (Inr c))]) \<and> regOK memShake (memView s')
    \<and> vBlobs (memView s') = vBlobs (memView s) \<and> vCommits (memView s) (c_ID c) = None
    \<and> vCommits (memView s') = (vCommits (memView s))(c_ID c \<mapsto> d)
    \<and> c_FilesDigest c = filesDigestOf memShake exampleFiles \<and> c_ModuleID c = Module_ID exampleModule"
proof -
  obtain s' c where n: "newCommit memBackend s exampleModule (filesDigestOf memShake exampleFiles) md [''main''] [] [] =
      (s', Inr c)" using mem_newCommit by blast
  have v: "validModuleDigest md" "md_Type md = DigestTypeB5"
    using ComputeB5Digest_valid [OF md] mem.shake_length ComputeB5Digest_Type [OF md] by simp_all
  note nv = mem.newCommit_view [OF n _ _ v, where a = "SerializeManifest (manifestOf memShake exampleFiles)"]
  have "par_reach arrives (s, ps) (s', ps[i := Ret (Uploaded (Inr c))])"
    using i n by (intro run_reach) (simp_all add: exampleNew_def)
  then show ?thesis using nv ok mf by (auto simp: filesDigestOf_def)
qed

section \<open>Properties\<close>

text \<open>
  The programs are the operations: run without interference, each program of a request has the
  final state and the result of the sequential definition, so that the interleavings below
  are interleavings of the calls these definitions make.
\<close>

theorem programs_are_operations:
  "run (P_CreateCommit B m files labels url deps dds) s = Mod_CreateCommit B s m files labels url deps dds
   \<and> run (P_FilesAndCommit B m ref) s = (s, FilesAndCommit B s m ref)
   \<and> run (P_FilesAndCommitByCommitID B m cid) s = (s, FilesAndCommitByCommitID B s m cid)
   \<and> run (P_CreateModule B owner name desc) s = Reg_CreateModule B s owner name desc
   \<and> run (P_GetOrCreateModule B owner name) s = Reg_GetOrCreateModule B s owner name
   \<and> run (P_DeleteModule B owner name) s = Reg_DeleteModule B s owner name"
  by simp

text \<open>
  Whatever requests run concurrently and however their calls to the stores interleave, at every moment
  the registry is consistent: the bucket is content-addressed, manifests parse and have their blobs,
  commits have their manifests, and labels point to commits of their own module.
\<close>

theorem concurrent_registry_ok:
  assumes "backend_laws B view" and "emptyStore (view s0)" and "inj_on (shake256 B) C"
    and "par_reach (registry_request B C) (s0, []) (s, ps)"
  shows "regOK (shake256 B) (view s)"
  by (rule concurrent_registry.requests_regOK [OF concurrent [OF assms(1,3)] assms(4,2)])

theorem concurrent_registry_ok_witness:
  "\<exists>s c. par_reach (registry_request memBackend exampleTexts) (memEmpty, []) (s, [Ret (Uploaded (Inr c))])
     \<and> regOK memShake (memView s)"
proof -
  obtain s c where r: "par_reach (registry_request memBackend exampleTexts) (memEmpty, [exampleRequest])
      (s, [Ret (Uploaded (Inr c))])" using exampleRequest_reach by blast
  note reach = par_reach_trans [OF r arrive_first [OF exampleRequest_request]]
  from concurrent_registry_ok [OF mem.backend_laws_axioms memEmpty_empty memc.inj this] reach
  show ?thesis by auto
qed

text \<open>
  An upload that succeeds is served from then on: when \<open>CreateCommit\<close> has returned a commit, then at every later
  moment, whatever other requests did and do, a download of the commit's ID gives exactly the
  uploaded files, sorted by path, each with the digest of its content.
\<close>

theorem concurrent_upload_served:
  assumes "backend_laws B view" and "emptyStore (view s0)" and "inj_on (shake256 B) C"
    and "par_reach (registry_request B C) (s0, []) (s, ps)"
    and "CHR ''/'' \<notin> set (Module_ID m)" and "\<forall>f \<in> set files. wfPath (f_Path f) \<and> f_Content f \<in> C"
    and "SerializeManifest (manifestOf (shake256 B) files) \<in> C"
    and "par_reach (registry_request B C)
      (s, ps @ [fmap Uploaded (P_CreateCommit B m files labels url deps dds)]) (s', ps')"
    and "ps' ! length ps = Ret (Uploaded (Inr c))"
  shows "FilesAndCommitByCommitID B s' m (c_ID c) = Inr (map (stamped (shake256 B)) (sort_key f_Path files), c)"
  by (rule concurrent_registry.upload_served [OF concurrent [OF assms(1,3)] assms(4,2,5-9)])

theorem concurrent_upload_served_witness:
  "\<exists>s c. par_reach (registry_request memBackend exampleTexts) (memEmpty, [exampleRequest]) (s, [Ret (Uploaded (Inr c))])
     \<and> FilesAndCommitByCommitID memBackend s exampleModule (c_ID c) =
         Inr (map (stamped memShake) (sort_key f_Path exampleFiles), c)"
proof -
  obtain s c where r: "par_reach (registry_request memBackend exampleTexts) (memEmpty, [exampleRequest])
      (s, [Ret (Uploaded (Inr c))])" using exampleRequest_reach by blast
  from concurrent_upload_served [OF mem.backend_laws_axioms memEmpty_empty memc.inj par_reach.start
      exampleRequest_args, of "[''main'']" "[]" "[]" "[]" s] r
  show ?thesis by (force simp: exampleRequest_def)
qed

text \<open>
  A download is never torn: whatever happens between its calls to the stores, what it returns is the files
  of a single commit of the module, the same that a download of that commit's ID gives at any later
  moment; and it can only fail if the label did not exist when it began.
\<close>

theorem concurrent_download_consistent:
  assumes "backend_laws B view" and "emptyStore (view s0)" and "inj_on (shake256 B) C"
    and "par_reach (registry_request B C) (s0, []) (s, ps)"
    and "par_reach (registry_request B C) (s, ps @ [fmap Downloaded (P_FilesAndCommit B m ref)]) (s', ps')"
    and "ps' ! length ps = Ret (Downloaded r)"
  shows "(case r of
      Inr (files, c) \<Rightarrow> FilesAndCommitByCommitID B s' m (c_ID c) = Inr (files, c)
    | Inl e \<Rightarrow> \<not> hasLabel m ref (view s))"
  by (rule concurrent_registry.download_consistent [OF concurrent [OF assms(1,3)] assms(4,2,5,6)])

theorem concurrent_download_consistent_witness:
  "\<exists>s ps files c. par_reach (registry_request memBackend exampleTexts) (memEmpty, []) (s, ps)
     \<and> FilesAndCommit memBackend s exampleModule ''main'' = Inr (files, c)
     \<and> FilesAndCommitByCommitID memBackend s exampleModule (c_ID c) = Inr (files, c)"
proof -
  obtain s c where up: "par_reach (registry_request memBackend exampleTexts) (memEmpty, [exampleRequest])
      (s, [Ret (Uploaded (Inr c))])"
    "Mod_CreateCommit memBackend memEmpty exampleModule exampleFiles [''main''] [] [] [] = (s, Inr c)"
    using exampleRequest_reach by blast
  note reach = par_reach_trans [OF up(1) arrive_first [OF exampleRequest_request]]
  let ?down = "fmap Downloaded (P_FilesAndCommit memBackend exampleModule ''main'')"
  let ?ps = "[Ret (Uploaded (Inr c)), ?down]"
  have l: "hasLabel exampleModule ''main'' (memView s)"
    using mem.CreateCommit_ok [OF up(2) regOK_empty [OF memEmpty_empty] exampleFiles_wf]
    by (auto simp: hasLabel_def pointLabels_def)
  obtain r where r: "FilesAndCommit memBackend s exampleModule ''main'' = r" by blast
  have "par_reach (registry_request memBackend exampleTexts) (s, ?ps) (s, ?ps[1 := Ret (Downloaded r)])"
    by (rule run_reach) (simp_all add: r)
  from concurrent_download_consistent [OF mem.backend_laws_axioms memEmpty_empty memc.inj reach, of exampleModule "''main''" s] this
  have "case r of Inr (files, c) \<Rightarrow> FilesAndCommitByCommitID memBackend s exampleModule (c_ID c) = Inr (files, c)
    | Inl e \<Rightarrow> \<not> hasLabel exampleModule ''main'' (memView s)" by force
  then show ?thesis using r l reach by (auto split: sum.splits)
qed

text \<open>
  C15. Deduplication does not survive concurrency: two identical uploads to one module of an empty registry can
  both look for an identical commit before either has created one; both succeed, and the module then
  has two commits with the same files.
\<close>

theorem concurrent_duplicates:
  "\<exists>s c1 c2 d1 d2. par_reach (\<lambda>_. False) (memEmpty, [exampleRequest, exampleRequest])
      (s, [Ret (Uploaded (Inr c1)), Ret (Uploaded (Inr c2))])
    \<and> c_ID c1 \<noteq> c_ID c2 \<and> c_FilesDigest c1 = c_FilesDigest c2 \<and> c_ModuleID c1 = c_ModuleID c2
    \<and> vCommits (memView s) = [c_ID c1 \<mapsto> d1, c_ID c2 \<mapsto> d2]"
proof -
  let ?ps = "[exampleRequest, exampleRequest]"
  have e: "vCommits (memView memEmpty) = Map.empty" using memEmpty_empty by (simp add: emptyStore_def)
  obtain s1 md where 1: "par_reach (\<lambda>_. False) (memEmpty, ?ps) (s1, [exampleNew md, exampleRequest])"
    "memView s1 = uploaded memShake exampleFiles (memView memEmpty)" "regOK memShake (memView s1)"
    "ComputeB5Digest memShake (manifestOf memShake exampleFiles) [] = Inr md"
    using upload_lookup [where arrives = "\<lambda>_. False", OF e regOK_empty [OF memEmpty_empty], of 0 ?ps] by auto
  have e1: "vCommits (memView s1) = Map.empty" using 1(2) e by simp
  obtain s2 where 2: "par_reach (\<lambda>_. False) (s1, [exampleNew md, exampleRequest]) (s2, [exampleNew md, exampleNew md])"
    "memView s2 = uploaded memShake exampleFiles (memView s1)" "regOK memShake (memView s2)"
    using upload_lookup [where arrives = "\<lambda>_. False", OF e1 1(3), of 1 "[exampleNew md, exampleRequest]"] 1(4) by auto
  have mf: "vBlobs (memView s2) (manifestPath (filesDigestOf memShake exampleFiles)) \<noteq> None"
    unfolding 2(2) by (rule uploaded_manifest)
  obtain s3 c1 d1 where 3: "par_reach (\<lambda>_. False) (s2, [exampleNew md, exampleNew md])
      (s3, [Ret (Uploaded (Inr c1)), exampleNew md])" "regOK memShake (memView s3)"
    "vBlobs (memView s3) = vBlobs (memView s2)" "vCommits (memView s3) = (vCommits (memView s2))(c_ID c1 \<mapsto> d1)"
    "c_FilesDigest c1 = filesDigestOf memShake exampleFiles" "c_ModuleID c1 = Module_ID exampleModule"
    using upload_creates [where arrives = "\<lambda>_. False", OF 2(3) _ _ 1(4) mf, of 0 "[exampleNew md, exampleNew md]"] by auto
  obtain s4 c2 d2 where 4: "par_reach (\<lambda>_. False) (s3, [Ret (Uploaded (Inr c1)), exampleNew md])
      (s4, [Ret (Uploaded (Inr c1)), Ret (Uploaded (Inr c2))])" "vCommits (memView s3) (c_ID c2) = None"
    "vCommits (memView s4) = (vCommits (memView s3))(c_ID c2 \<mapsto> d2)"
    "c_FilesDigest c2 = filesDigestOf memShake exampleFiles" "c_ModuleID c2 = Module_ID exampleModule"
    using upload_creates [where arrives = "\<lambda>_. False", OF 3(2) _ _ 1(4), of 1 "[Ret (Uploaded (Inr c1)), exampleNew md]"] mf 3(3) by auto
  have c: "vCommits (memView s4) = [c_ID c1 \<mapsto> d1, c_ID c2 \<mapsto> d2]" using 4(3) 3(4) 2(2) e1 by simp
  have n: "c_ID c1 \<noteq> c_ID c2" using 4(2) 3(4) by auto
  from par_reach_trans [OF 4(1) par_reach_trans [OF 3(1) par_reach_trans [OF 2(1) 1(1)]]]
  have "par_reach (\<lambda>_. False) (memEmpty, ?ps) (s4, [Ret (Uploaded (Inr c1)), Ret (Uploaded (Inr c2))])" .
  with c n 3(5,6) 4(4,5) show ?thesis by metis
qed

end
