(* ===== verification/Concurrent_Service.thy ===== *)
theory Concurrent_Service
  imports Concurrent_Registry Module_Service
begin

text \<open>
  The handlers of the API run concurrently: \<open>Upload\<close> (\<open>service/upload.go\<close>), \<open>CreateModules\<close> and
  \<open>DeleteModules\<close> (\<open>service/module.go\<close>) and both versions of \<open>Download\<close> (\<open>service/download.go\<close>,
  \<open>download_v1.go\<close>) as programs whose steps are single calls to the stores, each equal to its handler when it
  runs alone.  The theorems are about any number of these requests, and of any others that only read,
  in any interleaving.
\<close>

section \<open>Programs that only read\<close>

inductive reads :: "('s, 'a) prog \<Rightarrow> bool" where
  Ret: "reads (Ret a)"
| Act: "(\<And>s. \<exists>p. f s = (s, p) \<and> reads p) \<Longrightarrow> reads (Act f)"

lemma reads_bind: "reads p \<Longrightarrow> (\<And>a. reads (g a)) \<Longrightarrow> reads (bind p g)"
proof (induction rule: reads.induct)
  case (Act f)
  show ?case unfolding bind_Act
  proof (rule reads.Act)
    fix s
    from Act.IH [of s] obtain p where "f s = (s, p)" "reads (bind p g)" using Act.prems by blast
    then show "\<exists>q. (case f s of (s', p) \<Rightarrow> (s', bind p g)) = (s, q) \<and> reads q" by simp
  qed
qed simp

lemma reads_rd: "reads (rd g)"
  unfolding rd_def by (rule reads.Act) (auto intro: reads.Ret)

lemma reads_fmap: "reads p \<Longrightarrow> reads (fmap h p)"
  unfolding fmap_def by (erule reads_bind) (rule reads.Ret)

lemma run_reads: "reads p \<Longrightarrow> run p s = (s', a) \<Longrightarrow> s' = s"
proof (induction arbitrary: s rule: reads.induct)
  case (Act f)
  obtain p where p: "f s = (s, p)" "run p s = (s', a) \<Longrightarrow> s' = s" using Act.IH [of s] by blast
  then show ?case using Act.prems by (simp add: run_Act)
qed simp

context concurrent_registry
begin

lemma safe_reads: "reads p \<Longrightarrow> rg.safe (\<lambda>N' _ _. N' = N) N v p"
proof (induction arbitrary: v rule: reads.induct)
  case (Act f)
  show ?case
  proof (rule rg.safe.Act)
    fix s
    assume "rg.rely N v (view s)" "regInv (shake256 B) C (view s)"
    moreover obtain p where "f s = (s, p)" "rg.safe (\<lambda>N' _ _. N' = N) N (view s) p"
      using Act.IH [of s] by blast
    ultimately show "\<exists>N'. rg.guar N (view s) (view (fst (f s))) N' \<and> regInv (shake256 B) C (view (fst (f s)))
        \<and> rg.safe (\<lambda>N' _ _. N' = N) N' (view (fst (f s))) (snd (f s))"
      using rg.guar_refl by fastforce
  qed
qed (rule rg.safe.Ret, simp)

end

text \<open>Going through a list until the first error.\<close>

fun P_mapRes :: "('a \<Rightarrow> ('s, 'b res) prog) \<Rightarrow> 'a list \<Rightarrow> ('s, 'b list res) prog" where
  "P_mapRes f [] = Ret (Inr [])"
| "P_mapRes f (x # xs) =
     bind (f x) (\<lambda>r.
       case r of
         Inl e \<Rightarrow> Ret (Inl e)
       | Inr y \<Rightarrow> fmap (\<lambda>r. case r of Inl e \<Rightarrow> Inl e | Inr ys \<Rightarrow> Inr (y # ys)) (P_mapRes f xs))"

lemma run_P_mapRes: "(\<And>x. run (f x) s = (s, g x)) \<Longrightarrow> run (P_mapRes f xs) s = (s, mapRes g xs)"
  by (induction xs) (simp_all split: sum.splits)

lemma reads_P_mapRes: "(\<And>x. reads (f x)) \<Longrightarrow> reads (P_mapRes f xs)"
  by (induction xs) (auto intro!: reads_bind reads_fmap reads.Ret split: sum.split)

section \<open>Downloads\<close>

definition P_ModuleByCommitID :: "'s backend \<Rightarrow> string \<Rightarrow> ('s, Module res) prog" where
  "P_ModuleByCommitID B commitID =
     bind (rd (\<lambda>s. Meta_GetCommit B s commitID)) (\<lambda>r.
       case r of
         Inl err \<Rightarrow> Ret (Inl err)
       | Inr commit \<Rightarrow> rd (\<lambda>s. Reg_ModuleByID B s (commit_ModuleID commit)))"

definition P_downloadByCommitID :: "'s backend \<Rightarrow> string \<Rightarrow> ('s, downloadContent res) prog" where
  "P_downloadByCommitID B commitId =
     bind (P_ModuleByCommitID B commitId) (\<lambda>r.
       case r of
         Inl _ \<Rightarrow> Ret (Inl (notFoundErr (''commit not found: '' @ commitId)))
       | Inr m \<Rightarrow> fmap (\<lambda>r.
           case r of
             Inl err \<Rightarrow> Inl (ConnectErr CodeInternal (Some err))
           | Inr (files, commit) \<Rightarrow>
               (case commitObject commit of
                  Inl err \<Rightarrow> Inl (ConnectErr CodeInternal (Some err))
                | Inr commitObj \<Rightarrow> Inr (buildDownloadContent commitObj files)))
           (P_FilesAndCommitByCommitID B m commitId))"

definition P_downloadValue :: "'s backend \<Rightarrow> resourceRef option \<Rightarrow> ('s, downloadContent res) prog" where
  "P_downloadValue B ref =
     (case ref of
        None \<Rightarrow> Ret (Inl Panic)
      | Some (RR_Id i) \<Rightarrow> P_downloadByCommitID B i
      | Some (RR_Name _) \<Rightarrow>
          Ret (Inl (ConnectErr CodeInvalidArgument (Some (Errorf ''ResourceRef_Name_ not supported''))))
      | Some RR_None \<Rightarrow> P_downloadByCommitID B [])"

definition P_Download :: "'s backend \<Rightarrow> Service \<Rightarrow> resourceRef option list \<Rightarrow> ('s, downloadContent list res) prog" where
  "P_Download B svc refs =
     (if \<not> sv_casReg svc then Ret (Inl errNoCAS) else P_mapRes (P_downloadValue B) refs)"

definition P_downloadByCommitIDV1 ::
  "'s backend \<Rightarrow> string \<Rightarrow> fileType list \<Rightarrow> string list \<Rightarrow> bool \<Rightarrow> ('s, downloadContentV1 res) prog" where
  "P_downloadByCommitIDV1 B commitId fileTypes paths pathsAllowNotExist =
     bind (P_ModuleByCommitID B commitId) (\<lambda>r.
       case r of
         Inl _ \<Rightarrow> Ret (Inl (notFoundErr (''commit not found: '' @ commitId)))
       | Inr m \<Rightarrow> fmap (\<lambda>r.
           case r of
             Inl err \<Rightarrow> Inl (ConnectErr CodeInternal (Some err))
           | Inr (files, commit) \<Rightarrow>
               Inr (buildDownloadContentV1 (getCommitObjectV1 commit) files fileTypes paths pathsAllowNotExist))
           (P_FilesAndCommitByCommitID B m commitId))"

definition P_resolveChild :: "'s backend \<Rightarrow> Module \<Rightarrow> nameChild \<Rightarrow> ('s, Commit res) prog" where
  "P_resolveChild B m child =
     (case child of
        LabelName l \<Rightarrow>
          fmap (\<lambda>r. case r of Inl _ \<Rightarrow> Inl (notFoundErr (''label not found: '' @ l)) | Inr c \<Rightarrow> Inr c)
            (P_Commit B m l)
      | ChildRef ref \<Rightarrow>
          bind (rd (\<lambda>s. Mod_CommitByID B s m ref)) (\<lambda>r.
            case r of
              Inr c \<Rightarrow> Ret (Inr c)
            | Inl _ \<Rightarrow>
                fmap (\<lambda>r. case r of Inl _ \<Rightarrow> Inl (notFoundErr (''ref not found: '' @ ref)) | Inr c \<Rightarrow> Inr c)
                  (P_Commit B m ref))
      | NoChild \<Rightarrow>
          fmap (\<lambda>r. case r of Inl _ \<Rightarrow> Inl (notFoundErr ''default label 'main' not found'') | Inr c \<Rightarrow> Inr c)
            (P_Commit B m ''main''))"

definition P_resolveCommitIdV1 :: "'s backend \<Rightarrow> resourceRef option \<Rightarrow> ('s, string res) prog" where
  "P_resolveCommitIdV1 B ref =
     (case ref of
        None \<Rightarrow> Ret (Inl (invalidArg ''resource_ref is required''))
      | Some (RR_Id i) \<Rightarrow> Ret (Inr i)
      | Some (RR_Name None) \<Rightarrow> Ret (Inl (invalidArg ''name is required''))
      | Some (RR_Name (Some n)) \<Rightarrow>
          bind (rd (\<lambda>s. Reg_Module B s (rn_Owner n) (rn_Module n))) (\<lambda>r.
            case r of
              Inl _ \<Rightarrow> Ret (Inl (notFoundErr (''module not found: '' @ rn_Owner n @ ''/'' @ rn_Module n)))
            | Inr m \<Rightarrow> fmap (\<lambda>r. case r of Inl err \<Rightarrow> Inl err | Inr cmt \<Rightarrow> Inr (c_ID cmt))
                (P_resolveChild B m (rn_Child n)))
      | Some RR_None \<Rightarrow> Ret (Inl (invalidArg ''unsupported resource_ref type'')))"

definition P_downloadValueV1 :: "'s backend \<Rightarrow> downloadValueV1 \<Rightarrow> ('s, downloadContentV1 res) prog" where
  "P_downloadValueV1 B v =
     bind (P_resolveCommitIdV1 B (dv_ResourceRef v)) (\<lambda>r.
       case r of
         Inl err \<Rightarrow> Ret (Inl err)
       | Inr commitId \<Rightarrow>
           P_downloadByCommitIDV1 B commitId (dv_FileTypes v) (dv_Paths v) (dv_PathsAllowNotExist v))"

definition P_DownloadV1 :: "'s backend \<Rightarrow> Service \<Rightarrow> downloadValueV1 list \<Rightarrow> ('s, downloadContentV1 list res) prog" where
  "P_DownloadV1 B svc vs =
     (if \<not> sv_casReg svc then Ret (Inl errNoCAS) else P_mapRes (P_downloadValueV1 B) vs)"

section \<open>Uploads\<close>

fun P_findInModules :: "'s backend \<Rightarrow> string \<Rightarrow> Module list \<Rightarrow> ('s, string option) prog" where
  "P_findInModules B filePath [] = Ret None"
| "P_findInModules B filePath (m # ms) =
     bind (P_Commit B m ''main'') (\<lambda>r.
       case r of
         Inl _ \<Rightarrow> P_findInModules B filePath ms
       | Inr commit \<Rightarrow>
           bind (P_FilesAndCommitByCommitID B m (c_ID commit)) (\<lambda>r.
             case r of
               Inl _ \<Rightarrow> P_findInModules B filePath ms
             | Inr (files, _) \<Rightarrow>
                 if list_ex (\<lambda>f. f_Path f = filePath) files then Ret (Some (c_ID commit))
                 else P_findInModules B filePath ms))"

fun P_findInOwners :: "'s backend \<Rightarrow> string \<Rightarrow> OwnerRecord list \<Rightarrow> ('s, string) prog" where
  "P_findInOwners B filePath [] = Ret []"
| "P_findInOwners B filePath (owner # owners) =
     bind (rd (\<lambda>s. Reg_ListModules B s (owner_Name owner))) (\<lambda>r.
       case r of
         Inl _ \<Rightarrow> P_findInOwners B filePath owners
       | Inr modules \<Rightarrow>
           bind (P_findInModules B filePath modules) (\<lambda>r.
             case r of
               Some i \<Rightarrow> Ret i
             | None \<Rightarrow> P_findInOwners B filePath owners))"

definition P_findModuleWithFile :: "'s backend \<Rightarrow> string \<Rightarrow> ('s, string) prog" where
  "P_findModuleWithFile B filePath =
     bind (rd (\<lambda>s. Reg_ListOwners B s)) (\<lambda>r.
       case r of
         Inl _ \<Rightarrow> Ret []
       | Inr owners \<Rightarrow> P_findInOwners B filePath owners)"

fun P_detectLoop :: "'s backend \<Rightarrow> string list \<Rightarrow> string set \<Rightarrow> string list \<Rightarrow> ('s, string list) prog" where
  "P_detectLoop B [] seen depCommitIDs = Ret depCommitIDs"
| "P_detectLoop B (imp # imports) seen depCommitIDs =
     bind (P_findModuleWithFile B imp) (\<lambda>commitID.
       if commitID \<noteq> [] \<and> commitID \<notin> seen
       then P_detectLoop B imports (insert commitID seen) (depCommitIDs @ [commitID])
       else P_detectLoop B imports seen depCommitIDs)"

definition P_detectDependenciesFromImports :: "'s backend \<Rightarrow> File list \<Rightarrow> ('s, string list) prog" where
  "P_detectDependenciesFromImports B files =
     (let imports = extractProtoImports files in
      if imports = [] then Ret [] else P_detectLoop B imports {} [])"

definition P_uploadDeps :: "'s backend \<Rightarrow> File list \<Rightarrow> string list \<Rightarrow> ('s, string list) prog" where
  "P_uploadDeps B files depCommitIDs =
     (if depCommitIDs = []
      then fmap (\<lambda>detectedDeps. if detectedDeps \<noteq> [] then detectedDeps else depCommitIDs)
        (P_detectDependenciesFromImports B files)
      else Ret depCommitIDs)"

fun P_depDigestLoop :: "'s backend \<Rightarrow> string list \<Rightarrow> ModuleDigest list \<Rightarrow> ('s, ModuleDigest list res) prog" where
  "P_depDigestLoop B [] digests = Ret (Inr digests)"
| "P_depDigestLoop B (commitID # rest) digests =
     bind (rd (\<lambda>s. Reg_CommitByID B s commitID)) (\<lambda>r.
       case r of
         Inl err \<Rightarrow> Ret (Inl (Wrapf (''failed to get dependency commit '' @ commitID @ '': '') err))
       | Inr commit \<Rightarrow> P_depDigestLoop B rest (digests @ [c_ModuleDigest commit]))"

definition P_resolveModuleRef :: "'s backend \<Rightarrow> Service \<Rightarrow> moduleRef option \<Rightarrow> ('s, (string \<times> string) res) prog" where
  "P_resolveModuleRef B svc ref = rd (\<lambda>s. resolveModuleRef B svc s ref)"

definition P_uploadContent ::
  "'s backend \<Rightarrow> Service \<Rightarrow> uploadContentMsg \<Rightarrow> string list \<Rightarrow> ('s, protoCommit res) prog" where
  "P_uploadContent B svc content depCommitIDs0 =
     bind (P_resolveModuleRef B svc (uc_ModuleRef content)) (\<lambda>r.
       case r of
         Inl err \<Rightarrow> Ret (Inl (Wrapf ''invalid module reference: '' err))
       | Inr (owner, modName) \<Rightarrow>
     bind (P_GetOrCreateModule B owner modName) (\<lambda>r.
       case r of
         Inl err \<Rightarrow> Ret (Inl (Wrapf ''failed to get or create module: '' err))
       | Inr m \<Rightarrow>
     (let files = map uploadFile (uc_Files content); labels = uploadLabels content in
      bind (P_uploadDeps B files depCommitIDs0) (\<lambda>depCommitIDs.
      bind (P_depDigestLoop B depCommitIDs []) (\<lambda>r.
        case r of
          Inl err \<Rightarrow> Ret (Inl (Wrapf ''failed to get dependency digests: '' err))
        | Inr depDigests \<Rightarrow>
            fmap (\<lambda>r. case r of
                Inl err \<Rightarrow> Inl (Wrapf ''failed to create commit: '' err)
              | Inr commit \<Rightarrow> Inr (commitToProto commit))
              (P_CreateCommit B m files labels (uc_SourceControlUrl content) depCommitIDs depDigests))))))"

fun P_uploadLoop ::
  "'s backend \<Rightarrow> Service \<Rightarrow> uploadContentMsg list \<Rightarrow> string list \<Rightarrow> protoCommit list \<Rightarrow> ('s, protoCommit list res) prog" where
  "P_uploadLoop B svc [] deps commits = Ret (Inr commits)"
| "P_uploadLoop B svc (content # rest) deps commits =
     bind (P_uploadContent B svc content deps) (\<lambda>r.
       case r of
         Inl err \<Rightarrow> Ret (Inl (ConnectErr CodeInternal (Some err)))
       | Inr commit \<Rightarrow> P_uploadLoop B svc rest deps (commits @ [commit]))"

definition P_Upload ::
  "'s backend \<Rightarrow> Service \<Rightarrow> uploadContentMsg list \<Rightarrow> string list \<Rightarrow> ('s, protoCommit list res) prog" where
  "P_Upload B svc contents depCommitIds =
     (if \<not> sv_casReg svc then Ret (Inl errNoCAS) else P_uploadLoop B svc contents depCommitIds [])"

section \<open>Module requests\<close>

fun P_createModulesLoop ::
  "'s backend \<Rightarrow> createModuleMsg list \<Rightarrow> protoModule list \<Rightarrow> ('s, protoModule list res) prog" where
  "P_createModulesLoop B [] modules = Ret (Inr modules)"
| "P_createModulesLoop B (v # vs) modules =
     (case cm_OwnerRef v of
        None \<Rightarrow> Ret (Inl Panic)
      | Some (OR_Id _) \<Rightarrow> Ret (Inl (invalidArg ''owner lookup by ID not supported''))
      | Some OR_None \<Rightarrow> Ret (Inl (invalidArg ''invalid owner ref''))
      | Some (OR_Name ownerName) \<Rightarrow>
          bind (P_CreateModule B ownerName (cm_Name v) (cm_Description v)) (\<lambda>r.
            case r of
              Inl err \<Rightarrow> Ret (Inl (ConnectErr CodeInternal (Some err)))
            | Inr m \<Rightarrow> P_createModulesLoop B vs (modules @ [moduleToProto m])))"

definition P_CreateModules :: "'s backend \<Rightarrow> Service \<Rightarrow> createModuleMsg list \<Rightarrow> ('s, protoModule list res) prog" where
  "P_CreateModules B svc vs =
     (if \<not> sv_casReg svc then Ret (Inl errNoCAS) else P_createModulesLoop B vs [])"

fun P_deleteModulesLoop :: "'s backend \<Rightarrow> moduleRef list \<Rightarrow> ('s, goerr option) prog" where
  "P_deleteModulesLoop B [] = Ret None"
| "P_deleteModulesLoop B (ref # refs) =
     bind (rd (\<lambda>s. deleteTarget B s ref)) (\<lambda>r.
       case r of
         Inl err \<Rightarrow> Ret (Some err)
       | Inr (owner, name) \<Rightarrow>
           bind (P_DeleteModule B owner name) (\<lambda>r.
             case r of
               Some err \<Rightarrow> Ret (Some (ConnectErr CodeInternal (Some err)))
             | None \<Rightarrow> P_deleteModulesLoop B refs))"

definition P_DeleteModules :: "'s backend \<Rightarrow> Service \<Rightarrow> moduleRef list \<Rightarrow> ('s, goerr option) prog" where
  "P_DeleteModules B svc refs =
     (if \<not> sv_casReg svc then Ret (Some errNoCAS) else P_deleteModulesLoop B refs)"

section \<open>Alone, a program is its handler\<close>

lemma run_P_ModuleByCommitID [simp]: "run (P_ModuleByCommitID B cid) s = (s, Reg_ModuleByCommitID B s cid)"
  by (simp add: P_ModuleByCommitID_def Reg_ModuleByCommitID_def split: sum.splits)

lemma run_P_downloadValue [simp]: "run (P_downloadValue B ref) s = (s, downloadValue B s ref)"
  by (simp add: P_downloadValue_def downloadValue_def P_downloadByCommitID_def downloadByCommitID_def
      split: sum.splits option.splits resourceRef.splits)

lemma run_P_Download [simp]: "run (P_Download B svc refs) s = (s, Svc_Download B svc s refs)"
  by (simp add: P_Download_def Svc_Download_def run_P_mapRes)

lemma run_P_resolveChild [simp]: "run (P_resolveChild B m child) s = (s, resolveChild B s m child)"
  by (simp add: P_resolveChild_def resolveChild_def split: sum.splits nameChild.splits)

lemma run_P_resolveCommitIdV1 [simp]: "run (P_resolveCommitIdV1 B ref) s = (s, resolveCommitIdV1 B s ref)"
  by (simp add: P_resolveCommitIdV1_def resolveCommitIdV1_def split: sum.splits option.splits resourceRef.splits)

lemma run_P_downloadValueV1 [simp]: "run (P_downloadValueV1 B v) s = (s, downloadValueV1 B s v)"
  by (simp add: P_downloadValueV1_def downloadValueV1_def P_downloadByCommitIDV1_def downloadByCommitIDV1_def
      split: sum.splits)

lemma run_P_DownloadV1 [simp]: "run (P_DownloadV1 B svc vs) s = (s, SvcV1_Download B svc s vs)"
  by (simp add: P_DownloadV1_def SvcV1_Download_def run_P_mapRes)

lemma run_P_findInModules [simp]: "run (P_findInModules B path ms) s = (s, findInModules B s path ms)"
  by (induction ms) (simp_all split: sum.splits)

lemma run_P_findInOwners [simp]: "run (P_findInOwners B path owners) s = (s, findInOwners B s path owners)"
  by (induction owners) (simp_all split: sum.splits option.splits)

lemma run_P_detectLoop [simp]: "run (P_detectLoop B imps seen deps) s = (s, detectLoop B s imps seen deps)"
  by (induction imps arbitrary: seen deps)
    (simp_all add: P_findModuleWithFile_def findModuleWithFile_def Let_def split: sum.splits)

lemma run_P_uploadDeps [simp]: "run (P_uploadDeps B files deps) s = (s, uploadDeps B s files deps)"
  by (simp add: P_uploadDeps_def uploadDeps_def P_detectDependenciesFromImports_def
      detectDependenciesFromImports_def Let_def)

lemma run_P_depDigestLoop [simp]: "run (P_depDigestLoop B cids ds) s = (s, depDigestLoop B s cids ds)"
  by (induction cids arbitrary: ds) (simp_all split: sum.splits)

lemma run_P_uploadContent [simp]: "run (P_uploadContent B svc content deps) s = uploadContent B svc s content deps"
  by (simp add: P_uploadContent_def uploadContent_def P_resolveModuleRef_def Reg_GetDepModuleDigests_def Let_def
      split: sum.splits prod.splits)

lemma run_P_uploadLoop [simp]: "run (P_uploadLoop B svc contents deps cs) s = uploadLoop B svc s contents deps cs"
  by (induction contents arbitrary: s cs) (simp_all split: sum.splits prod.splits)

lemma run_P_Upload [simp]: "run (P_Upload B svc contents deps) s = Svc_Upload B svc s contents deps"
  by (simp add: P_Upload_def Svc_Upload_def)

lemma run_P_createModulesLoop [simp]: "run (P_createModulesLoop B vs ms) s = createModulesLoop B s vs ms"
  by (induction vs arbitrary: s ms) (simp_all split: sum.splits prod.splits option.splits ownerRef.splits)

lemma run_P_CreateModules [simp]: "run (P_CreateModules B svc vs) s = Svc_CreateModules B svc s vs"
  by (simp add: P_CreateModules_def Svc_CreateModules_def)

lemma run_P_deleteModulesLoop [simp]: "run (P_deleteModulesLoop B refs) s = deleteModulesLoop B s refs"
  by (induction refs arbitrary: s) (simp_all split: sum.splits prod.splits option.splits)

lemma run_P_DeleteModules [simp]: "run (P_DeleteModules B svc refs) s = Svc_DeleteModules B svc s refs"
  by (simp add: P_DeleteModules_def Svc_DeleteModules_def)

section \<open>Requests\<close>

datatype 'x api_reply = UploadReply "protoCommit list res" | ModulesReply "protoModule list res"
  | DeleteReply "goerr option" | DownloadReply "downloadContent list res"
  | DownloadReplyV1 "downloadContentV1 list res" | ReadReply 'x

text \<open>An uploaded content whose paths fit the manifest's line format and whose texts are in \<open>C\<close>.\<close>

definition uploadIn :: "(string \<Rightarrow> byte list) \<Rightarrow> string set \<Rightarrow> uploadContentMsg \<Rightarrow> bool" where
  "uploadIn shake C content \<longleftrightarrow>
     (\<forall>f \<in> set (uc_Files content). wfPath (pf_Path f) \<and> pf_Content f \<in> C)
     \<and> SerializeManifest (manifestOf shake (map uploadFile (uc_Files content))) \<in> C"

text \<open>\<open>others\<close> stands for every handler that only reads (the graph services, the listings).\<close>

inductive api_request :: "'s backend \<Rightarrow> Service \<Rightarrow> string set \<Rightarrow> ('s, 'x api_reply) prog \<Rightarrow> bool"
  for B :: "'s backend" and svc :: Service and C :: "string set" where
  upload: "\<forall>content \<in> set contents. uploadIn (shake256 B) C content \<Longrightarrow>
    api_request B svc C (fmap UploadReply (P_Upload B svc contents deps))"
| create_modules: "api_request B svc C (fmap ModulesReply (P_CreateModules B svc vs))"
| delete_modules: "api_request B svc C (fmap DeleteReply (P_DeleteModules B svc refs))"
| download: "api_request B svc C (fmap DownloadReply (P_Download B svc dvs))"
| download_v1: "api_request B svc C (fmap DownloadReplyV1 (P_DownloadV1 B svc dvs1))"
| others: "reads p \<Longrightarrow> api_request B svc C (fmap ReadReply p)"

lemma no_slash_ModuleID: "CHR ''/'' \<notin> set (ModuleID oid name)"
  by (simp add: ModuleID_def no_slash_fakeUUID)

lemmas reads_intros = reads_bind reads_fmap reads_rd reads.Ret reads_P_mapRes

lemma reads_P_readEntries: "reads (P_readEntries B es files)"
  by (induction es arbitrary: files) (auto intro!: reads_intros split: sum.split)

lemma reads_P_Commit: "reads (P_Commit B m ref)"
  by (auto simp: P_Commit_def Let_def intro!: reads_intros split: sum.split)

lemma reads_P_withFiles: "reads p \<Longrightarrow> reads (P_withFiles B p)"
  by (auto simp: P_withFiles_def P_filesForCommit_def intro!: reads_intros reads_P_readEntries split: sum.split)

lemma reads_P_FilesAndCommitByCommitID: "reads (P_FilesAndCommitByCommitID B m cid)"
  unfolding P_FilesAndCommitByCommitID_def by (rule reads_P_withFiles [OF reads_rd])

lemma reads_P_findInModules: "reads (P_findInModules B path ms)"
  by (induction ms)
    (auto intro!: reads_intros reads_P_Commit reads_P_FilesAndCommitByCommitID split: sum.split)

lemma reads_P_findInOwners: "reads (P_findInOwners B path owners)"
  by (induction owners) (auto intro!: reads_intros reads_P_findInModules split: sum.split option.split)

lemma reads_P_detectLoop: "reads (P_detectLoop B imps seen deps)"
  by (induction imps arbitrary: seen deps)
    (auto simp: P_findModuleWithFile_def intro!: reads_intros reads_P_findInOwners split: sum.split)

lemma reads_P_uploadDeps: "reads (P_uploadDeps B files deps)"
  by (auto simp: P_uploadDeps_def P_detectDependenciesFromImports_def Let_def
      intro!: reads_intros reads_P_detectLoop)

lemma reads_P_depDigestLoop: "reads (P_depDigestLoop B cids ds)"
  by (induction cids arbitrary: ds) (auto intro!: reads_intros split: sum.split)

lemma reads_P_ModuleByCommitID: "reads (P_ModuleByCommitID B cid)"
  by (auto simp: P_ModuleByCommitID_def intro!: reads_intros split: sum.split)

lemma reads_P_resolveCommitIdV1: "reads (P_resolveCommitIdV1 B ref)"
  by (auto simp: P_resolveCommitIdV1_def P_resolveChild_def intro!: reads_intros reads_P_Commit
      split: sum.split option.split resourceRef.split nameChild.split)

lemma reads_P_Download: "reads (P_Download B svc refs)"
  by (auto simp: P_Download_def P_downloadValue_def P_downloadByCommitID_def
      intro!: reads_intros reads_P_ModuleByCommitID reads_P_FilesAndCommitByCommitID
      split: sum.split option.split resourceRef.split)

section \<open>What the handlers guarantee\<close>

text \<open>The commit a content was uploaded as holds its files.\<close>

definition contentServed :: "(string \<Rightarrow> byte list) \<Rightarrow> store \<Rightarrow> uploadContentMsg \<Rightarrow> protoCommit \<Rightarrow> bool" where
  "contentServed shake w content p \<longleftrightarrow>
     (\<exists>c. p = commitToProto c \<and> holds w c (map (stamped shake) (sort_key f_Path (map uploadFile (uc_Files content)))))"

lemma contentServed_grows: "contentServed shake v content p \<Longrightarrow> regGrows v w \<Longrightarrow> contentServed shake w content p"
  unfolding contentServed_def using holds_grows by blast

definition uploadsServed :: "(string \<Rightarrow> byte list) \<Rightarrow> Service \<Rightarrow> uploadContentMsg list \<Rightarrow> store \<Rightarrow> protoCommit list res \<Rightarrow> bool" where
  "uploadsServed shake svc contents w r \<longleftrightarrow>
     (\<forall>ps. r = Inr ps \<longrightarrow> sv_casReg svc \<and> list_all2 (contentServed shake w) contents ps)"

text \<open>What a v1 download of one value gives: the filtered files that some commit holds.\<close>

definition valueServed :: "store \<Rightarrow> downloadValueV1 \<Rightarrow> downloadContentV1 \<Rightarrow> bool" where
  "valueServed w v x \<longleftrightarrow>
     (\<exists>c files. holds w c files \<and> d1_Commit x = getCommitObjectV1 c
        \<and> d1_Files x = filterFilesV1 files (dv_FileTypes v) (dv_Paths v))"

lemma valueServed_grows: "valueServed v dv x \<Longrightarrow> regGrows v w \<Longrightarrow> valueServed w dv x"
  unfolding valueServed_def using holds_grows by blast

definition downloadsServed :: "Service \<Rightarrow> downloadValueV1 list \<Rightarrow> store \<Rightarrow> downloadContentV1 list res \<Rightarrow> bool" where
  "downloadsServed svc vs w r \<longleftrightarrow> (\<forall>xs. r = Inr xs \<longrightarrow> sv_casReg svc \<and> list_all2 (valueServed w) vs xs)"

context concurrent_registry
begin

lemma safe_after_reads:
  assumes "reads p" "\<And>w a. regGrows v w \<Longrightarrow> rg.safe Q N w (g a)"
  shows "rg.safe Q N v (bind p g)"
  by (rule rg.safe_bind [OF safe_reads [OF assms(1)]]) (use assms(2) in blast)

lemma safe_P_uploadContent:
  assumes up: "uploadIn (shake256 B) C content"
  shows "rg.safe (\<lambda>N' w r. \<forall>p. r = Inr p \<longrightarrow> contentServed (shake256 B) w content p) N v
    (P_uploadContent B svc content deps)" (is "rg.safe ?Q _ _ _")
proof -
  let ?files = "map uploadFile (uc_Files content)"
  have err: "rg.safe ?Q N w (Ret (Inl e))" for N w e by (rule rg.safe.Ret) simp
  have files: "\<forall>f \<in> set ?files. wfPath (f_Path f) \<and> f_Content f \<in> C"
    "SerializeManifest (manifestOf (shake256 B) ?files) \<in> C"
    using up by (auto simp: uploadIn_def uploadFile_def)
  have create: "rg.safe ?Q N w (fmap (\<lambda>r. case r of
        Inl err \<Rightarrow> Inl (Wrapf ''failed to create commit: '' err) | Inr commit \<Rightarrow> Inr (commitToProto commit))
      (P_CreateCommit B m ?files ls url ds dds))" if "CHR ''/'' \<notin> set (Module_ID m)" for N w m ls url ds dds
    by (rule rg.safe_fmap, rule rg.safe_conseq [OF safe_P_CreateCommit [OF that files]])
      (auto simp: uploadDone_def contentServed_def split: sum.splits)
  have rest: "rg.safe ?Q N w (bind (P_uploadDeps B ?files deps) (\<lambda>ds. bind (P_depDigestLoop B ds []) (\<lambda>r.
      case r of Inl err \<Rightarrow> Ret (Inl (Wrapf ''failed to get dependency digests: '' err))
      | Inr dds \<Rightarrow> fmap (\<lambda>r. case r of
            Inl err \<Rightarrow> Inl (Wrapf ''failed to create commit: '' err) | Inr commit \<Rightarrow> Inr (commitToProto commit))
          (P_CreateCommit B m ?files ls url ds dds))))" if "CHR ''/'' \<notin> set (Module_ID m)" for N w m ls url
    using create [OF that] err
    by (intro safe_after_reads [OF reads_P_uploadDeps] safe_after_reads [OF reads_P_depDigestLoop])
      (auto split: sum.split)
  show ?thesis unfolding P_uploadContent_def P_resolveModuleRef_def Let_def
  proof (rule safe_after_reads [OF reads_rd], goal_cases)
    case (1 w r)
    have get: "rg.safe ?Q N w (bind (P_GetOrCreateModule B owner modName) g)"
      if "\<And>N w m. CHR ''/'' \<notin> set (Module_ID m) \<Longrightarrow> rg.safe ?Q N w (g (Inr m))"
        "\<And>N w e. rg.safe ?Q N w (g (Inl e))" for owner modName g
    proof (rule rg.safe_bind [OF safe_P_GetOrCreateModule])
      fix N' u and r :: "Module res"
      assume "moduleNamed owner modName r"
      then show "rg.safe ?Q N' u (g r)"
        using that by (cases r) (auto simp: moduleNamed_def no_slash_ModuleID)
    qed
    show ?case using err by (auto intro!: get rest split: sum.split)
  qed
qed

lemma safe_P_uploadLoop:
  "\<forall>content \<in> set contents. uploadIn (shake256 B) C content \<Longrightarrow>
   rg.safe (\<lambda>N' w r. \<forall>ps. r = Inr ps \<longrightarrow>
      (\<exists>ns. ps = commits @ ns \<and> list_all2 (contentServed (shake256 B) w) contents ns)) N v
    (P_uploadLoop B svc contents deps commits)"
proof (induction contents arbitrary: N v commits)
  case Nil
  show ?case by (auto intro: rg.safe.Ret)
next
  case (Cons content contents)
  have up: "uploadIn (shake256 B) C content" using Cons.prems by simp
  show ?case unfolding P_uploadLoop.simps
  proof (rule rg.safe_bind [OF safe_P_uploadContent [OF up]])
    fix N' w and r :: "protoCommit res"
    assume r: "\<forall>p. r = Inr p \<longrightarrow> contentServed (shake256 B) w content p"
    show "rg.safe (\<lambda>N' w r. \<forall>ps. r = Inr ps \<longrightarrow>
        (\<exists>ns. ps = commits @ ns \<and> list_all2 (contentServed (shake256 B) w) (content # contents) ns)) N' w
      (case r of Inl err \<Rightarrow> Ret (Inl (ConnectErr CodeInternal (Some err)))
       | Inr commit \<Rightarrow> P_uploadLoop B svc contents deps (commits @ [commit]))"
    proof (cases r)
      case (Inr p)
      have "rg.safe (\<lambda>N' u r. \<forall>ps. r = Inr ps \<longrightarrow>
          (\<exists>ns. ps = (commits @ [p]) @ ns \<and> list_all2 (contentServed (shake256 B) u) contents ns)) N' w
        (P_uploadLoop B svc contents deps (commits @ [p]))" by (rule Cons.IH) (use Cons.prems in simp)
      then show ?thesis unfolding Inr sum.case
        by (rule rg.safe_conseq) (use r Inr contentServed_grows in fastforce)
    qed (auto intro: rg.safe.Ret)
  qed
qed

lemma safe_P_Upload:
  assumes "\<forall>content \<in> set contents. uploadIn (shake256 B) C content"
  shows "rg.safe (\<lambda>N' w r. uploadsServed (shake256 B) svc contents w r) N v (P_Upload B svc contents deps)"
proof (cases "sv_casReg svc")
  case True
  then show ?thesis unfolding P_Upload_def
    by (simp, intro rg.safe_conseq [OF safe_P_uploadLoop [OF assms]]) (auto simp: uploadsServed_def)
qed (auto simp: P_Upload_def uploadsServed_def intro: rg.safe.Ret)

lemma safe_P_downloadByCommitIDV1:
  "rg.safe (\<lambda>N' w r. \<forall>x. r = Inr x \<longrightarrow> (\<exists>c files. holds w c files \<and> d1_Commit x = getCommitObjectV1 c
      \<and> d1_Files x = filterFilesV1 files fts paths)) N v (P_downloadByCommitIDV1 B cid fts paths allow)"
  (is "rg.safe ?Q N v _")
  unfolding P_downloadByCommitIDV1_def
proof (rule safe_after_reads [OF reads_P_ModuleByCommitID])
  fix w and r :: "Module res"
  have "rg.safe ?Q N w (fmap (\<lambda>r. case r of
        Inl err \<Rightarrow> Inl (ConnectErr CodeInternal (Some err))
      | Inr (files, commit) \<Rightarrow> Inr (buildDownloadContentV1 (getCommitObjectV1 commit) files fts paths allow))
      (P_FilesAndCommitByCommitID B m cid))" for m
    by (rule rg.safe_fmap, rule rg.safe_conseq [OF safe_P_FilesAndCommitByCommitID [where must = False and m = m]])
      (auto simp: downloadDone_def buildDownloadContentV1_def split: sum.splits)
  then show "rg.safe ?Q N w (case r of
      Inl _ \<Rightarrow> Ret (Inl (notFoundErr (''commit not found: '' @ cid)))
    | Inr m \<Rightarrow> fmap (\<lambda>r. case r of
          Inl err \<Rightarrow> Inl (ConnectErr CodeInternal (Some err))
        | Inr (files, commit) \<Rightarrow> Inr (buildDownloadContentV1 (getCommitObjectV1 commit) files fts paths allow))
        (P_FilesAndCommitByCommitID B m cid))"
    by (auto intro: rg.safe.Ret split: sum.split)
qed

lemma safe_P_downloadValueV1:
  "rg.safe (\<lambda>N' w r. \<forall>x. r = Inr x \<longrightarrow> valueServed w dv x) N v (P_downloadValueV1 B dv)"
  unfolding P_downloadValueV1_def
  by (rule safe_after_reads [OF reads_P_resolveCommitIdV1])
    (auto intro: rg.safe.Ret rg.safe_conseq [OF safe_P_downloadByCommitIDV1] simp: valueServed_def split: sum.split)

lemma safe_P_mapRes:
  assumes f: "\<And>N v x. rg.safe (\<lambda>N' w r. \<forall>y. r = Inr y \<longrightarrow> R w x y) N v (f x)"
    and R: "\<And>v w x y. R v x y \<Longrightarrow> regGrows v w \<Longrightarrow> R w x y"
  shows "rg.safe (\<lambda>N' w r. \<forall>ys. r = Inr ys \<longrightarrow> list_all2 (R w) xs ys) N v (P_mapRes f xs)"
proof (induction xs arbitrary: N v)
  case Nil
  show ?case by (auto intro: rg.safe.Ret)
next
  case (Cons x xs)
  show ?case unfolding P_mapRes.simps
  proof (rule rg.safe_bind [OF f])
    fix N' w and r :: "'b res"
    assume r: "\<forall>y. r = Inr y \<longrightarrow> R w x y"
    show "rg.safe (\<lambda>N' w r. \<forall>ys. r = Inr ys \<longrightarrow> list_all2 (R w) (x # xs) ys) N' w
      (case r of Inl e \<Rightarrow> Ret (Inl e)
       | Inr y \<Rightarrow> fmap (\<lambda>r. case r of Inl e \<Rightarrow> Inl e | Inr ys \<Rightarrow> Inr (y # ys)) (P_mapRes f xs))"
    proof (cases r)
      case (Inr y)
      show ?thesis unfolding Inr sum.case
        by (rule rg.safe_fmap, rule rg.safe_conseq [OF Cons.IH])
          (use r Inr R in \<open>auto split: sum.splits\<close>)
    qed (auto intro: rg.safe.Ret)
  qed
qed

lemma safe_P_DownloadV1: "rg.safe (\<lambda>N' w r. downloadsServed svc vs w r) N v (P_DownloadV1 B svc vs)"
proof (cases "sv_casReg svc")
  case True
  then show ?thesis unfolding P_DownloadV1_def
    by (simp, intro rg.safe_conseq [OF safe_P_mapRes [where R = valueServed, OF safe_P_downloadValueV1 valueServed_grows]])
      (auto simp: downloadsServed_def)
qed (auto simp: P_DownloadV1_def downloadsServed_def intro: rg.safe.Ret)

lemma safe_P_createModulesLoop: "rg.safe (\<lambda>_ _ _. True) N v (P_createModulesLoop B vs ms)"
proof (induction vs arbitrary: N v ms)
  case (Cons x xs)
  then show ?case
    by (auto intro!: rg.safe_bind [OF safe_true [OF safe_P_CreateModule]] intro: rg.safe.Ret
        split: option.split ownerRef.split sum.split)
qed (auto intro: rg.safe.Ret)

lemma safe_P_deleteModulesLoop: "rg.safe (\<lambda>_ _ _. True) N v (P_deleteModulesLoop B refs)"
proof (induction refs arbitrary: N v)
  case (Cons ref refs)
  then show ?case
    by (auto intro!: safe_after_reads [OF reads_rd] rg.safe_bind [OF safe_P_DeleteModule] rg.safe.Ret
        split: sum.split option.split)
qed (auto intro: rg.safe.Ret)

lemma api_request_safe:
  assumes "api_request B svc C p"
  shows "rg.safe (\<lambda>_ _ _. True) {} v p"
  using assms
proof (cases rule: api_request.cases)
  case (upload contents deps)
  show ?thesis unfolding upload(1) by (rule rg.safe_fmap, rule safe_true, rule safe_P_Upload [OF upload(2)])
next
  case (download_v1 dvs)
  show ?thesis unfolding download_v1 by (rule rg.safe_fmap, rule safe_true, rule safe_P_DownloadV1)
next
  case (download dvs)
  show ?thesis unfolding download by (rule rg.safe_fmap, rule safe_true, rule safe_reads, rule reads_P_Download)
next
  case (others q)
  show ?thesis unfolding others(1) by (rule rg.safe_fmap, rule safe_true, rule safe_reads, rule others(2))
qed (auto simp: P_CreateModules_def P_DeleteModules_def
      intro!: rg.safe_fmap safe_P_createModulesLoop safe_P_deleteModulesLoop rg.safe.Ret)

text \<open>A commit that holds files is delivered with them by its ID, unless its module has been deleted.\<close>

lemma held_delivered:
  assumes inv: "regInv (shake256 B) C (view s)" and h: "holds (view s) c files"
  shows "downloadByCommitIDV1 B s (c_ID c) fts paths allow =
    (if vModules (view s) (c_ModuleID c) = None then Inl (notFoundErr (''commit not found: '' @ c_ID c))
     else Inr \<lparr>d1_Commit = getCommitObjectV1 c, d1_Files = filterFilesV1 files fts paths\<rparr>)"
proof -
  from h obtain d rcd where d: "vCommits (view s) (c_ID c) = Some d" "commitDocToRecord d = Inr rcd" "toCommit rcd = c"
    unfolding holds_def by blast
  then have mid: "commit_ModuleID rcd = c_ModuleID c" by (auto simp: toCommit_def)
  show ?thesis
  proof (cases "vModules (view s) (c_ModuleID c)")
    case None
    then show ?thesis using d mid
      by (simp add: downloadByCommitIDV1_def Reg_ModuleByCommitID_def Meta_GetCommit_view Reg_ModuleByID_def Meta_GetModule_view)
  next
    case (Some md)
    let ?m = "\<lparr>mod_record = moduleDocToRecord md\<rparr>"
    have "Module_ID ?m = c_ModuleID c" using mo.keyed [OF Some] by (simp add: Module_ID_def moduleDocToRecord_def)
    then have "FilesAndCommitByCommitID B s ?m (c_ID c) = Inr (files, c)" by (intro held_download [OF h]) simp
    moreover have "Reg_ModuleByCommitID B s (c_ID c) = Inr ?m"
      using d mid Some by (simp add: Reg_ModuleByCommitID_def Meta_GetCommit_view Reg_ModuleByID_def Meta_GetModule_view)
    ultimately show ?thesis using Some by (simp add: downloadByCommitIDV1_def buildDownloadContentV1_def)
  qed
qed

lemma stable_uploadsServed: "rg.stable (\<lambda>N w r. uploadsServed (shake256 B) svc contents w r)"
  unfolding rg.stable_def uploadsServed_def using list_all2_mono contentServed_grows rely_grows
  by (smt (verit, best))

lemma stable_downloadsServed: "rg.stable (\<lambda>N w r. downloadsServed svc vs w r)"
  unfolding rg.stable_def downloadsServed_def using list_all2_mono valueServed_grows rely_grows
  by (smt (verit, best))

end

section \<open>Delivery\<close>

text \<open>The v1 download of a commit by its ID, with the filters of \<open>v\<close>, and its expected answer.\<close>

definition byCommit :: "downloadValueV1 \<Rightarrow> protoCommit \<Rightarrow> downloadValueV1" where
  "byCommit v p = v\<lparr>dv_ResourceRef := Some (RR_Id (pc_Id p))\<rparr>"

definition everything :: downloadValueV1 where
  "everything = \<lparr>dv_ResourceRef = None, dv_FileTypes = [], dv_Paths = [], dv_PathsAllowNotExist = False\<rparr>"

definition delivered :: "store \<Rightarrow> protoCommit \<Rightarrow> protoFile list \<Rightarrow> downloadContentV1 list res" where
  "delivered st p files =
     (if vModules st (pc_ModuleId p) = None then Inl (notFoundErr (''commit not found: '' @ pc_Id p))
      else Inr [\<lparr>d1_Commit = p, d1_Files = files\<rparr>])"

context concurrent_registry
begin

lemma held_SvcV1_Download:
  assumes "regInv (shake256 B) C (view s)" "holds (view s) c files" "sv_casReg svc"
  shows "SvcV1_Download B svc s [byCommit v (getCommitObjectV1 c)] =
    delivered (view s) (getCommitObjectV1 c) (filterFilesV1 files (dv_FileTypes v) (dv_Paths v))"
  using held_delivered [OF assms(1,2), of "dv_FileTypes v" "dv_Paths v" "dv_PathsAllowNotExist v"] assms(3)
  by (simp add: SvcV1_Download_def downloadValueV1_def resolveCommitIdV1_def byCommit_def delivered_def
      getCommitObjectV1_def)

lemma api_regOK:
  assumes "par_reach (api_request B svc C) (s0, []) (s, ps)" "emptyStore (view s0)"
  shows "regOK (shake256 B) (view s)"
proof -
  have "regInv (shake256 B) C (view s)" by (rule arrivals_regInv [OF assms]) (rule api_request_safe)
  then show ?thesis by (simp add: regInv_def)
qed

lemma uploads_delivered:
  assumes reach: "par_reach (api_request B svc C) (s0, []) (s, ps)" "emptyStore (view s0)"
    and up: "\<forall>content \<in> set contents. uploadIn (shake256 B) C content"
    and run: "par_reach (api_request B svc C) (s, ps @ [fmap UploadReply (P_Upload B svc contents deps)]) (s', ps' :: ('s, 'x api_reply) prog list)"
    and r: "ps' ! length ps = Ret (UploadReply (Inr commits))"
  shows "list_all2 (\<lambda>content p. SvcV1_Download B svc s' [byCommit everything p] =
    delivered (view s') p (sort_key pf_Path (uc_Files content))) contents commits"
proof -
  let ?Q = "\<lambda>(N :: string set) w (out :: 'x api_reply). \<forall>r. out = UploadReply r \<longrightarrow> uploadsServed (shake256 B) svc contents w r"
  have safe: "rg.safe ?Q {} (view s) (fmap UploadReply (P_Upload B svc contents deps))"
    by (rule rg.safe_fmap, rule rg.safe_conseq [OF safe_P_Upload [OF up]]) simp
  have stable: "rg.stable ?Q" using stable_uploadsServed unfolding rg.stable_def by blast
  have res: "regInv (shake256 B) C (view s') \<and> (\<exists>N. ?Q N (view s') (UploadReply (Inr commits)))"
    by (rule arrival_result [OF reach _ safe stable run r]) (rule api_request_safe)
  then have inv: "regInv (shake256 B) C (view s')" by blast
  from res have cas: "sv_casReg svc" and all: "list_all2 (contentServed (shake256 B) (view s')) contents commits"
    by (auto simp: uploadsServed_def)
  have one: "SvcV1_Download B svc s' [byCommit everything p] = delivered (view s') p (sort_key pf_Path (uc_Files content))"
    if served: "contentServed (shake256 B) (view s') content p" for content p
  proof -
    from served obtain c where p: "p = getCommitObjectV1 c" and
      h: "holds (view s') c (map (stamped (shake256 B)) (sort_key f_Path (map uploadFile (uc_Files content))))"
      by (auto simp: contentServed_def commitToProto_def getCommitObjectV1_def)
    show ?thesis unfolding p held_SvcV1_Download [OF inv h cas]
      by (simp add: everything_def filterFilesV1_eq sort_uploadFile del: map_map)
  qed
  show ?thesis using all by (rule list_all2_mono) (rule one)
qed

lemma downloads_delivered:
  assumes reach: "par_reach (api_request B svc C) (s0, []) (s, ps)" "emptyStore (view s0)"
    and run: "par_reach (api_request B svc C) (s, ps @ [fmap DownloadReplyV1 (P_DownloadV1 B svc vs)]) (s', ps' :: ('s, 'x api_reply) prog list)"
    and r: "ps' ! length ps = Ret (DownloadReplyV1 (Inr xs))"
  shows "list_all2 (\<lambda>v x. SvcV1_Download B svc s' [byCommit v (d1_Commit x)] =
    delivered (view s') (d1_Commit x) (d1_Files x)) vs xs"
proof -
  let ?Q = "\<lambda>(N :: string set) w (out :: 'x api_reply). \<forall>r. out = DownloadReplyV1 r \<longrightarrow> downloadsServed svc vs w r"
  have safe: "rg.safe ?Q {} (view s) (fmap DownloadReplyV1 (P_DownloadV1 B svc vs))"
    by (rule rg.safe_fmap, rule rg.safe_conseq [OF safe_P_DownloadV1]) simp
  have stable: "rg.stable ?Q" using stable_downloadsServed unfolding rg.stable_def by blast
  have res: "regInv (shake256 B) C (view s') \<and> (\<exists>N. ?Q N (view s') (DownloadReplyV1 (Inr xs)))"
    by (rule arrival_result [OF reach _ safe stable run r]) (rule api_request_safe)
  then have inv: "regInv (shake256 B) C (view s')" by blast
  from res have "sv_casReg svc" "list_all2 (valueServed (view s')) vs xs" by (auto simp: downloadsServed_def)
  then show ?thesis using held_SvcV1_Download [OF inv] by (auto simp: valueServed_def elim!: list_all2_mono)
qed

end

section \<open>Examples\<close>

definition exampleService :: Service where
  "exampleService = \<lparr>sv_casReg = True, sv_Host = ''h''\<rparr>"

lemma exampleUpload_in: "\<forall>content \<in> set [exampleUpload]. uploadIn (shake256 memBackend) exampleTexts content"
  using exampleRequest_args(2,3) unfolding uploadIn_def
  by (simp add: exampleUpload_files) (simp add: exampleUpload_def exampleFiles_def)

definition uploadExample :: "(mem, 'x api_reply) prog" where
  "uploadExample = fmap UploadReply (P_Upload memBackend exampleService [exampleUpload] [])"

lemma uploadExample_request: "api_request memBackend exampleService exampleTexts uploadExample"
  unfolding uploadExample_def by (rule api_request.upload [OF exampleUpload_in])

lemma uploadExample_runs:
  "\<exists>s c. Svc_Upload memBackend exampleService memEmpty [exampleUpload] [] = (s, Inr [c])
     \<and> par_reach (api_request memBackend exampleService exampleTexts) (memEmpty, [uploadExample])
         (s, [Ret (UploadReply (Inr [c]) :: 'x api_reply)])"
proof -
  obtain s c where run: "Svc_Upload memBackend exampleService memEmpty [exampleUpload] [] = (s, Inr [c])"
    using exampleUpload_runs unfolding exampleService_def by blast
  have "par_reach (api_request memBackend exampleService exampleTexts) (memEmpty, [uploadExample])
      (s, [uploadExample][0 := Ret (UploadReply (Inr [c]) :: 'x api_reply)])"
    by (rule run_reach) (simp_all add: uploadExample_def run)
  then show ?thesis using run by auto
qed

text \<open>The download of what the module's label \<open>main\<close> names.\<close>

definition mainOfPets :: downloadValueV1 where
  "mainOfPets = \<lparr>dv_ResourceRef = Some (RR_Name (Some
     \<lparr>rn_Owner = ''acme'', rn_Module = ''pets'', rn_Child = LabelName ''main''\<rparr>)), dv_FileTypes = [], dv_Paths = [],
     dv_PathsAllowNotExist = False\<rparr>"

lemma mainOfPets_main:
  assumes "Svc_Upload memBackend exampleService memEmpty [exampleUpload] [] = (s, Inr [p])"
  shows "(\<exists>x. SvcV1_Download memBackend exampleService s [mainOfPets] = Inr [x])
    \<and> vModules (memView s) (pc_ModuleId p) \<noteq> None"
proof -
  have up: "uploadContent memBackend exampleService memEmpty exampleUpload [] = (s, Inr p)"
    using assms by (auto simp: Svc_Upload_def exampleService_def split: prod.splits sum.splits)
  have wf: "\<forall>f \<in> set (uc_Files exampleUpload). wfPath (pf_Path f)" using exampleFiles_wf
    by (simp add: exampleUpload_def exampleFiles_def)
  have cf: "collisionFree (shake256 memBackend) (map uploadFile (uc_Files exampleUpload)) (memView memEmpty)"
    using exampleFiles_collisionFree by (simp add: exampleUpload_files)
  have ref: "uc_ModuleRef exampleUpload = Some (MR_Name (Some (''acme'', ''pets'')))"
    and l: "''main'' \<in> set (uploadLabels exampleUpload)" by (simp_all add: exampleUpload_def uploadLabels_def)
  from mem.uploadContent_serves [OF regOK_empty [OF memEmpty_empty] wf cf ref up] l
  obtain m c where m: "p = commitToProto c" "Reg_Module memBackend s ''acme'' ''pets'' = Inr m" "Mod_Commit memBackend s m ''main'' = Inr c"
    "Reg_ModuleByCommitID memBackend s (c_ID c) = Inr m"
    "\<exists>files. FilesAndCommitByCommitID memBackend s m (c_ID c) = Inr (files, c)" by blast
  from m(4,5) have "vModules (memView s) (c_ModuleID c) \<noteq> None"
    by (auto simp: Reg_ModuleByCommitID_def Reg_ModuleByID_def mem.Meta_GetModule_view FilesAndCommitByCommitID_def
        Mod_CommitByID_def toCommit_def split: sum.splits option.splits if_splits)
  then show ?thesis using m
    by (auto simp: commitToProto_def SvcV1_Download_def downloadValueV1_def resolveCommitIdV1_def resolveChild_def mainOfPets_def
        downloadByCommitIDV1_def exampleService_def)
qed

lemma api_arrive_first: "api_request B svc C p \<Longrightarrow> par_reach (api_request B svc C) (s, []) (s, [p])"
  using par_reach.step [OF par_reach.start, of "api_request B svc C" "(s, [])" "(s, [p])"]
    par_step.arrival [of "api_request B svc C" p s "[]"] by simp

section \<open>Properties\<close>

text \<open>
  The programs are the handlers: run without interference, each has the final state and the result of
  the sequential definition of its handler, so that the interleavings below are interleavings of the calls these
  handlers make.
\<close>

lemma programs_are_handlers:
  "run (P_Upload B svc contents deps) s = Svc_Upload B svc s contents deps
   \<and> run (P_CreateModules B svc vs) s = Svc_CreateModules B svc s vs
   \<and> run (P_DeleteModules B svc refs) s = Svc_DeleteModules B svc s refs
   \<and> run (P_Download B svc dvs) s = (s, Svc_Download B svc s dvs)
   \<and> run (P_DownloadV1 B svc dvs1) s = (s, SvcV1_Download B svc s dvs1)"
  by simp

text \<open>
  C6. Whatever requests the server handles at the same time and however their calls to the stores interleave, at
  every moment the registry is consistent: the bucket is content-addressed, manifests parse and have
  their blobs, commits have their manifests, and labels point to commits of their own module.
\<close>

theorem concurrent_api_ok:
  assumes "backend_laws B view" and "emptyStore (view s0)" and "inj_on (shake256 B) C"
    and "par_reach (api_request B svc C) (s0, []) (s, ps)"
  shows "regOK (shake256 B) (view s)"
  by (rule concurrent_registry.api_regOK [OF concurrent [OF assms(1,3)] assms(4,2)])

theorem concurrent_api_ok_witness:
  "\<exists>s c. par_reach (api_request memBackend exampleService exampleTexts) (memEmpty, [])
       (s, [Ret (UploadReply (Inr [c]) :: unit api_reply)])
     \<and> regOK memShake (memView s)"
proof -
  obtain s c where r: "par_reach (api_request memBackend exampleService exampleTexts) (memEmpty, [uploadExample])
      (s, [Ret (UploadReply (Inr [c]) :: unit api_reply)])" using uploadExample_runs by blast
  note reach = par_reach_trans [OF r api_arrive_first [OF uploadExample_request]]
  from concurrent_api_ok [OF mem.backend_laws_axioms memEmpty_empty memc.inj this] reach
  show ?thesis by auto
qed

text \<open>
  C7. What the server has acknowledged it delivers: when an \<open>Upload\<close> has returned its commits, then at every later
  moment, whatever other requests did in between and do at that moment, the v1 download of each of them by ID delivers
  exactly the files of the corresponding content, sorted by path; unless its module has been deleted, in
  which case it answers that the commit is not found.
\<close>

theorem concurrent_upload_delivered:
  assumes "backend_laws B view" and "emptyStore (view s0)" and "inj_on (shake256 B) C"
    and "par_reach (api_request B svc C) (s0, []) (s, ps)"
    and "\<forall>content \<in> set contents. uploadIn (shake256 B) C content"
    and "par_reach (api_request B svc C) (s, ps @ [fmap UploadReply (P_Upload B svc contents deps)]) (s', ps')"
    and "ps' ! length ps = Ret (UploadReply (Inr commits))"
  shows "list_all2 (\<lambda>content p. SvcV1_Download B svc s' [byCommit everything p] =
    delivered (view s') p (sort_key pf_Path (uc_Files content))) contents commits"
  by (rule concurrent_registry.uploads_delivered [OF concurrent [OF assms(1,3)] assms(4,2,5-7)])

theorem concurrent_upload_delivered_witness:
  "\<exists>s c. par_reach (api_request memBackend exampleService exampleTexts) (memEmpty, [uploadExample])
       (s, [Ret (UploadReply (Inr [c]) :: unit api_reply)])
     \<and> SvcV1_Download memBackend exampleService s [byCommit everything c] =
         Inr [\<lparr>d1_Commit = c, d1_Files = sort_key pf_Path (uc_Files exampleUpload)\<rparr>]"
proof -
  obtain s c where run: "Svc_Upload memBackend exampleService memEmpty [exampleUpload] [] = (s, Inr [c])"
    and r: "par_reach (api_request memBackend exampleService exampleTexts) (memEmpty, [uploadExample])
      (s, [Ret (UploadReply (Inr [c]) :: unit api_reply)])" using uploadExample_runs by blast
  from concurrent_upload_delivered [OF mem.backend_laws_axioms memEmpty_empty memc.inj par_reach.start
      exampleUpload_in, of exampleService "[]" s "[Ret (UploadReply (Inr [c]) :: unit api_reply)]" "[c]"]
    r mainOfPets_main [OF run]
  show ?thesis by (auto simp: uploadExample_def delivered_def)
qed

text \<open>
  C8. A download is never torn: what a v1 \<open>Download\<close> that runs concurrently with any requests delivers for a value is
  a commit with exactly the files that the same download of that commit's ID delivers at every later
  moment, never a mixture of two commits (until its module is deleted).
\<close>

theorem concurrent_download_delivered:
  assumes "backend_laws B view" and "emptyStore (view s0)" and "inj_on (shake256 B) C"
    and "par_reach (api_request B svc C) (s0, []) (s, ps)"
    and "par_reach (api_request B svc C) (s, ps @ [fmap DownloadReplyV1 (P_DownloadV1 B svc vs)]) (s', ps')"
    and "ps' ! length ps = Ret (DownloadReplyV1 (Inr xs))"
  shows "list_all2 (\<lambda>v x. SvcV1_Download B svc s' [byCommit v (d1_Commit x)] =
    delivered (view s') (d1_Commit x) (d1_Files x)) vs xs"
  by (rule concurrent_registry.downloads_delivered [OF concurrent [OF assms(1,3)] assms(4,2,5,6)])

theorem concurrent_download_delivered_witness:
  "\<exists>s ps x. par_reach (api_request memBackend exampleService exampleTexts) (memEmpty, [])
       (s, ps @ [Ret (DownloadReplyV1 (Inr [x]) :: unit api_reply)])
     \<and> SvcV1_Download memBackend exampleService s [byCommit mainOfPets (d1_Commit x)] =
         delivered (memView s) (d1_Commit x) (d1_Files x)"
proof -
  obtain s c where run: "Svc_Upload memBackend exampleService memEmpty [exampleUpload] [] = (s, Inr [c])"
    and up: "par_reach (api_request memBackend exampleService exampleTexts) (memEmpty, [uploadExample])
      (s, [Ret (UploadReply (Inr [c]) :: unit api_reply)])" using uploadExample_runs by blast
  note reach = par_reach_trans [OF up api_arrive_first [OF uploadExample_request]]
  obtain x where x: "SvcV1_Download memBackend exampleService s [mainOfPets] = Inr [x]"
    using mainOfPets_main [OF run] by blast
  let ?ps = "[Ret (UploadReply (Inr [c]))]"
  let ?down = "fmap DownloadReplyV1 (P_DownloadV1 memBackend exampleService [mainOfPets]) :: (mem, unit api_reply) prog"
  have "par_reach (api_request memBackend exampleService exampleTexts) (s, ?ps @ [?down])
      (s, (?ps @ [?down])[1 := Ret (DownloadReplyV1 (Inr [x]))])"
    by (rule run_reach) (simp_all add: x)
  then have d: "par_reach (api_request memBackend exampleService exampleTexts) (s, ?ps @ [?down])
      (s, ?ps @ [Ret (DownloadReplyV1 (Inr [x]))])" by simp
  have "par_step (api_request memBackend exampleService exampleTexts) (s, ?ps) (s, ?ps @ [?down])"
    by (rule par_step.arrival) (rule api_request.download_v1)
  from par_reach_trans [OF d par_reach.step [OF reach this]]
    concurrent_download_delivered [OF mem.backend_laws_axioms memEmpty_empty memc.inj reach d]
  show ?thesis by (intro exI [of _ s] exI [of _ ?ps] exI [of _ x]) simp
qed

end
