(* ===== verification/Label_Races.thy ===== *)
theory Label_Races
  imports Concurrent_Registry
begin

text \<open>
  The labels of an upload (the loops of \<open>CreateCommit\<close> in \<open>internal/registry/module.go\<close> that call
  \<open>updateLabel\<close>).  They are moved last and one at a time, so an upload is one part that makes the commit
  available and one call for each label.  The theorem is about two uploads whose calls for the labels interleave.
\<close>

section \<open>Labels come last\<close>

definition pointAll :: "'s backend \<Rightarrow> Module \<Rightarrow> string list \<Rightarrow> Commit res \<Rightarrow> ('s, Commit res) prog" where
  "pointAll B m labels r =
     (case r of
        Inl err \<Rightarrow> Ret (Inl err)
      | Inr c \<Rightarrow> fmap (\<lambda>e. case e of Some err \<Rightarrow> Inl err | None \<Rightarrow> Inr c) (P_updateLabels B m labels (c_ID c)))"

lemma bind_cong: "(\<And>a. g a = h a) \<Longrightarrow> bind p g = bind p h"
  by presburger

lemma P_newCommit_labels:
  "P_newCommit B m fd md labels url deps = bind (P_newCommit B m fd md [] url deps) (pointAll B m labels)"
  by (auto simp: P_newCommit_def fmap_def bind_assoc Let_def pointAll_def intro!: bind_cong split: option.split)

lemma P_findOrCreate_labels:
  "P_findOrCreate B m labels url deps fd md = bind (P_findOrCreate B m [] url deps fd md) (pointAll B m labels)"
  unfolding P_findOrCreate_def bind_assoc
  by (rule bind_cong) (auto simp: P_newCommit_labels [of _ _ _ _ labels] fmap_def pointAll_def toCommit_def split: sum.split)

lemma P_CreateCommit_labels:
  "P_CreateCommit B m files labels url deps dds =
   bind (P_CreateCommit B m files [] url deps dds) (pointAll B m labels)"
  unfolding P_CreateCommit_def bind_assoc
proof (rule bind_cong)
  fix r :: "ManifestEntry list res"
  have "P_withManifest B m labels url deps dds mf = bind (P_withManifest B m [] url deps dds mf) (pointAll B m labels)" for mf
    unfolding P_withManifest_def bind_assoc
    by (rule bind_cong) (auto simp: P_findOrCreate_labels [of _ _ labels] pointAll_def split: sum.split)
  then show "(case r of Inl err \<Rightarrow> Ret (Inl err)
      | Inr entries \<Rightarrow> P_withManifest B m labels url deps dds \<lparr>mf_Entries = entries\<rparr>) =
    bind (case r of Inl err \<Rightarrow> Ret (Inl err)
      | Inr entries \<Rightarrow> P_withManifest B m [] url deps dds \<lparr>mf_Entries = entries\<rparr>) (pointAll B m labels)"
    by (simp add: pointAll_def split: sum.split)
qed

text \<open>An upload that runs alone moves all its labels to its commit.\<close>

context backend_laws
begin

lemma alone_moves_all:
  assumes "Mod_CreateCommit B s m files labels url deps dds = (s', Inr c)"
    and "regOK (shake256 B) (view s)" "\<forall>f \<in> set files. wfPath (f_Path f)" "l \<in> set labels" "l \<noteq> []"
  shows "Mod_Commit B s' m l = Inr c"
proof -
  note cc = CreateCommit_ok [OF assms(1-3)]
  then obtain d rcd where d: "vCommits (view s') (c_ID c) = Some d" "commitDocToRecord d = Inr rcd" "toCommit rcd = c"
    by blast
  have "\<exists>x. vLabels (view s') (labelID (Module_ID m) l) = Some x \<and> ldoc_CommitID x = c_ID c"
    using cc assms(4) by (simp add: pointLabels_def)
  then show ?thesis using Mod_Commit_label [OF _ assms(5)] Mod_CommitByID_stored [OF d, of m] cc by fastforce
qed

end

section \<open>Two uploads\<close>

text \<open>An upload of the given files that moves the labels \<open>a\<close> and \<open>b\<close>.\<close>

definition uploadAB :: "File list \<Rightarrow> (mem, outcome) prog" where
  "uploadAB files = fmap Uploaded (P_CreateCommit memBackend exampleModule files [''a'', ''b''] [] [] [])"

definition moving :: "string list \<Rightarrow> Commit \<Rightarrow> (mem, outcome) prog" where
  "moving labels c = fmap Uploaded (pointAll memBackend exampleModule labels (Inr c))"

lemma uploadAB_committed:
  assumes i: "i < length ps" "ps ! i = uploadAB files"
  shows "\<exists>s' c. par_reach arrives (s, ps) (s', ps[i := moving [''a'', ''b''] c])
    \<and> Mod_CreateCommit memBackend s exampleModule files [] [] [] [] = (s', Inr c)"
proof -
  obtain s' c where run: "Mod_CreateCommit memBackend s exampleModule files [] [] [] [] = (s', Inr c)"
    using mem_CreateCommit [of "[]" s exampleModule files "[]" "[]" "[]"] by auto
  have p: "ps ! i = bind (P_CreateCommit memBackend exampleModule files [] [] [] [])
      (\<lambda>r. fmap Uploaded (pointAll memBackend exampleModule [''a'', ''b''] r))"
    using i(2) by (simp add: uploadAB_def P_CreateCommit_labels [of _ _ _ "[''a'', ''b'']"] fmap_bind)
  from part_reach [OF i(1) p, of s s' "Inr c"] run show ?thesis by (auto simp: moving_def)
qed

lemma moving_one:
  assumes i: "i < length ps" "ps ! i = moving (l # ls) c"
  shows "\<exists>s'. par_reach arrives (s, ps) (s', ps[i := moving ls c])
    \<and> memView s' = (memView s)\<lparr>vLabels := pointLabels (Module_ID exampleModule) [l] (c_ID c) (vLabels (memView s))\<rparr>"
proof -
  obtain s' where s': "updateLabels memBackend s exampleModule [l] (c_ID c) = (s', None)" using mem_updateLabels by blast
  then have u: "updateLabel memBackend s exampleModule l (c_ID c) = (s', None)"
    by (auto split: prod.splits option.splits)
  obtain g where g: "moving (l # ls) c = bind (act (\<lambda>s. updateLabel memBackend s exampleModule l (c_ID c))) g"
    "g None = moving ls c"
    by (simp add: moving_def pointAll_def fmap_def bind_assoc)
  have "memView s' = (memView s)\<lparr>vLabels := pointLabels (Module_ID exampleModule) [l] (c_ID c) (vLabels (memView s))\<rparr>"
    using mem.updateLabel_view [OF u] by (simp add: pointLabels_def labelID_def fun_upd_def fun_eq_iff)
  moreover have "par_reach arrives (s, ps) (s', ps[i := moving ls c])"
    using part_reach [of i ps "act (\<lambda>s. updateLabel memBackend s exampleModule l (c_ID c))" g s s' None] i g u by simp
  ultimately show ?thesis by blast
qed

lemma moving_done: "moving [] c = Ret (Uploaded (Inr c))"
  by (simp add: moving_def pointAll_def fmap_def)

text \<open>The texts of the two manifests have different checksums.\<close>

lemma digests_differ: "filesDigestOf memShake exampleFiles \<noteq> filesDigestOf memShake []"
  by code_simp

lemma two_commits:
  assumes 1: "Mod_CreateCommit memBackend memEmpty exampleModule exampleFiles [] [] [] [] = (s1, Inr c1)"
    and 2: "Mod_CreateCommit memBackend s1 exampleModule [] [] [] [] [] = (s2, Inr c2)"
  shows "c_ID c1 \<noteq> c_ID c2 \<and> (\<forall>s. vCommits (memView s) = vCommits (memView s2) \<longrightarrow>
      Mod_CommitByID memBackend s exampleModule (c_ID c1) = Inr c1
    \<and> Mod_CommitByID memBackend s exampleModule (c_ID c2) = Inr c2)"
proof -
  have ok0: "regOK (shake256 memBackend) (memView memEmpty)" by (rule regOK_empty [OF memEmpty_empty])
  note ok1 = mem.CreateCommit_regOK [OF 1 ok0 exampleFiles_wf]
  note r1 = mem.CreateCommit_ok [OF 1 ok0 exampleFiles_wf]
  have "\<forall>f \<in> set ([] :: File list). wfPath (f_Path f)" by simp
  note r2 = mem.CreateCommit_ok [OF 2 ok1 this]
  from r1 obtain d1 rcd1 where d1: "vCommits (memView s1) (c_ID c1) = Some d1" "commitDocToRecord d1 = Inr rcd1"
    "toCommit rcd1 = c1" by blast
  from r2 obtain d2 rcd2 where d2: "vCommits (memView s2) (c_ID c2) = Some d2" "commitDocToRecord d2 = Inr rcd2"
    "toCommit rcd2 = c2" and
    grow: "vCommits (memView s2) = vCommits (memView s1) \<or>
      vCommits (memView s2) = (vCommits (memView s1))(c_ID c2 \<mapsto> d2) \<and> (\<forall>x \<in> vIds (memView s1). x < c_ID c2)" by blast
  have "c_FilesDigest c1 = filesDigestOf memShake exampleFiles" "c_FilesDigest c2 = filesDigestOf memShake []"
    using r1 r2 unfolding shake256_mem by blast+
  then have "c1 \<noteq> c2" using digests_differ by metis
  moreover have "c_ID c1 \<in> vIds (memView s1)" using ok1 d1(1) unfolding regOK_def commitsOK_def by blast
  ultimately have ne: "c_ID c1 \<noteq> c_ID c2" using grow d1 d2 by (metis order_less_irrefl option.inject sum.inject(2))
  then have d1': "vCommits (memView s2) (c_ID c1) = Some d1" using grow d1(1) by (metis fun_upd_other)
  have m: "c_ModuleID c1 = Module_ID exampleModule" "c_ModuleID c2 = Module_ID exampleModule" using r1 r2 by blast+
  show ?thesis using ne mem.Mod_CommitByID_stored [OF _ d1(2,3) m(1)] mem.Mod_CommitByID_stored [OF _ d2(2,3) m(2)] d1' d2(1)
    by simp
qed

section \<open>Properties\<close>

text \<open>
  C16. The labels of an upload are not moved together: two concurrent uploads of different files that both move the
  labels \<open>a\<close> and \<open>b\<close> of a module can both succeed and leave \<open>a\<close> on the commit of the one and \<open>b\<close> on the commit
  of the other, which neither order of the two uploads does (\<open>alone_moves_all\<close>).
\<close>

theorem concurrent_labels_torn:
  "\<exists>s c1 c2. par_reach (\<lambda>_. False) (memEmpty, [uploadAB exampleFiles, uploadAB []])
      (s, [Ret (Uploaded (Inr c1)), Ret (Uploaded (Inr c2))])
    \<and> c_ID c1 \<noteq> c_ID c2 \<and> Mod_Commit memBackend s exampleModule ''a'' = Inr c2
    \<and> Mod_Commit memBackend s exampleModule ''b'' = Inr c1"
proof -
  let ?reach = "par_reach (\<lambda>_ :: (mem, outcome) prog. False)" and ?ab = "moving [''a'', ''b'']" and ?b = "moving [''b'']"
  let ?point = "\<lambda>l c st. st\<lparr>vLabels := pointLabels (Module_ID exampleModule) [l] (c_ID c) (vLabels st)\<rparr>"
  obtain s1 c1 where 1: "?reach (memEmpty, [uploadAB exampleFiles, uploadAB []]) (s1, [?ab c1, uploadAB []])"
    "Mod_CreateCommit memBackend memEmpty exampleModule exampleFiles [] [] [] [] = (s1, Inr c1)"
    using uploadAB_committed [where arrives = "\<lambda>_. False", of 0 "[uploadAB exampleFiles, uploadAB []]"] by fastforce
  obtain s2 c2 where 2: "?reach (s1, [?ab c1, uploadAB []]) (s2, [?ab c1, ?ab c2])"
    "Mod_CreateCommit memBackend s1 exampleModule [] [] [] [] [] = (s2, Inr c2)"
    using uploadAB_committed [where arrives = "\<lambda>_. False", of 1 "[?ab c1, uploadAB []]"] by fastforce
  obtain s3 where 3: "?reach (s2, [?ab c1, ?ab c2]) (s3, [?b c1, ?ab c2])" "memView s3 = ?point ''a'' c1 (memView s2)"
    using moving_one [where arrives = "\<lambda>_. False", of 0 "[?ab c1, ?ab c2]"] by fastforce
  obtain s4 where 4: "?reach (s3, [?b c1, ?ab c2]) (s4, [?b c1, ?b c2])" "memView s4 = ?point ''a'' c2 (memView s3)"
    using moving_one [where arrives = "\<lambda>_. False", of 1 "[?b c1, ?ab c2]"] by fastforce
  obtain s5 where 5: "?reach (s4, [?b c1, ?b c2]) (s5, [?b c1, moving [] c2])" "memView s5 = ?point ''b'' c2 (memView s4)"
    using moving_one [where arrives = "\<lambda>_. False", of 1 "[?b c1, ?b c2]"] by fastforce
  obtain s6 where 6: "?reach (s5, [?b c1, moving [] c2]) (s6, [moving [] c1, moving [] c2])"
    "memView s6 = ?point ''b'' c1 (memView s5)"
    using moving_one [where arrives = "\<lambda>_. False", of 0 "[?b c1, moving [] c2]"] by fastforce
  note reach = par_reach_trans [OF 6(1) par_reach_trans [OF 5(1) par_reach_trans [OF 4(1)
      par_reach_trans [OF 3(1) par_reach_trans [OF 2(1) 1(1)]]]]]
  have v: "vCommits (memView s6) = vCommits (memView s2)" using 3(2) 4(2) 5(2) 6(2) by simp
  have "\<exists>l. vLabels (memView s6) (labelID (Module_ID exampleModule) ''a'') = Some l \<and> ldoc_CommitID l = c_ID c2"
    "\<exists>l. vLabels (memView s6) (labelID (Module_ID exampleModule) ''b'') = Some l \<and> ldoc_CommitID l = c_ID c1"
    by (simp_all add: 3(2) 4(2) 5(2) 6(2) pointLabels_def)
  then show ?thesis using reach two_commits [OF 1(2) 2(2)] v mem.Mod_Commit_label [where m = exampleModule]
    unfolding moving_done by (intro exI [of _ s6] exI [of _ c1] exI [of _ c2]) fastforce
qed

end
