(* ===== verification/Durations.thy ===== *)
theory Durations
  imports Buf_Lock
begin

text \<open>
  Durations of the configuration (\<open>ParseDuration\<close> and \<open>GetTokenTTL\<close> of
  \<open>internal/config/config.go\<close>), with the functions of Go's \<open>strconv\<close> and \<open>time\<close> they call.
  A \<open>time.Duration\<close> is a signed 64-bit count of nanoseconds, here a \<open>64 word\<close> read with
  \<open>sint\<close>; the additions and multiplications of the code wrap.  \<open>time.ParseDuration\<close> scales
  the digits after a decimal point in floating point; that one product is the parameter
  \<open>frac\<close>.  The lemmas give the exact range in which a number of days is read correctly.
\<close>

section \<open>Numbers\<close>

definition isDigit :: "char \<Rightarrow> bool" where
  "isDigit c \<longleftrightarrow> 48 \<le> (of_char c :: nat) \<and> (of_char c :: nat) \<le> 57"

definition digitVal :: "char \<Rightarrow> nat" where
  "digitVal c = of_char c - 48"

definition errSyntax :: "string \<Rightarrow> goerr" where
  "errSyntax s = Errorf (''strconv.Atoi: parsing '' @ s @ '': invalid syntax'')"

definition errRange :: "string \<Rightarrow> goerr" where
  "errRange s = Errorf (''strconv.Atoi: parsing '' @ s @ '': value out of range'')"

text \<open>The loop of \<open>strconv.ParseUint\<close> in base 10; \<open>orig\<close> is the text for the error.\<close>

fun parseDigits :: "string \<Rightarrow> nat \<Rightarrow> string \<Rightarrow> nat res" where
  "parseDigits orig n [] = Inr n"
| "parseDigits orig n (c # s) =
     (if \<not> isDigit c then Inl (errSyntax orig)
      else if n \<ge> (2 ^ 64 - 1) div 10 + 1 then Inl (errRange orig)
      else let n1 = n * 10 + digitVal c in
        if n1 > 2 ^ 64 - 1 then Inl (errRange orig) else parseDigits orig n1 s)"

text \<open>\<open>strconv.Atoi\<close>: an optional sign and at least one digit, in the range of an \<open>int\<close>.\<close>

definition Atoi :: "string \<Rightarrow> int res" where
  "Atoi orig =
     (let neg = (orig \<noteq> [] \<and> hd orig = CHR ''-'');
          s = (if orig \<noteq> [] \<and> (hd orig = CHR ''-'' \<or> hd orig = CHR ''+'') then tl orig else orig)
      in if s = [] then Inl (errSyntax orig)
         else case parseDigits orig 0 s of
           Inl e \<Rightarrow> Inl e
         | Inr un \<Rightarrow>
             if \<not> neg \<and> un \<ge> 2 ^ 63 then Inl (errRange orig)
             else if neg \<and> un > 2 ^ 63 then Inl (errRange orig)
             else Inr (if neg then - int un else int un))"

section \<open>Package time\<close>

type_synonym duration = "64 word"

definition Nanosecond :: duration where "Nanosecond = 1"
definition Microsecond :: duration where "Microsecond = 1000 * Nanosecond"
definition Millisecond :: duration where "Millisecond = 1000 * Microsecond"
definition Second :: duration where "Second = 1000 * Millisecond"
definition Minute :: duration where "Minute = 60 * Second"
definition Hour :: duration where "Hour = 60 * Minute"

text \<open>\<open>leadingInt\<close>: the digits at the start, \<open>None\<close> on overflow.\<close>

fun leadingInt :: "64 word \<Rightarrow> string \<Rightarrow> (64 word \<times> string) option" where
  "leadingInt x [] = Some (x, [])"
| "leadingInt x (c # s) =
     (if \<not> isDigit c then Some (x, c # s)
      else if x > 2 ^ 63 div 10 then None
      else let y = x * 10 + of_nat (digitVal c) in
        if y > 2 ^ 63 then None else leadingInt y s)"

text \<open>
  \<open>leadingFraction\<close>: the digits of the fraction, how often the scale is multiplied by ten,
  and the rest; digits past an overflow are skipped.
\<close>

fun leadingFraction :: "64 word \<Rightarrow> nat \<Rightarrow> bool \<Rightarrow> string \<Rightarrow> 64 word \<times> nat \<times> string" where
  "leadingFraction x scale overflow [] = (x, scale, [])"
| "leadingFraction x scale overflow (c # s) =
     (if \<not> isDigit c then (x, scale, c # s)
      else if overflow then leadingFraction x scale overflow s
      else if x > (2 ^ 63 - 1) div 10 then leadingFraction x scale True s
      else let y = x * 10 + of_nat (digitVal c) in
        if y > 2 ^ 63 then leadingFraction x scale True s
        else leadingFraction y (Suc scale) False s)"

definition unitMap :: "string \<Rightarrow> 64 word option" where
  "unitMap u =
     (if u = ''ns'' then Some Nanosecond
      else if u = ''us'' \<or> u = [CHR 0xC2, CHR 0xB5, CHR ''s''] \<or> u = [CHR 0xCE, CHR 0xBC, CHR ''s'']
        then Some Microsecond
      else if u = ''ms'' then Some Millisecond
      else if u = ''s'' then Some Second
      else if u = ''m'' then Some Minute
      else if u = ''h'' then Some Hour
      else None)"

definition errDuration :: "string \<Rightarrow> goerr" where
  "errDuration orig = Errorf (''time: invalid duration '' @ orig)"

text \<open>
  One round of the loop of \<open>time.ParseDuration\<close>: a number with its unit.  \<open>frac f unit n\<close>
  stands for \<open>uint64(float64(f) * (float64(unit) / scale))\<close> where the scale was multiplied
  \<open>n\<close> times by ten.
\<close>

definition parseTerm ::
  "(64 word \<Rightarrow> 64 word \<Rightarrow> nat \<Rightarrow> 64 word) \<Rightarrow> string \<Rightarrow> string \<Rightarrow> (64 word \<times> string) res" where
  "parseTerm frac orig s =
     (if \<not> (hd s = CHR ''.'' \<or> isDigit (hd s)) then Inl (errDuration orig)
      else case leadingInt 0 s of
        None \<Rightarrow> Inl (errDuration orig)
      | Some (v, s1) \<Rightarrow>
          (let pre = (length s \<noteq> length s1);
               (f, scale, s2) =
                 (if s1 \<noteq> [] \<and> hd s1 = CHR ''.'' then leadingFraction 0 0 False (tl s1) else (0, 0, s1));
               post = (s1 \<noteq> [] \<and> hd s1 = CHR ''.'' \<and> length (tl s1) \<noteq> length s2);
               u = takeWhile (\<lambda>c. \<not> (c = CHR ''.'' \<or> isDigit c)) s2;
               s3 = drop (length u) s2
           in if \<not> pre \<and> \<not> post then Inl (errDuration orig)
              else if u = [] then Inl (Errorf (''time: missing unit in duration '' @ orig))
              else case unitMap u of
                None \<Rightarrow> Inl (Errorf (''time: unknown unit '' @ u @ '' in duration '' @ orig))
              | Some unit \<Rightarrow>
                  if v > 2 ^ 63 div unit then Inl (errDuration orig)
                  else if f > 0
                    then let v2 = v * unit + frac f unit scale in
                      if v2 > 2 ^ 63 then Inl (errDuration orig) else Inr (v2, s3)
                    else Inr (v * unit, s3)))"

text \<open>Each round consumes at least the character of its unit, so the loop ends.\<close>

lemma leadingInt_shorter: "leadingInt x s = Some (y, r) \<Longrightarrow> length r \<le> length s"
  by (induction x s rule: leadingInt.induct) (auto simp: Let_def split: if_splits)

lemma leadingFraction_shorter: "leadingFraction x n b s = (y, k, r) \<Longrightarrow> length r \<le> length s"
  by (induction x n b s rule: leadingFraction.induct) (auto simp: Let_def split: if_splits)

lemma parseTerm_shorter: "parseTerm frac orig s = Inr (v, r) \<Longrightarrow> length r < length s"
proof -
  assume p: "parseTerm frac orig s = Inr (v, r)"
  then obtain v1 s1 where l: "leadingInt 0 s = Some (v1, s1)"
    by (auto simp: parseTerm_def split: if_splits option.splits)
  let ?dot = "s1 \<noteq> [] \<and> hd s1 = CHR ''.''"
  obtain f k s2 where f: "(if ?dot then leadingFraction 0 0 False (tl s1) else (0, 0, s1)) = (f, k, s2)"
    by (metis prod_cases3)
  let ?u = "takeWhile (\<lambda>c. \<not> (c = CHR ''.'' \<or> isDigit c)) s2"
  have r: "?u \<noteq> []" "r = drop (length ?u) s2"
    using p l f by (auto simp: parseTerm_def Let_def simp del: takeWhile_eq_Nil_iff split: if_splits option.splits)
  have "length s2 \<le> length s1"
    using f leadingFraction_shorter [of 0 0 False "tl s1" f k s2] by (auto split: if_splits)
  moreover have "length s1 \<le> length s" by (rule leadingInt_shorter [OF l])
  moreover have "length ?u \<le> length s2" by (rule length_takeWhile_le)
  ultimately show ?thesis using r by (cases ?u) (auto simp: r(2))
qed

function durationLoop ::
  "(64 word \<Rightarrow> 64 word \<Rightarrow> nat \<Rightarrow> 64 word) \<Rightarrow> string \<Rightarrow> 64 word \<Rightarrow> string \<Rightarrow> 64 word res" where
  "durationLoop frac orig d s =
     (if s = [] then Inr d
      else case parseTerm frac orig s of
        Inl e \<Rightarrow> Inl e
      | Inr (v, r) \<Rightarrow> if d + v > 2 ^ 63 then Inl (errDuration orig) else durationLoop frac orig (d + v) r)"
  by pat_completeness auto
termination
  by (relation "measure (\<lambda>(frac, orig, d, s). length s)") (auto dest: parseTerm_shorter)

declare durationLoop.simps [simp del]

definition timeParseDuration ::
  "(64 word \<Rightarrow> 64 word \<Rightarrow> nat \<Rightarrow> 64 word) \<Rightarrow> string \<Rightarrow> duration res" where
  "timeParseDuration frac orig =
     (let signed = (orig \<noteq> [] \<and> (hd orig = CHR ''-'' \<or> hd orig = CHR ''+''));
          neg = (signed \<and> hd orig = CHR ''-'');
          s = (if signed then tl orig else orig)
      in if s = ''0'' then Inr 0
         else if s = [] then Inl (errDuration orig)
         else case durationLoop frac orig 0 s of
           Inl e \<Rightarrow> Inl e
         | Inr d \<Rightarrow>
             if neg then Inr (- d)
             else if d > 2 ^ 63 - 1 then Inl (errDuration orig)
             else Inr d)"

section \<open>Configuration\<close>

text \<open>\<open>strings.Index(s, "d")\<close> with the text before and behind it.\<close>

fun cutAtD :: "string \<Rightarrow> (string \<times> string) option" where
  "cutAtD [] = None"
| "cutAtD (c # s) =
     (if c = CHR ''d'' then Some ([], s) else map_option (\<lambda>(p, q). (c # p, q)) (cutAtD s))"

definition ParseDuration ::
  "(64 word \<Rightarrow> 64 word \<Rightarrow> nat \<Rightarrow> 64 word) \<Rightarrow> string \<Rightarrow> duration res" where
  "ParseDuration frac s0 =
     (let s = TrimSpace s0 in
      if s = [] then Inr 0
      else case cutAtD s of
        Some (daysPart, remainder) \<Rightarrow>
          (case Atoi daysPart of
             Inl err \<Rightarrow> Inl err
           | Inr days \<Rightarrow>
               if remainder \<noteq> []
               then (case timeParseDuration frac remainder of
                       Inl err \<Rightarrow> Inl err
                     | Inr remainderDuration \<Rightarrow> Inr (word_of_int days * 24 * Hour + remainderDuration))
               else Inr (word_of_int days * 24 * Hour + 0))
      | None \<Rightarrow> timeParseDuration frac s)"

definition DefaultTokenTTL :: duration where
  "DefaultTokenTTL = 7 * 24 * Hour"

definition GetTokenTTL :: "(64 word \<Rightarrow> 64 word \<Rightarrow> nat \<Rightarrow> 64 word) \<Rightarrow> string \<Rightarrow> duration" where
  "GetTokenTTL frac tokenTTL =
     (if tokenTTL = [] then DefaultTokenTTL
      else case ParseDuration frac tokenTTL of
        Inl _ \<Rightarrow> DefaultTokenTTL
      | Inr d \<Rightarrow> d)"

section \<open>Decimal digits\<close>

lemma isDigit_hexDigit: "k < 10 \<Longrightarrow> isDigit (hexDigit k) \<and> digitVal (hexDigit k) = k"
proof -
  have "\<forall>k \<in> set [0 ..< 10]. isDigit (hexDigit k) \<and> digitVal (hexDigit k) = k" by code_simp
  then show "k < 10 \<Longrightarrow> isDigit (hexDigit k) \<and> digitVal (hexDigit k) = k" by simp
qed

lemma parseDigits_append:
  "parseDigits orig n (s @ t) = (case parseDigits orig n s of Inl e \<Rightarrow> Inl e | Inr k \<Rightarrow> parseDigits orig k t)"
  by (induction orig n s rule: parseDigits.induct) (auto simp: Let_def)

lemma parseDigits_showNat: "n < 2 ^ 63 \<Longrightarrow> parseDigits orig 0 (showNat n) = Inr n"
proof (induction n rule: showNat.induct)
  case (1 n)
  show ?case
  proof (cases "n < 10")
    case True
    then show ?thesis using isDigit_hexDigit [of n] by (simp add: showNat.simps [of n])
  next
    case False
    have "parseDigits orig 0 (showNat (n div 10)) = Inr (n div 10)"
      using 1 False by simp
    moreover have "parseDigits orig (n div 10) [hexDigit (n mod 10)] = Inr n"
      using isDigit_hexDigit [of "n mod 10"] 1(2) by (simp add: Let_def)
    ultimately show ?thesis using False by (simp add: showNat.simps [of n] parseDigits_append)
  qed
qed

lemma showNat_isDigit: "c \<in> set (showNat n) \<Longrightarrow> isDigit c"
proof (induction n rule: showNat.induct)
  case (1 n)
  then show ?case
    using isDigit_hexDigit [of n] isDigit_hexDigit [of "n mod 10"]
    by (cases "n < 10") (auto simp: showNat.simps [of n])
qed

lemma showNat_not_Nil: "showNat n \<noteq> []"
  by (simp add: showNat.simps [of n])

lemma hd_showNat: "isDigit (hd (showNat n))"
  by (rule showNat_isDigit [OF hd_in_set [OF showNat_not_Nil]])

lemma isDigit_not: "isDigit c \<Longrightarrow> c \<noteq> CHR ''-'' \<and> c \<noteq> CHR ''+'' \<and> c \<noteq> CHR ''d'' \<and> c \<noteq> CHR ''.'' \<and> c \<noteq> CHR ''h''"
  by (auto simp: isDigit_def)

lemma Atoi_showNat: "n < 2 ^ 63 \<Longrightarrow> Atoi (showNat n) = Inr (int n)"
  using isDigit_not [OF hd_showNat [of n]]
  by (simp add: Atoi_def Let_def showNat_not_Nil parseDigits_showNat)

lemma cutAtD_showNat: "(\<forall>c \<in> set s. isDigit c) \<Longrightarrow> cutAtD (s @ CHR ''d'' # t) = Some (s, t)"
  by (induction s) (auto dest: isDigit_not)

lemma leadingInt_append:
  "leadingInt x (s @ t) = (case leadingInt x s of None \<Rightarrow> None | Some (y, r) \<Rightarrow> if r = [] then leadingInt y t else Some (y, r @ t))"
  by (induction x s rule: leadingInt.induct) (auto simp: Let_def)

lemma leadingInt_showNat: "n \<le> 2562047 \<Longrightarrow> leadingInt 0 (showNat n) = Some (of_nat n, [])"
proof (induction n rule: showNat.induct)
  case (1 n)
  show ?case
  proof (cases "n < 10")
    case True
    have "\<not> (of_nat n :: 64 word) > 2 ^ 63"
      using True by (simp add: word_less_nat_alt unat_of_nat)
    then show ?thesis using True isDigit_hexDigit [of n] by (simp add: showNat.simps [of n] Let_def)
  next
    case False
    have "leadingInt 0 (showNat (n div 10)) = Some (of_nat (n div 10), [])"
      using 1 False by simp
    moreover have "leadingInt (of_nat (n div 10)) [hexDigit (n mod 10)] = Some (of_nat n, [])"
    proof -
      have "of_nat (n div 10) * 10 + of_nat (n mod 10) = (of_nat (n div 10 * 10 + n mod 10) :: 64 word)"
        by (simp only: of_nat_add of_nat_mult of_nat_numeral)
      then have e: "of_nat (n div 10) * 10 + of_nat (n mod 10) = (of_nat n :: 64 word)" by simp
      have "\<not> (of_nat (n div 10) :: 64 word) > 2 ^ 63 div 10"
        using 1(2) by (simp add: word_less_nat_alt unat_of_nat unat_div) 
      moreover have "\<not> (of_nat n :: 64 word) > 2 ^ 63"
        using 1(2) by (simp add: word_less_nat_alt unat_of_nat)
      ultimately show ?thesis using isDigit_hexDigit [of "n mod 10"] e by (simp add: Let_def)
    qed
    ultimately show ?thesis using False by (simp add: showNat.simps [of n] leadingInt_append)
  qed
qed


lemma leadingInt_stop: "\<not> isDigit c \<Longrightarrow> leadingInt x (c # t) = Some (x, c # t)"
  by simp

lemma Hour_value: "Hour = 3600000000000"
  by (simp add: Hour_def Minute_def Second_def Millisecond_def Microsecond_def Nanosecond_def)

lemma not_isDigit_h [simp]: "\<not> isDigit CHR ''h''"
  by (simp add: isDigit_def)

lemma parseTerm_hours:
  "h \<le> 2562047 \<Longrightarrow> parseTerm frac orig (showNat h @ ''h'') = Inr (of_nat h * Hour, [])"
proof -
  assume h: "h \<le> 2562047"
  have l: "leadingInt 0 (showNat h @ ''h'') = Some (of_nat h, ''h'')"
    by (simp add: leadingInt_append leadingInt_showNat [OF h])
  have "\<not> (of_nat h :: 64 word) > 2 ^ 63 div Hour"
    using h by (simp add: Hour_value word_less_nat_alt unat_of_nat unat_div)
  then show ?thesis
    using l hd_showNat [of h] isDigit_not [OF hd_showNat [of h]]
    by (simp add: parseTerm_def showNat_not_Nil unitMap_def)
qed

lemma unat_hours: "h \<le> 2562047 \<Longrightarrow> unat (of_nat h * Hour) = h * 3600000000000"
  unfolding Hour_value using unat_of_nat [of "h * 3600000000000", where 'a = 64] by simp

lemma timeParseDuration_hours:
  "h \<le> 2562047 \<Longrightarrow> timeParseDuration frac (showNat h @ ''h'') = Inr (of_nat h * Hour)"
proof -
  assume h: "h \<le> 2562047"
  have b: "\<not> (of_nat h * Hour > 2 ^ 63)" "\<not> (of_nat h * Hour > 2 ^ 63 - 1)"
    using h unat_hours [OF h] by (simp_all add: word_less_nat_alt)
  have "durationLoop frac (showNat h @ ''h'') 0 (showNat h @ ''h'') = Inr (of_nat h * Hour)"
    using b by (simp add: durationLoop.simps [of _ _ _ "showNat h @ ''h''"] durationLoop.simps [of _ _ _ "[]"]
      parseTerm_hours [OF h])
  moreover have "showNat h @ ''h'' \<noteq> ''0''" using showNat_not_Nil [of h] by (cases "showNat h") auto
  ultimately show ?thesis
    using b isDigit_not [OF hd_showNat [of h]] showNat_not_Nil [of h]
    by (simp add: timeParseDuration_def Let_def)
qed

lemma isDigit_plain: "isDigit c \<Longrightarrow> plain c"
  by (simp add: isDigit_def plain_def)

lemma TrimSpace_digits:
  assumes "plain b"
  shows "TrimSpace (showNat n @ t @ [b]) = showNat n @ t @ [b]"
proof -
  obtain c s where s: "showNat n = c # s" using showNat_not_Nil [of n] by (cases "showNat n") auto
  then have "plain c" using hd_showNat [of n] by (simp add: isDigit_plain)
  then have "TrimSpace (replicate 0 (CHR '' '') @ showNat n @ t @ [b]) = showNat n @ t @ [b]"
    using assms s by (intro TrimSpace_plain [of c b _ "s @ t @ [b]" "showNat n @ t"]) simp_all
  then show ?thesis by simp
qed

lemma cutAtD_days: "cutAtD (showNat n @ CHR ''d'' # t) = Some (showNat n, t)"
  using cutAtD_showNat showNat_isDigit by blast

section \<open>Days and hours\<close>

text \<open>The tokens' time to live as configured in days, and in days and hours.\<close>

lemma days_hours_word:
  "word_of_int (int n) * 24 * Hour + of_nat h * Hour = word_of_int ((int n * 24 + int h) * 3600000000000)"
  by (simp only: Hour_value of_int_add of_int_mult of_int_numeral of_int_of_nat_eq distrib_right)

lemma ParseDuration_cut:
  assumes "s \<noteq> []" "TrimSpace s = s" "cutAtD s = Some (showNat n, t)" "n < 2 ^ 63"
    and "if t = [] then d = 0 else timeParseDuration frac t = Inr d"
  shows "ParseDuration frac s = Inr (word_of_int (int n) * 24 * Hour + d)"
  using assms by (auto simp: ParseDuration_def Atoi_showNat split: if_splits)

lemma ParseDuration_days:
  assumes "n < 2 ^ 63"
  shows "ParseDuration frac (showNat n @ ''d'') = Inr (word_of_int (int n * 24 * 3600000000000))"
proof -
  have "TrimSpace (showNat n @ ''d'') = showNat n @ ''d''"
    using TrimSpace_digits [of "CHR ''d''" n "[]"] by (simp add: plain_def)
  then show ?thesis
    using ParseDuration_cut [of "showNat n @ ''d''" n "[]" 0 frac] assms cutAtD_days [of n "[]"]
      days_hours_word [of n 0] by simp
qed

lemma ParseDuration_days_hours:
  assumes "n < 2 ^ 63" "h \<le> 2562047"
  shows "ParseDuration frac (showNat n @ ''d'' @ showNat h @ ''h'') =
     Inr (word_of_int ((int n * 24 + int h) * 3600000000000))"
proof -
  let ?s = "showNat n @ ''d'' @ showNat h @ ''h''"
  have "TrimSpace ?s = ?s"
    using TrimSpace_digits [of "CHR ''h''" n "''d'' @ showNat h"] by (simp add: plain_def)
  then show ?thesis
    unfolding days_hours_word [symmetric]
    using assms(1) timeParseDuration_hours [OF assms(2), of frac] cutAtD_days [of n "showNat h @ ''h''"]
    by (intro ParseDuration_cut [where t = "showNat h @ ''h''"]) simp_all
qed

lemma GetTokenTTL_parsed: "s \<noteq> [] \<Longrightarrow> ParseDuration frac s = Inr d \<Longrightarrow> GetTokenTTL frac s = d"
  by (simp add: GetTokenTTL_def)

text \<open>What a count of nanoseconds becomes in the 64 bits of a duration.\<close>

definition wrap64 :: "int \<Rightarrow> int" where
  "wrap64 i = (i + 2 ^ 63) mod 2 ^ 64 - 2 ^ 63"

lemma sint_64_exact: "sint (word_of_int i :: 64 word) = i \<longleftrightarrow> - (2 ^ 63) \<le> i \<and> i < 2 ^ 63"
  by (simp add: signed_of_int signed_take_bit_int_eq_self_iff)

lemma sint_64_wrap: "sint (word_of_int i :: 64 word) = wrap64 i"
  by (simp add: wrap64_def signed_of_int signed_take_bit_eq_take_bit_shift take_bit_eq_mod)

lemma wrap64_exact: "wrap64 i = i \<longleftrightarrow> - (2 ^ 63) \<le> i \<and> i < 2 ^ 63"
  unfolding sint_64_wrap [symmetric] by (rule sint_64_exact)

text \<open>
  C33. A configured number of days that fits an \<open>int\<close>, alone or with a number of hours that \<open>time.ParseDuration\<close> accepts (at
  most 2562047), is never rejected: \<open>ParseDuration\<close> returns the time in nanoseconds wrapped to the 64 bits of a
  duration, not an error, so \<open>GetTokenTTL\<close> does not fall back to the default.  The result is the configured time exactly up to
  106751 days (2562047 hours in all); beyond that it is another one, \<open>wrap64\<close> of it, where \<open>time.ParseDuration\<close> would
  report the overflow.
\<close>

theorem token_ttl_exact:
  fixes frac :: "64 word \<Rightarrow> 64 word \<Rightarrow> nat \<Rightarrow> 64 word"
  assumes "n < 2 ^ 63" "h \<le> 2562047"
  defines "days \<equiv> showNat n @ ''d''" and "both \<equiv> showNat n @ ''d'' @ showNat h @ ''h''"
    and "t \<equiv> int n * 24 * 3600 * 10 ^ 9" and "u \<equiv> (int n * 24 + int h) * 3600 * 10 ^ 9"
  shows "ParseDuration frac days = Inr (GetTokenTTL frac days) \<and> sint (GetTokenTTL frac days) = wrap64 t \<and>
    (wrap64 t = t \<longleftrightarrow> n \<le> 106751) \<and>
    ParseDuration frac both = Inr (GetTokenTTL frac both) \<and> sint (GetTokenTTL frac both) = wrap64 u \<and>
    (wrap64 u = u \<longleftrightarrow> n * 24 + h \<le> 2562047)"
proof -
  have e: "t = int n * 24 * 3600000000000" "u = (int n * 24 + int h) * 3600000000000"
    by (simp_all add: t_def u_def)
  have d: "ParseDuration frac days = Inr (word_of_int t)" "ParseDuration frac both = Inr (word_of_int u)"
    unfolding days_def both_def e by (rule ParseDuration_days [OF assms(1)], rule ParseDuration_days_hours [OF assms(1,2)])
  have g: "GetTokenTTL frac days = word_of_int t" "GetTokenTTL frac both = word_of_int u"
    using d by (auto intro!: GetTokenTTL_parsed simp: days_def both_def)
  show ?thesis unfolding d g sint_64_wrap wrap64_exact by (auto simp: e)
qed

lemma token_ttl_exact_witness:
  "sint (GetTokenTTL (\<lambda>_ _ _. 0) (showNat 106751 @ ''d'')) = 106751 * 24 * 3600 * 10 ^ 9 \<and>
   sint (GetTokenTTL (\<lambda>_ _ _. 0) (showNat 106752 @ ''d'')) = - 9223371273709551616 \<and>
   ParseDuration (\<lambda>_ _ _. 0) (showNat 106751 @ ''d'' @ showNat 24 @ ''h'') =
     Inr (GetTokenTTL (\<lambda>_ _ _. 0) (showNat 106751 @ ''d'' @ showNat 24 @ ''h''))"
  using token_ttl_exact [of 106751 24 "\<lambda>_ _ _. 0"] token_ttl_exact [of 106752 0 "\<lambda>_ _ _. 0"]
  by (simp add: wrap64_def)

end
