(* ===== verification/Config.thy ===== *)
theory Config
  imports Durations
begin

text \<open>
  The configuration file (\<open>internal/config/config.go\<close>): its types, and \<open>ParseConfig\<close>, which
  decodes it and then replaces certain fields by their \<open>${VAR}\<close> substitution.  The YAML
  decoder (\<open>gopkg.in/yaml.v3\<close>) and \<open>envsubst.EvalEnv\<close> (\<open>github.com/drone/envsubst\<close>) are the
  parameters \<open>yamlUnmarshal\<close> and \<open>evalEnv\<close>.  A pointer to a struct that may be nil is an
  \<open>option\<close>; a Go map is the association list of its entries in the order in which \<open>range\<close> visits
  them.  The theorem says which fields are substituted, that all others are returned as they are
  in the file (among them the user name of a registry, for which the README shows a variable),
  and that nothing is returned unless all substitutions succeed.
\<close>

section \<open>Types\<close>

record OIDC =
  Issuer :: string
  ClientID :: string
  ClientSecret :: string
  Scopes :: "string list"
  UsernameClaim :: string

record Storage =
  BlobURL :: string
  DocstoreURL :: string

record Module_Conf =
  mc_Remote :: string
  mc_Path :: string
  mc_Filters :: "string list"
  mc_Shallow :: bool

record TLS =
  CertFile :: string
  KeyFile :: string
  CertPEM :: string
  KeyPEM :: string

record Plugin_Conf =
  pc_Image :: string
  pc_Default :: string

record BasicGitAuth =
  bg_Username :: string
  bg_Password :: string

record GithubAppGitAuth =
  AppID :: "64 word"
  InstallationID :: "64 word"
  PrivateKey :: string

record GitAuth =
  ga_Token :: string
  ga_SSHKey :: string
  ga_Basic :: "BasicGitAuth option"
  ga_GithubApp :: "GithubAppGitAuth option"

record ContainerRegistryAuth =
  cr_Username :: string
  cr_Password :: string
  cr_Auth :: string
  cr_IdentityToken :: string
  cr_RegistryToken :: string

record Credentials =
  Git :: "(string \<times> GitAuth) list"
  ContainerRegistry :: "(string \<times> ContainerRegistryAuth) list"

record Config =
  cf_Credentials :: Credentials
  cf_Modules :: "(string \<times> Module_Conf) list"
  cf_Plugins :: "(string \<times> Plugin_Conf) list"
  cf_Users :: "(string \<times> string) list"
  cf_TLS :: "TLS option"
  cf_Storage :: "Storage option"
  cf_OIDC :: "OIDC option"
  cf_Host :: string
  cf_Address :: string
  cf_LogLevel :: string
  cf_CacheDir :: string
  cf_AdminToken :: string
  cf_NoLogin :: bool
  cf_TokenTTL :: string

section \<open>ParseConfig\<close>

text \<open>The bodies of the loops over the git credentials, the users and the registries.\<close>

definition evalGit :: "(string \<Rightarrow> string res) \<Rightarrow> string \<times> GitAuth \<Rightarrow> (string \<times> GitAuth) res" where
  "evalGit evalEnv kv =
     (case kv of (k, v) \<Rightarrow>
        (case evalEnv (ga_SSHKey v) of
           Inl err \<Rightarrow> Inl err
         | Inr sshKey \<Rightarrow>
        (case evalEnv (ga_Token v) of
           Inl err \<Rightarrow> Inl err
         | Inr token \<Rightarrow>
        (case ga_GithubApp v of
           None \<Rightarrow> Inr (k, v\<lparr>ga_SSHKey := sshKey, ga_Token := token\<rparr>)
         | Some app \<Rightarrow>
             (case evalEnv (PrivateKey app) of
                Inl err \<Rightarrow> Inl err
              | Inr key \<Rightarrow>
                  Inr (k, v\<lparr>ga_SSHKey := sshKey, ga_Token := token,
                    ga_GithubApp := Some (app\<lparr>PrivateKey := key\<rparr>)\<rparr>))))))"

definition evalUser :: "(string \<Rightarrow> string res) \<Rightarrow> string \<times> string \<Rightarrow> (string \<times> string) res" where
  "evalUser evalEnv kv =
     (case kv of (k, v0) \<Rightarrow> (case evalEnv v0 of Inl err \<Rightarrow> Inl err | Inr v \<Rightarrow> Inr (k, v)))"

definition evalRegistry ::
  "(string \<Rightarrow> string res) \<Rightarrow> string \<times> ContainerRegistryAuth \<Rightarrow> (string \<times> ContainerRegistryAuth) res" where
  "evalRegistry evalEnv kv =
     (case kv of (k, v) \<Rightarrow>
        (case evalEnv (cr_Password v) of
           Inl err \<Rightarrow> Inl err
         | Inr password \<Rightarrow>
        (case evalEnv (cr_Auth v) of
           Inl err \<Rightarrow> Inl err
         | Inr auth \<Rightarrow>
        (case evalEnv (cr_IdentityToken v) of
           Inl err \<Rightarrow> Inl err
         | Inr identity \<Rightarrow>
        (case evalEnv (cr_RegistryToken v) of
           Inl err \<Rightarrow> Inl err
         | Inr registry \<Rightarrow>
             Inr (k, v\<lparr>cr_Password := password, cr_Auth := auth,
               cr_IdentityToken := identity, cr_RegistryToken := registry\<rparr>))))))"

text \<open>\<open>if s != "" { s, err = EvalEnv(s) }\<close>.\<close>

definition evalNonEmpty :: "(string \<Rightarrow> string res) \<Rightarrow> string \<Rightarrow> string res" where
  "evalNonEmpty evalEnv s = (if s \<noteq> [] then evalEnv s else Inr s)"

definition evalTLS :: "(string \<Rightarrow> string res) \<Rightarrow> TLS option \<Rightarrow> TLS option res" where
  "evalTLS evalEnv t =
     (case t of
        None \<Rightarrow> Inr None
      | Some tls \<Rightarrow>
          (case evalNonEmpty evalEnv (CertPEM tls) of
             Inl err \<Rightarrow> Inl err
           | Inr cert \<Rightarrow>
          (case evalNonEmpty evalEnv (KeyPEM tls) of
             Inl err \<Rightarrow> Inl err
           | Inr key \<Rightarrow> Inr (Some (tls\<lparr>CertPEM := cert, KeyPEM := key\<rparr>)))))"

definition evalStorage :: "(string \<Rightarrow> string res) \<Rightarrow> Storage option \<Rightarrow> Storage option res" where
  "evalStorage evalEnv t =
     (case t of
        None \<Rightarrow> Inr None
      | Some st \<Rightarrow>
          (case evalNonEmpty evalEnv (BlobURL st) of
             Inl err \<Rightarrow> Inl err
           | Inr blob \<Rightarrow>
          (case evalNonEmpty evalEnv (DocstoreURL st) of
             Inl err \<Rightarrow> Inl err
           | Inr docstore \<Rightarrow> Inr (Some (st\<lparr>BlobURL := blob, DocstoreURL := docstore\<rparr>)))))"

definition evalOIDC :: "(string \<Rightarrow> string res) \<Rightarrow> OIDC option \<Rightarrow> OIDC option res" where
  "evalOIDC evalEnv t =
     (case t of
        None \<Rightarrow> Inr None
      | Some oidc \<Rightarrow>
          (case evalNonEmpty evalEnv (ClientSecret oidc) of
             Inl err \<Rightarrow> Inl err
           | Inr secret \<Rightarrow> Inr (Some (oidc\<lparr>ClientSecret := secret\<rparr>))))"

definition ParseConfig ::
  "(string \<Rightarrow> Config res) \<Rightarrow> (string \<Rightarrow> string res) \<Rightarrow> string \<Rightarrow> Config res" where
  "ParseConfig yamlUnmarshal evalEnv b =
     (case yamlUnmarshal b of
        Inl err \<Rightarrow> Inl err
      | Inr c \<Rightarrow>
     (case mapRes (evalGit evalEnv) (Git (cf_Credentials c)) of
        Inl err \<Rightarrow> Inl err
      | Inr git \<Rightarrow>
     (case evalEnv (cf_AdminToken c) of
        Inl err \<Rightarrow> Inl err
      | Inr tkn \<Rightarrow>
     (case mapRes (evalUser evalEnv) (cf_Users c) of
        Inl err \<Rightarrow> Inl err
      | Inr users \<Rightarrow>
     (case mapRes (evalRegistry evalEnv) (ContainerRegistry (cf_Credentials c)) of
        Inl err \<Rightarrow> Inl err
      | Inr registries \<Rightarrow>
     (case evalTLS evalEnv (cf_TLS c) of
        Inl err \<Rightarrow> Inl err
      | Inr tls \<Rightarrow>
     (case evalStorage evalEnv (cf_Storage c) of
        Inl err \<Rightarrow> Inl err
      | Inr stor \<Rightarrow>
     (case evalOIDC evalEnv (cf_OIDC c) of
        Inl err \<Rightarrow> Inl err
      | Inr oidc \<Rightarrow>
          Inr (c\<lparr>cf_Credentials := (cf_Credentials c)\<lparr>Git := git, ContainerRegistry := registries\<rparr>,
            cf_AdminToken := tkn, cf_Users := users, cf_TLS := tls, cf_Storage := stor,
            cf_OIDC := oidc\<rparr>)))))))))"

text \<open>\<open>FromFile\<close>, with the file's contents (or the error of reading it) for \<open>os.ReadFile\<close>.\<close>

definition FromFile ::
  "(string \<Rightarrow> string res) \<Rightarrow> (string \<Rightarrow> Config res) \<Rightarrow> (string \<Rightarrow> string res) \<Rightarrow> string \<Rightarrow> Config res" where
  "FromFile readFile yamlUnmarshal evalEnv f =
     (case readFile f of
        Inl err \<Rightarrow> Inl err
      | Inr b \<Rightarrow> ParseConfig yamlUnmarshal evalEnv b)"

section \<open>What is substituted\<close>

text \<open>The fields that the code evaluates, and the configuration with \<open>f\<close> applied to each of them.\<close>

definition nonEmpty :: "string \<Rightarrow> string list" where
  "nonEmpty s = (if s = [] then [] else [s])"

definition gitFields :: "GitAuth \<Rightarrow> string list" where
  "gitFields v = [ga_SSHKey v, ga_Token v] @ map PrivateKey (case ga_GithubApp v of None \<Rightarrow> [] | Some a \<Rightarrow> [a])"

definition registryFields :: "ContainerRegistryAuth \<Rightarrow> string list" where
  "registryFields v = [cr_Password v, cr_Auth v, cr_IdentityToken v, cr_RegistryToken v]"

definition evaluatedFields :: "Config \<Rightarrow> string list" where
  "evaluatedFields c =
     concat (map (gitFields \<circ> snd) (Git (cf_Credentials c))) @ [cf_AdminToken c] @
     map snd (cf_Users c) @
     concat (map (registryFields \<circ> snd) (ContainerRegistry (cf_Credentials c))) @
     (case cf_TLS c of None \<Rightarrow> [] | Some t \<Rightarrow> nonEmpty (CertPEM t) @ nonEmpty (KeyPEM t)) @
     (case cf_Storage c of None \<Rightarrow> [] | Some s \<Rightarrow> nonEmpty (BlobURL s) @ nonEmpty (DocstoreURL s)) @
     (case cf_OIDC c of None \<Rightarrow> [] | Some p \<Rightarrow> nonEmpty (ClientSecret p))"

definition keepEmpty :: "(string \<Rightarrow> string) \<Rightarrow> string \<Rightarrow> string" where
  "keepEmpty f s = (if s = [] then [] else f s)"

definition substGit :: "(string \<Rightarrow> string) \<Rightarrow> GitAuth \<Rightarrow> GitAuth" where
  "substGit f v = v\<lparr>ga_SSHKey := f (ga_SSHKey v), ga_Token := f (ga_Token v),
     ga_GithubApp := map_option (\<lambda>a. a\<lparr>PrivateKey := f (PrivateKey a)\<rparr>) (ga_GithubApp v)\<rparr>"

definition substRegistry :: "(string \<Rightarrow> string) \<Rightarrow> ContainerRegistryAuth \<Rightarrow> ContainerRegistryAuth" where
  "substRegistry f v = v\<lparr>cr_Password := f (cr_Password v), cr_Auth := f (cr_Auth v),
     cr_IdentityToken := f (cr_IdentityToken v), cr_RegistryToken := f (cr_RegistryToken v)\<rparr>"

definition substConfig :: "(string \<Rightarrow> string) \<Rightarrow> Config \<Rightarrow> Config" where
  "substConfig f c =
     c\<lparr>cf_Credentials := (cf_Credentials c)
         \<lparr>Git := map (apsnd (substGit f)) (Git (cf_Credentials c)),
          ContainerRegistry := map (apsnd (substRegistry f)) (ContainerRegistry (cf_Credentials c))\<rparr>,
       cf_AdminToken := f (cf_AdminToken c),
       cf_Users := map (apsnd f) (cf_Users c),
       cf_TLS := map_option (\<lambda>t. t\<lparr>CertPEM := keepEmpty f (CertPEM t), KeyPEM := keepEmpty f (KeyPEM t)\<rparr>) (cf_TLS c),
       cf_Storage := map_option (\<lambda>s. s\<lparr>BlobURL := keepEmpty f (BlobURL s), DocstoreURL := keepEmpty f (DocstoreURL s)\<rparr>) (cf_Storage c),
       cf_OIDC := map_option (\<lambda>p. p\<lparr>ClientSecret := keepEmpty f (ClientSecret p)\<rparr>) (cf_OIDC c)\<rparr>"

text \<open>
  A fallible evaluation \<open>r\<close> with the texts \<open>ss\<close> and the value \<open>y\<close>: it succeeds, with \<open>y\<close>,
  iff every text evaluates, and its error is one of theirs.
\<close>

definition evaluates :: "(string \<Rightarrow> string res) \<Rightarrow> string list \<Rightarrow> 'a res \<Rightarrow> 'a \<Rightarrow> bool" where
  "evaluates evalEnv ss r y \<longleftrightarrow>
     (case r of
        Inl err \<Rightarrow> (\<exists>s \<in> set ss. evalEnv s = Inl err)
      | Inr z \<Rightarrow> (\<forall>s \<in> set ss. \<exists>v. evalEnv s = Inr v) \<and> z = y)"

lemma evaluates_done: "evaluates evalEnv [] (Inr y) y"
  by (simp add: evaluates_def)

lemma evaluates_env: "evaluates evalEnv [s] (evalEnv s) (projr (evalEnv s))"
  by (simp add: evaluates_def split: sum.splits)

lemma evaluates_bind:
  "evaluates evalEnv ss r y \<Longrightarrow> evaluates evalEnv ss' (k y) z \<Longrightarrow>
   evaluates evalEnv (ss @ ss') (case r of Inl err \<Rightarrow> Inl err | Inr v \<Rightarrow> k v) z"
  by (auto simp: evaluates_def split: sum.splits)

lemma evaluates_mapRes:
  "(\<And>x. evaluates evalEnv (ss x) (g x) (h x)) \<Longrightarrow>
   evaluates evalEnv (concat (map ss xs)) (mapRes g xs) (map h xs)"
proof (induction xs)
  case Nil
  show ?case by (simp add: evaluates_done)
next
  case (Cons x xs)
  have "evaluates evalEnv (ss x @ concat (map ss xs) @ [])
      (case g x of Inl e \<Rightarrow> Inl e | Inr y \<Rightarrow>
         (case mapRes g xs of Inl e \<Rightarrow> Inl e | Inr ys \<Rightarrow> Inr (y # ys))) (h x # map h xs)"
    by (intro evaluates_bind [OF Cons.prems] evaluates_bind [OF Cons.IH [OF Cons.prems]] evaluates_done)
  then show ?case by simp
qed

lemma evaluates_nonEmpty:
  "evaluates evalEnv (nonEmpty s) (evalNonEmpty evalEnv s) (keepEmpty (\<lambda>s. projr (evalEnv s)) s)"
  by (simp add: evalNonEmpty_def nonEmpty_def keepEmpty_def evaluates_env evaluates_done)

lemma evaluates_git:
  "evaluates evalEnv (gitFields (snd kv)) (evalGit evalEnv kv) (apsnd (substGit (\<lambda>s. projr (evalEnv s))) kv)"
proof (cases kv)
  case (Pair k v)
  have "evaluates evalEnv ([ga_SSHKey v] @ [ga_Token v] @
      map PrivateKey (case ga_GithubApp v of None \<Rightarrow> [] | Some a \<Rightarrow> [a]))
      (evalGit evalEnv (k, v)) (k, substGit (\<lambda>s. projr (evalEnv s)) v)"
  proof (cases "ga_GithubApp v")
    case None
    then show ?thesis
      unfolding evalGit_def prod.case
      by (intro evaluates_bind [OF evaluates_env]) (cases v, simp add: substGit_def evaluates_done)
  next
    case (Some a)
    have "evaluates evalEnv ([ga_SSHKey v] @ [ga_Token v] @ [PrivateKey a] @ [])
        (evalGit evalEnv (k, v)) (k, substGit (\<lambda>s. projr (evalEnv s)) v)"
      unfolding evalGit_def prod.case Some option.case
      by (intro evaluates_bind [OF evaluates_env]) (simp add: substGit_def Some evaluates_done)
    then show ?thesis by (simp add: Some)
  qed
  then show ?thesis by (simp add: Pair gitFields_def)
qed

lemma evaluates_user:
  "evaluates evalEnv [snd kv] (evalUser evalEnv kv) (apsnd (\<lambda>s. projr (evalEnv s)) kv)"
proof (cases kv)
  case (Pair k v)
  have "evaluates evalEnv ([v] @ []) (evalUser evalEnv (k, v)) (k, projr (evalEnv v))"
    unfolding evalUser_def prod.case by (intro evaluates_bind [OF evaluates_env] evaluates_done)
  then show ?thesis by (simp add: Pair)
qed

lemma evaluates_registry:
  "evaluates evalEnv (registryFields (snd kv)) (evalRegistry evalEnv kv)
     (apsnd (substRegistry (\<lambda>s. projr (evalEnv s))) kv)"
proof (cases kv)
  case (Pair k v)
  have "evaluates evalEnv ([cr_Password v] @ [cr_Auth v] @ [cr_IdentityToken v] @ [cr_RegistryToken v] @ [])
      (evalRegistry evalEnv (k, v)) (k, substRegistry (\<lambda>s. projr (evalEnv s)) v)"
    unfolding evalRegistry_def prod.case
    by (intro evaluates_bind [OF evaluates_env]) (simp add: substRegistry_def evaluates_done)
  then show ?thesis by (simp add: Pair registryFields_def)
qed

text \<open>A section of the configuration with two strings, and one with a single string.\<close>

lemma evaluates_TLS:
  "evaluates evalEnv (case t of None \<Rightarrow> [] | Some t \<Rightarrow> nonEmpty (CertPEM t) @ nonEmpty (KeyPEM t) @ [])
     (evalTLS evalEnv t)
     (map_option (\<lambda>t. t\<lparr>CertPEM := keepEmpty (\<lambda>s. projr (evalEnv s)) (CertPEM t),
        KeyPEM := keepEmpty (\<lambda>s. projr (evalEnv s)) (KeyPEM t)\<rparr>) t)"
  unfolding evalTLS_def by (cases t) (simp_all only: option.case option.map evaluates_done evaluates_bind [OF evaluates_nonEmpty])

lemma evaluates_Storage:
  "evaluates evalEnv (case t of None \<Rightarrow> [] | Some s \<Rightarrow> nonEmpty (BlobURL s) @ nonEmpty (DocstoreURL s) @ [])
     (evalStorage evalEnv t)
     (map_option (\<lambda>s. s\<lparr>BlobURL := keepEmpty (\<lambda>s. projr (evalEnv s)) (BlobURL s),
        DocstoreURL := keepEmpty (\<lambda>s. projr (evalEnv s)) (DocstoreURL s)\<rparr>) t)"
  unfolding evalStorage_def by (cases t) (simp_all only: option.case option.map evaluates_done evaluates_bind [OF evaluates_nonEmpty])

lemma evaluates_OIDC:
  "evaluates evalEnv (case t of None \<Rightarrow> [] | Some p \<Rightarrow> nonEmpty (ClientSecret p) @ [])
     (evalOIDC evalEnv t)
     (map_option (\<lambda>p. p\<lparr>ClientSecret := keepEmpty (\<lambda>s. projr (evalEnv s)) (ClientSecret p)\<rparr>) t)"
  unfolding evalOIDC_def by (cases t) (simp_all only: option.case option.map evaluates_done evaluates_bind [OF evaluates_nonEmpty])

lemma concat_singletons: "concat (map (\<lambda>x. [f x]) xs) = map f xs"
  by (induction xs) simp_all

lemma ParseConfig_evaluates:
  assumes "yamlUnmarshal b = Inr c"
  shows "evaluates evalEnv (evaluatedFields c) (ParseConfig yamlUnmarshal evalEnv b)
    (substConfig (\<lambda>s. projr (evalEnv s)) c)"
proof -
  let ?u = "\<lambda>kv :: string \<times> string. [snd kv]"
  have "evaluates evalEnv
     (concat (map (\<lambda>kv. gitFields (snd kv)) (Git (cf_Credentials c))) @ [cf_AdminToken c] @
      concat (map ?u (cf_Users c)) @
      concat (map (\<lambda>kv. registryFields (snd kv)) (ContainerRegistry (cf_Credentials c))) @
      (case cf_TLS c of None \<Rightarrow> [] | Some t \<Rightarrow> nonEmpty (CertPEM t) @ nonEmpty (KeyPEM t) @ []) @
      (case cf_Storage c of None \<Rightarrow> [] | Some s \<Rightarrow> nonEmpty (BlobURL s) @ nonEmpty (DocstoreURL s) @ []) @
      (case cf_OIDC c of None \<Rightarrow> [] | Some p \<Rightarrow> nonEmpty (ClientSecret p) @ []) @ [])
     (ParseConfig yamlUnmarshal evalEnv b) (substConfig (\<lambda>s. projr (evalEnv s)) c)"
    unfolding ParseConfig_def assms sum.case substConfig_def
    by (intro evaluates_bind [OF evaluates_mapRes [OF evaluates_git]] evaluates_bind [OF evaluates_env]
      evaluates_bind [OF evaluates_mapRes [OF evaluates_user]]
      evaluates_bind [OF evaluates_mapRes [OF evaluates_registry]] evaluates_bind [OF evaluates_TLS]
      evaluates_bind [OF evaluates_Storage] evaluates_bind [OF evaluates_OIDC] evaluates_done)
  then show ?thesis by (simp add: evaluatedFields_def concat_singletons comp_def cong: option.case_cong)
qed

text \<open>
  The fields that are not evaluated, in the order of the types.
\<close>

definition verbatim :: "Config \<Rightarrow> string list" where
  "verbatim c =
     concat (map (\<lambda>(k, v). k # (case ga_Basic v of None \<Rightarrow> [] | Some b \<Rightarrow> [bg_Username b, bg_Password b]))
       (Git (cf_Credentials c))) @
     concat (map (\<lambda>(k, v). [k, cr_Username v]) (ContainerRegistry (cf_Credentials c))) @
     concat (map (\<lambda>(k, m). [k, mc_Remote m, mc_Path m] @ mc_Filters m) (cf_Modules c)) @
     concat (map (\<lambda>(k, p). [k, pc_Image p, pc_Default p]) (cf_Plugins c)) @
     map fst (cf_Users c) @
     (case cf_TLS c of None \<Rightarrow> [] | Some t \<Rightarrow> [CertFile t, KeyFile t]) @
     (case cf_OIDC c of None \<Rightarrow> [] | Some p \<Rightarrow> [Issuer p, ClientID p] @ Scopes p @ [UsernameClaim p]) @
     [cf_Host c, cf_Address c, cf_LogLevel c, cf_CacheDir c, cf_TokenTTL c]"

lemma substConfig_verbatim: "verbatim (substConfig f c) = verbatim c"
  by (simp add: verbatim_def substConfig_def substGit_def substRegistry_def comp_def case_prod_unfold
    split: option.split)

text \<open>
  C23. What \<open>ParseConfig\<close> substitutes.  When the file decodes to \<open>c\<close> it returns \<open>c\<close> with exactly these
  fields replaced by their evaluation: of git credentials the SSH key, the token and the private key of a
  GitHub app; the admin token; the users' passwords; of a container registry the password, the auth, identity
  and registry tokens, but not the user name, although the README configures it as \<open>${GHCR_USER}\<close>; the PEM texts
  of TLS; the storage URLs; the OIDC client secret.  Every other text, with the user name and password of basic
  git credentials, is returned as it is in the file.  If one of the substituted fields does not
  evaluate there is no configuration but the error of such a field.
\<close>

theorem ParseConfig_substitutes:
  assumes "yamlUnmarshal b = Inr c"
  shows "case ParseConfig yamlUnmarshal evalEnv b of
      Inr d \<Rightarrow> (\<forall>s \<in> set (evaluatedFields c). \<exists>v. evalEnv s = Inr v) \<and>
        d = substConfig (\<lambda>s. projr (evalEnv s)) c \<and> verbatim d = verbatim c \<and>
        map (cr_Username \<circ> snd) (ContainerRegistry (cf_Credentials d)) =
          map (cr_Username \<circ> snd) (ContainerRegistry (cf_Credentials c)) \<and>
        map (ga_Basic \<circ> snd) (Git (cf_Credentials d)) = map (ga_Basic \<circ> snd) (Git (cf_Credentials c))
    | Inl err \<Rightarrow> \<exists>s \<in> set (evaluatedFields c). evalEnv s = Inl err"
proof -
  let ?d = "substConfig (\<lambda>s. projr (evalEnv s)) c"
  have "map (cr_Username \<circ> snd) (ContainerRegistry (cf_Credentials ?d)) =
      map (cr_Username \<circ> snd) (ContainerRegistry (cf_Credentials c))"
    "map (ga_Basic \<circ> snd) (Git (cf_Credentials ?d)) = map (ga_Basic \<circ> snd) (Git (cf_Credentials c))"
    by (simp_all add: substConfig_def substRegistry_def substGit_def comp_def)
  then show ?thesis
    using ParseConfig_evaluates [of yamlUnmarshal b c evalEnv, OF assms] substConfig_verbatim
    by (auto simp: evaluates_def split: sum.splits)
qed

text \<open>
  A configuration with an admin token, one user and the registry of the README, in an environment that
  knows \<open>A\<close> only.
\<close>

definition exampleConfig :: "string \<Rightarrow> Config" where
  "exampleConfig t =
     \<lparr>cf_Credentials = \<lparr>Git = [], ContainerRegistry = [(''ghcr.io'',
        \<lparr>cr_Username = ''$A'', cr_Password = t, cr_Auth = [], cr_IdentityToken = [], cr_RegistryToken = []\<rparr>)]\<rparr>,
      cf_Modules = [], cf_Plugins = [],
      cf_Users = [(''bob'', t)], cf_TLS = None, cf_Storage = None, cf_OIDC = None,
      cf_Host = ''pbr'', cf_Address = [], cf_LogLevel = [], cf_CacheDir = ''c'',
      cf_AdminToken = ''$A'', cf_NoLogin = False, cf_TokenTTL = []\<rparr>"

definition exampleEnv :: "string \<Rightarrow> string res" where
  "exampleEnv s = (if s = ''$A'' then Inr ''secret'' else if s = ''$B'' then Inl (Errorf ''unset'') else Inr s)"

lemma ParseConfig_substitutes_witness:
  "ParseConfig (\<lambda>b. Inr (exampleConfig b)) exampleEnv ''$A'' =
      Inr ((exampleConfig ''secret'')\<lparr>cf_AdminToken := ''secret''\<rparr>) \<and>
   ParseConfig (\<lambda>b. Inr (exampleConfig b)) exampleEnv ''$B'' = Inl (Errorf ''unset'')"
  using ParseConfig_substitutes [of "\<lambda>b. Inr (exampleConfig b)" "''$A''" "exampleConfig ''$A''" exampleEnv]
    ParseConfig_substitutes [of "\<lambda>b. Inr (exampleConfig b)" "''$B''" "exampleConfig ''$B''" exampleEnv]
  by (auto simp: evaluatedFields_def registryFields_def exampleConfig_def exampleEnv_def substConfig_def
    substRegistry_def split: sum.splits if_splits)

end
