(* ===== verification/Auth.thy ===== *)
theory Auth
  imports Config Util "HOL-Library.AList"
begin

text \<open>
  Authentication (\<open>service.go\<close>, \<open>authn.go\<close> of \<open>internal/service\<close>): the table of tokens
  that \<open>New\<close> fills from the configuration, the interceptor that checks the token of each request, the
  replacement of a user's token at a login, and the handlers of the current user.  The table maps a
  token to a pointer to its \<open>tokenInfo\<close>, which concurrent requests share; the pointers are natural
  numbers into \<open>infos\<close>.  A step relation interleaves the critical sections of any number of requests
  with logins and the passing of time.
\<close>

section \<open>State\<close>

record tokenInfo =
  Username :: string
  ExpiresAt :: time

definition IsExpired :: "tokenInfo \<Rightarrow> time \<Rightarrow> bool" where
  "IsExpired t now = (if ExpiresAt t = 0 then False else now > ExpiresAt t)"

text \<open>The fields \<open>tokens\<close> and \<open>users\<close> of \<open>Service\<close>, and the store of the \<open>tokenInfo\<close> structs.\<close>

record auth_state =
  tokens :: "string \<Rightarrow> nat option"
  infos :: "nat \<Rightarrow> tokenInfo option"
  nextInfo :: nat
  users :: "string \<Rightarrow> string option"

text \<open>\<open>svc.tokens[token] = &info\<close>.\<close>

definition putToken :: "string \<Rightarrow> tokenInfo \<Rightarrow> auth_state \<Rightarrow> auth_state" where
  "putToken token info st =
     st\<lparr>tokens := (tokens st)(token \<mapsto> nextInfo st),
        infos := (infos st)(nextInfo st \<mapsto> info), nextInfo := Suc (nextInfo st)\<rparr>"

definition dropToken :: "string \<Rightarrow> auth_state \<Rightarrow> auth_state" where
  "dropToken token st = st\<lparr>tokens := (tokens st)(token := None)\<rparr>"

section \<open>New\<close>

text \<open>
  \<open>svc.users\<close> after the configured users are copied and the admin added; \<open>New\<close> then ranges over
  that map, in any order \<open>us\<close>, and makes each user's token one that never expires.
\<close>

definition svcUsers :: "Config \<Rightarrow> (string \<times> string) list" where
  "svcUsers c =
     (if cf_AdminToken c \<noteq> [] then AList.update ''admin'' (cf_AdminToken c) (cf_Users c) else cf_Users c)"

fun addUsers :: "(string \<times> string) list \<Rightarrow> auth_state \<Rightarrow> auth_state" where
  "addUsers [] st = st"
| "addUsers ((k, v) # us) st = addUsers us (putToken v \<lparr>Username = k, ExpiresAt = 0\<rparr> st)"

definition newAuth :: "Config \<Rightarrow> (string \<times> string) list \<Rightarrow> auth_state" where
  "newAuth c us =
     (let st = \<lparr>tokens = Map.empty, infos = Map.empty, nextInfo = 0, users = map_of (svcUsers c)\<rparr>;
          st1 = (if cf_AdminToken c \<noteq> []
                 then putToken (cf_AdminToken c) \<lparr>Username = ''admin'', ExpiresAt = 0\<rparr> st else st)
      in addUsers us st1)"

section \<open>The interceptor\<close>

definition authenticationTokenPrefix :: string where
  "authenticationTokenPrefix = ''Bearer ''"

definition unauthenticated :: "string \<Rightarrow> goerr" where
  "unauthenticated msg = ConnectErr CodeUnauthenticated (Some (Errorf msg))"

definition authHeader :: "string \<Rightarrow> string res" where
  "authHeader hdr =
     (if hdr = [] then Inl (unauthenticated ''no token provided'')
      else if \<not> HasPrefix hdr authenticationTokenPrefix then Inl (unauthenticated ''invalid auth header'')
      else let tokenString = TrimSpace (TrimPrefix hdr authenticationTokenPrefix) in
        if tokenString = [] then Inl (unauthenticated ''token missing'') else Inr tokenString)"

definition infoAt :: "auth_state \<Rightarrow> nat \<Rightarrow> tokenInfo" where
  "infoAt st r = (case infos st r of Some i \<Rightarrow> i | None \<Rightarrow> \<lparr>Username = [], ExpiresAt = 0\<rparr>)"

text \<open>\<open>info.ExpiresAt = time.Now().Add(svc.conf.GetTokenTTL())\<close> for a token that can expire.\<close>

definition slide ::
  "(64 word \<Rightarrow> 64 word \<Rightarrow> nat \<Rightarrow> 64 word) \<Rightarrow> Config \<Rightarrow> time \<Rightarrow> nat \<Rightarrow> auth_state \<Rightarrow> auth_state" where
  "slide frac c now r st =
     (if ExpiresAt (infoAt st r) \<noteq> 0
      then st\<lparr>infos := (infos st)
        (r \<mapsto> (infoAt st r)\<lparr>ExpiresAt := now + sint (GetTokenTTL frac (cf_TokenTTL c))\<rparr>)\<rparr>
      else st)"

text \<open>\<open>contextWithUser\<close> and \<open>userFromContext\<close>: the context carries the user's name, if any.\<close>

definition contextWithUser :: "string \<Rightarrow> string option" where
  "contextWithUser user = Some user"

definition userFromContext :: "string option \<Rightarrow> string" where
  "userFromContext ctx = (case ctx of Some user \<Rightarrow> user | None \<Rightarrow> [])"

text \<open>A request on its own; \<open>now1\<close> and \<open>now2\<close> are its two readings of the clock.\<close>

definition authInterceptor ::
  "(64 word \<Rightarrow> 64 word \<Rightarrow> nat \<Rightarrow> 64 word) \<Rightarrow> Config \<Rightarrow> (string option \<Rightarrow> 'a res) \<Rightarrow> time \<Rightarrow> time \<Rightarrow>
   string \<Rightarrow> auth_state \<Rightarrow> 'a res \<times> auth_state" where
  "authInterceptor frac c next now1 now2 hdr st =
     (case authHeader hdr of
        Inl e \<Rightarrow> (Inl e, st)
      | Inr tokenString \<Rightarrow>
          (case tokens st tokenString of
             None \<Rightarrow> (Inl (unauthenticated ''invalid token''), st)
           | Some info \<Rightarrow>
               if IsExpired (infoAt st info) now1
               then (Inl (unauthenticated ''token expired''), dropToken tokenString st)
               else (next (contextWithUser (Username (infoAt st info))), slide frac c now2 info st)))"

section \<open>Login\<close>

text \<open>The critical section of \<open>handleDeviceToken\<close>: the new token replaces the user's old one.\<close>

definition storeToken :: "string \<Rightarrow> string \<Rightarrow> time \<Rightarrow> auth_state \<Rightarrow> auth_state" where
  "storeToken username pbrToken expiresAt st =
     (let st1 = (case users st username of Some oldToken \<Rightarrow> dropToken oldToken st | None \<Rightarrow> st);
          st2 = putToken pbrToken \<lparr>Username = username, ExpiresAt = expiresAt\<rparr> st1
      in st2\<lparr>users := (users st2)(username \<mapsto> pbrToken)\<rparr>)"

section \<open>The current user\<close>

record User =
  us_Id :: string
  us_Username :: string
  us_CreateTime :: time
  us_UpdateTime :: time
  us_Deactivated :: bool
  us_VerificationStatus :: string
  us_UserType :: string

definition generateUserID :: "string \<Rightarrow> string" where
  "generateUserID username = EncodeToString (take 16 (Sum256 username))"

definition GetCurrentUser :: "time \<Rightarrow> time \<Rightarrow> string option \<Rightarrow> User res" where
  "GetCurrentUser now1 now2 ctx =
     (let username = userFromContext ctx in
      if username = [] then Inl (ConnectErr CodeUnauthenticated None)
      else Inr \<lparr>us_Id = generateUserID username, us_Username = username, us_CreateTime = now1,
             us_UpdateTime = now2, us_Deactivated = False,
             us_VerificationStatus = ''UNSPECIFIED'', us_UserType = ''PERSONAL''\<rparr>)"

definition GetCurrentUserSubject :: "string option \<Rightarrow> string res" where
  "GetCurrentUserSubject ctx =
     (let username = userFromContext ctx in
      if username = [] then Inl (ConnectErr CodeUnauthenticated None) else Inr username)"

section \<open>Concurrent requests\<close>

text \<open>
  How far a request has come: it has looked its token up; it has found it expired and not yet
  removed it; it has found it live and not yet extended it; it is admitted as a user; it is
  rejected.  Every other line of the interceptor works on the request's own variables.
\<close>

datatype phase =
    Looked string nat
  | Expired string
  | Live string nat
  | Admitted string string
  | Rejected goerr

record auth_sys =
  sys_auth :: auth_state
  sys_now :: time
  sys_reqs :: "nat \<Rightarrow> phase option"

datatype auth_event =
    Tick
  | Arrive nat string
  | Check nat
  | Delete nat
  | Slide nat
  | Login string string

definition setReq :: "nat \<Rightarrow> phase \<Rightarrow> auth_sys \<Rightarrow> auth_sys" where
  "setReq i p s = s\<lparr>sys_reqs := (sys_reqs s)(i \<mapsto> p)\<rparr>"

definition lookupPhase :: "auth_state \<Rightarrow> string \<Rightarrow> phase" where
  "lookupPhase st hdr =
     (case authHeader hdr of
        Inl e \<Rightarrow> Rejected e
      | Inr tokenString \<Rightarrow>
          (case tokens st tokenString of
             None \<Rightarrow> Rejected (unauthenticated ''invalid token'')
           | Some info \<Rightarrow> Looked tokenString info))"

inductive auth_step ::
  "(64 word \<Rightarrow> 64 word \<Rightarrow> nat \<Rightarrow> 64 word) \<Rightarrow> Config \<Rightarrow> auth_sys \<Rightarrow> auth_event \<Rightarrow> auth_sys \<Rightarrow> bool"
  for frac c where
  tick: "sys_now s \<le> now \<Longrightarrow> auth_step frac c s Tick (s\<lparr>sys_now := now\<rparr>)"
| arrive: "sys_reqs s i = None \<Longrightarrow>
    auth_step frac c s (Arrive i hdr) (setReq i (lookupPhase (sys_auth s) hdr) s)"
| check: "sys_reqs s i = Some (Looked tok r) \<Longrightarrow>
    auth_step frac c s (Check i)
      (setReq i (if IsExpired (infoAt (sys_auth s) r) (sys_now s) then Expired tok else Live tok r) s)"
| delete: "sys_reqs s i = Some (Expired tok) \<Longrightarrow>
    auth_step frac c s (Delete i)
      (setReq i (Rejected (unauthenticated ''token expired'')) (s\<lparr>sys_auth := dropToken tok (sys_auth s)\<rparr>))"
| slide: "sys_reqs s i = Some (Live tok r) \<Longrightarrow>
    auth_step frac c s (Slide i)
      (setReq i (Admitted tok (Username (infoAt (sys_auth s) r)))
        (s\<lparr>sys_auth := slide frac c (sys_now s) r (sys_auth s)\<rparr>))"
| login: "t \<le> sys_now s \<Longrightarrow>
    auth_step frac c s (Login username pbrToken)
      (s\<lparr>sys_auth := storeToken username pbrToken (t + sint (GetTokenTTL frac (cf_TokenTTL c))) (sys_auth s)\<rparr>)"

inductive auth_steps ::
  "(64 word \<Rightarrow> 64 word \<Rightarrow> nat \<Rightarrow> 64 word) \<Rightarrow> Config \<Rightarrow> auth_sys \<Rightarrow> auth_event list \<Rightarrow> auth_sys \<Rightarrow> bool"
  for frac c where
  none: "auth_steps frac c s [] s"
| more: "auth_steps frac c s es s1 \<Longrightarrow> auth_step frac c s1 e s2 \<Longrightarrow> auth_steps frac c s (es @ [e]) s2"

inductive_cases auth_loginE: "auth_step frac c s (Login u tok) s'"
inductive_cases auth_arriveE: "auth_step frac c s (Arrive i hdr) s'"

text \<open>The server starts with the table of \<open>New\<close> for some order of the users, and without requests.\<close>

definition auth_init :: "Config \<Rightarrow> auth_sys \<Rightarrow> bool" where
  "auth_init c s \<longleftrightarrow>
     (\<exists>us. mset us = mset (svcUsers c) \<and> sys_auth s = newAuth c us) \<and> sys_reqs s = Map.empty"


section \<open>The table of tokens\<close>

text \<open>
  Every entry of the table is allocated and is the current token of its user.
\<close>

definition auth_ok :: "auth_state \<Rightarrow> bool" where
  "auth_ok st \<longleftrightarrow>
     (\<forall>tok r. tokens st tok = Some r \<longrightarrow>
        r < nextInfo st \<and> users st (Username (infoAt st r)) = Some tok)"

lemma auth_okD:
  "auth_ok st \<Longrightarrow> tokens st tok = Some r \<Longrightarrow> r < nextInfo st"
  "auth_ok st \<Longrightarrow> tokens st tok = Some r \<Longrightarrow> users st (Username (infoAt st r)) = Some tok"
  by (auto simp: auth_ok_def)

lemma infoAt_putToken:
  "infoAt (putToken tok info st) r = (if r = nextInfo st then info else infoAt st r)"
  by (simp add: infoAt_def putToken_def)

lemma infoAt_dropToken [simp]: "infoAt (dropToken tok st) r = infoAt st r"
  by (simp add: infoAt_def dropToken_def)

lemma users_updates [simp]:
  "users (putToken tok info st) = users st"
  "users (dropToken tok st) = users st"
  "users (slide frac c now r st) = users st"
  "tokens (slide frac c now r st) = tokens st"
  "nextInfo (slide frac c now r st) = nextInfo st"
  "nextInfo (dropToken tok st) = nextInfo st"
  "nextInfo (putToken tok info st) = Suc (nextInfo st)"
  "infoAt (st\<lparr>users := us\<rparr>) q = infoAt st q"
  by (simp_all add: putToken_def dropToken_def slide_def infoAt_def)

lemma Username_slide [simp]: "Username (infoAt (slide frac c now r st) q) = Username (infoAt st q)"
  by (simp add: slide_def infoAt_def)

lemma tokens_putToken [simp]: "tokens (putToken tok info st) = (tokens st)(tok \<mapsto> nextInfo st)"
  by (simp add: putToken_def)

lemma tokens_dropToken [simp]: "tokens (dropToken tok st) = (tokens st)(tok := None)"
  by (simp add: dropToken_def)

lemma auth_ok_putToken:
  "auth_ok st \<Longrightarrow> users st (Username info) = Some tok \<Longrightarrow> auth_ok (putToken tok info st)"
  by (fastforce simp: auth_ok_def infoAt_putToken less_Suc_eq)

lemma auth_ok_dropToken: "auth_ok st \<Longrightarrow> auth_ok (dropToken tok st)"
  by (auto simp: auth_ok_def)

lemma auth_ok_slide: "auth_ok st \<Longrightarrow> auth_ok (slide frac c now r st)"
  by (simp add: auth_ok_def)

lemma users_storeToken [simp]: "users (storeToken u tok e st) = (users st)(u \<mapsto> tok)"
  by (simp add: storeToken_def Let_def split: option.splits)

lemma nextInfo_storeToken [simp]: "nextInfo (storeToken u tok e st) = Suc (nextInfo st)"
  by (simp add: storeToken_def Let_def split: option.splits)

lemma infoAt_storeToken:
  "infoAt (storeToken u tok e st) r =
     (if r = nextInfo st then \<lparr>Username = u, ExpiresAt = e\<rparr> else infoAt st r)"
  by (simp add: storeToken_def Let_def infoAt_putToken split: option.splits)

text \<open>Whatever the table holds for a user is gone when his next token is stored.\<close>

lemma tokens_storeToken:
  "tokens (storeToken u tok e st) =
     (case users st u of Some old \<Rightarrow> (tokens st)(old := None) | None \<Rightarrow> tokens st)(tok \<mapsto> nextInfo st)"
  by (simp add: storeToken_def Let_def split: option.splits)

lemma auth_ok_storeToken:
  assumes "auth_ok st"
  shows "auth_ok (storeToken u tok e st)"
  unfolding auth_ok_def
proof (intro allI impI)
  fix t r
  assume t: "tokens (storeToken u tok e st) t = Some r"
  show "r < nextInfo (storeToken u tok e st) \<and>
      users (storeToken u tok e st) (Username (infoAt (storeToken u tok e st) r)) = Some t"
  proof (cases "t = tok")
    case True
    then have "r = nextInfo st" using t by (simp add: tokens_storeToken)
    then show ?thesis using True by (simp add: infoAt_storeToken)
  next
    case False
    then have old: "tokens st t = Some r" "users st u \<noteq> Some t"
      using t by (auto simp: tokens_storeToken split: option.splits if_splits)
    then have "r < nextInfo st" "users st (Username (infoAt st r)) = Some t"
      using auth_okD [OF assms] by auto
    then show ?thesis using old by (auto simp: infoAt_storeToken)
  qed
qed

lemma auth_ok_addUsers:
  "auth_ok st \<Longrightarrow> \<forall>(k, v) \<in> set us. users st k = Some v \<Longrightarrow> auth_ok (addUsers us st)"
proof (induction us arbitrary: st)
  case Nil
  then show ?case by simp
next
  case (Cons kv us)
  then show ?case by (cases kv) (auto intro!: Cons.IH auth_ok_putToken)
qed

lemma users_addUsers [simp]: "users (addUsers us st) = users st"
  by (induction us st rule: addUsers.induct) simp_all

lemma distinct_svcUsers: "distinct (map fst (cf_Users c)) \<Longrightarrow> distinct (map fst (svcUsers c))"
  by (simp add: svcUsers_def distinct_update)

lemma users_newAuth [simp]: "users (newAuth c us) = map_of (svcUsers c)"
  by (simp add: newAuth_def Let_def)

lemma auth_ok_newAuth:
  assumes "distinct (map fst (cf_Users c))" "mset us = mset (svcUsers c)"
  shows "auth_ok (newAuth c us)"
proof -
  have "\<forall>(k, v) \<in> set us. map_of (svcUsers c) k = Some v"
    using distinct_svcUsers [OF assms(1)] mset_eq_setD [OF assms(2)] by auto
  moreover have "cf_AdminToken c \<noteq> [] \<Longrightarrow> map_of (svcUsers c) ''admin'' = Some (cf_AdminToken c)"
    by (simp add: svcUsers_def update_conv)
  ultimately show ?thesis
    unfolding newAuth_def Let_def
    by (intro auth_ok_addUsers) (auto intro!: auth_ok_putToken simp: auth_ok_def infoAt_putToken)
qed

section \<open>The contract of a login\<close>

text \<open>
  What the login handler relies on: \<open>store\<close> records a user's token until it expires, \<open>user\<close> is the user a token
  stands for at a time, and \<open>current\<close> the token recorded for a user.
\<close>

locale sessions =
  fixes store :: "string \<Rightarrow> string \<Rightarrow> time \<Rightarrow> 's \<Rightarrow> 's"
    and user :: "'s \<Rightarrow> time \<Rightarrow> string \<Rightarrow> string option"
    and current :: "'s \<Rightarrow> string \<Rightarrow> string option"
  assumes store_current: "current (store u tok e st) = (current st)(u \<mapsto> tok)"
    and store_user: "now \<le> e \<Longrightarrow> user (store u tok e st) now tok = Some u"
    and store_revokes: "current st u = Some old \<Longrightarrow> old \<noteq> tok \<Longrightarrow> user (store u tok e st) now old = None"
begin

lemma second_login:
  assumes "tok \<noteq> tok'" "now \<le> e'"
  shows "user (store u tok' e' (store u tok e st)) now tok = None"
    and "user (store u tok' e' (store u tok e st)) now tok' = Some u"
  using assms store_revokes [of "store u tok e st" u tok tok'] store_current store_user by simp_all

end

text \<open>The table of tokens keeps it; a token that has expired stands for nobody.\<close>

definition tokenUser :: "auth_state \<Rightarrow> time \<Rightarrow> string \<Rightarrow> string option" where
  "tokenUser st now tok =
     (case tokens st tok of
        None \<Rightarrow> None
      | Some r \<Rightarrow> if IsExpired (infoAt st r) now then None else Some (Username (infoAt st r)))"

interpretation table: sessions storeToken tokenUser users
  by unfold_locales (auto simp: tokenUser_def tokens_storeToken infoAt_storeToken IsExpired_def)

lemma authInterceptor_user:
  "authHeader hdr = Inr tok \<Longrightarrow> tokenUser st now1 tok = Some u \<Longrightarrow>
   fst (authInterceptor frac c next now1 now2 hdr st) = next (Some u)"
  by (auto simp: authInterceptor_def tokenUser_def contextWithUser_def split: option.splits if_splits)

section \<open>Invariants of the steps\<close>

lemma setReq_simps [simp]:
  "sys_auth (setReq i p s) = sys_auth s"
  "sys_reqs (setReq i p s) = (sys_reqs s)(i \<mapsto> p)"
  "sys_now (setReq i p s) = sys_now s"
  by (simp_all add: setReq_def)

fun phaseRef :: "phase \<Rightarrow> nat option" where
  "phaseRef (Looked tok r) = Some r"
| "phaseRef (Live tok r) = Some r"
| "phaseRef _ = None"

definition sys_ok :: "auth_sys \<Rightarrow> bool" where
  "sys_ok s \<longleftrightarrow> auth_ok (sys_auth s) \<and>
     (\<forall>i p r. sys_reqs s i = Some p \<longrightarrow> phaseRef p = Some r \<longrightarrow> r < nextInfo (sys_auth s))"

lemma lookupPhase_ref: "phaseRef (lookupPhase st hdr) = Some r \<Longrightarrow> \<exists>tok. tokens st tok = Some r"
  by (auto simp: lookupPhase_def split: sum.splits option.splits)

lemma sys_ok_step: "auth_step frac c s e s' \<Longrightarrow> sys_ok s \<Longrightarrow> sys_ok s'"
proof (induction rule: auth_step.induct)
  case (arrive s i hdr)
  then show ?case using lookupPhase_ref auth_okD(1) by (fastforce simp: sys_ok_def)
next
  case (check s i tok r)
  then show ?case by (fastforce simp: sys_ok_def split: if_splits)
next
  case (delete s i tok)
  then show ?case by (fastforce simp: sys_ok_def auth_ok_dropToken)
next
  case (slide s i tok r)
  then show ?case by (fastforce simp: sys_ok_def auth_ok_slide)
next
  case (login t s username pbrToken)
  then show ?case by (fastforce simp: sys_ok_def auth_ok_storeToken intro: less_SucI)
qed (auto simp: sys_ok_def)

lemma sys_ok_steps: "auth_steps frac c s es s' \<Longrightarrow> sys_ok s \<Longrightarrow> sys_ok s'"
  by (induction rule: auth_steps.induct) (auto intro: sys_ok_step)

lemma sys_ok_init: "auth_init c s \<Longrightarrow> distinct (map fst (cf_Users c)) \<Longrightarrow> sys_ok s"
  by (auto simp: auth_init_def sys_ok_def auth_ok_newAuth)

text \<open>A server with an admin and the user \<open>bob\<close>, who logs in and then uses his new token.\<close>

definition exampleAuth :: auth_state where
  "exampleAuth = newAuth (exampleConfig ''b'') [(''bob'', ''b''), (''admin'', ''$A'')]"

definition exampleSys :: "auth_state \<Rightarrow> time \<Rightarrow> (nat \<Rightarrow> phase option) \<Rightarrow> auth_sys" where
  "exampleSys st now reqs = \<lparr>sys_auth = st, sys_now = now, sys_reqs = reqs\<rparr>"

lemma exampleInit: "auth_init (exampleConfig ''b'') (exampleSys exampleAuth 0 Map.empty)"
  by (auto simp: auth_init_def exampleSys_def exampleAuth_def svcUsers_def exampleConfig_def
    intro!: exI [of _ "[(''bob'', ''b''), (''admin'', ''$A'')]"])

lemma exampleTTL: "sint (GetTokenTTL (\<lambda>_ _ _. 0) []) = 604800000000000"
  by code_simp

lemma exampleHeader: "authHeader ''Bearer n'' = Inr ''n''"
  by code_simp

lemma exampleLogin:
  "auth_step (\<lambda>_ _ _. 0) (exampleConfig ''b'') (exampleSys exampleAuth 0 Map.empty)
     (Login ''bob'' ''n'') (exampleSys (storeToken ''bob'' ''n'' 604800000000000 exampleAuth) 0 Map.empty)"
  using auth_step.login [of 0 "exampleSys exampleAuth 0 Map.empty" "\<lambda>_ _ _. 0" "exampleConfig ''b''" "''bob''" "''n''"]
    exampleTTL by (simp add: exampleSys_def exampleConfig_def)

lemma exampleRun:
  "auth_steps (\<lambda>_ _ _. 0) (exampleConfig ''b'')
     (exampleSys (storeToken ''bob'' ''n'' 604800000000000 exampleAuth) 0 Map.empty)
     ((([] @ [Arrive 0 ''Bearer n'']) @ [Check 0]) @ [Slide 0])
     (exampleSys (slide (\<lambda>_ _ _. 0) (exampleConfig ''b'') 0 (nextInfo exampleAuth)
        (storeToken ''bob'' ''n'' 604800000000000 exampleAuth)) 0 [0 \<mapsto> Admitted ''n'' ''bob''])"
proof -
  let ?st = "storeToken ''bob'' ''n'' 604800000000000 exampleAuth"
  let ?r = "nextInfo exampleAuth"
  have "lookupPhase ?st ''Bearer n'' = Looked ''n'' ?r"
    by (simp add: lookupPhase_def exampleHeader tokens_storeToken)
  then have "auth_step (\<lambda>_ _ _. 0) (exampleConfig ''b'') (exampleSys ?st 0 Map.empty) (Arrive 0 ''Bearer n'')
      (exampleSys ?st 0 [0 \<mapsto> Looked ''n'' ?r])"
    using auth_step.arrive [of "exampleSys ?st 0 Map.empty" 0 "\<lambda>_ _ _. 0" "exampleConfig ''b''" "''Bearer n''"]
    by (simp add: exampleSys_def setReq_def)
  moreover have "auth_step (\<lambda>_ _ _. 0) (exampleConfig ''b'') (exampleSys ?st 0 [0 \<mapsto> Looked ''n'' ?r]) (Check 0)
      (exampleSys ?st 0 [0 \<mapsto> Live ''n'' ?r])"
    using auth_step.check [of "exampleSys ?st 0 [0 \<mapsto> Looked ''n'' ?r]" 0 "''n''" ?r "\<lambda>_ _ _. 0" "exampleConfig ''b''"]
    by (simp add: exampleSys_def setReq_def IsExpired_def infoAt_storeToken)
  moreover have "auth_step (\<lambda>_ _ _. 0) (exampleConfig ''b'') (exampleSys ?st 0 [0 \<mapsto> Live ''n'' ?r]) (Slide 0)
      (exampleSys (slide (\<lambda>_ _ _. 0) (exampleConfig ''b'') 0 ?r ?st) 0 [0 \<mapsto> Admitted ''n'' ''bob''])"
    using auth_step.slide [of "exampleSys ?st 0 [0 \<mapsto> Live ''n'' ?r]" 0 "''n''" ?r "\<lambda>_ _ _. 0" "exampleConfig ''b''"]
    by (simp add: exampleSys_def setReq_def infoAt_storeToken)
  ultimately show ?thesis
    by (rule auth_steps.more [OF auth_steps.more [OF auth_steps.more [OF auth_steps.none]]])
qed

text \<open>
  C20. Whatever requests and logins are interleaved, no user has two tokens: two tokens in the table with
  the same user are the same token, which is the one recorded for that user.
\<close>

theorem one_token_per_user:
  assumes "distinct (map fst (cf_Users c))" "auth_init c s" "auth_steps frac c s es s'"
    and "tokens (sys_auth s') t1 = Some r1" "tokens (sys_auth s') t2 = Some r2"
    and "Username (infoAt (sys_auth s') r1) = Username (infoAt (sys_auth s') r2)"
  shows "t1 = t2 \<and> users (sys_auth s') (Username (infoAt (sys_auth s') r1)) = Some t1"
proof -
  have "auth_ok (sys_auth s')"
    using sys_ok_steps [OF assms(3)] sys_ok_init [OF assms(2,1)] by (simp add: sys_ok_def)
  then show ?thesis using auth_okD(2) assms(4,5,6) by (metis option.inject)
qed

lemma one_token_per_user_witness:
  "users (sys_auth (exampleSys (storeToken ''bob'' ''n'' 604800000000000 exampleAuth) 0 Map.empty)) ''bob'' = Some ''n''"
proof -
  have login: "auth_step (\<lambda>_ _ _. 0) (exampleConfig ''b'') (exampleSys exampleAuth 0 Map.empty)
      (Login ''bob'' ''n'') (exampleSys (storeToken ''bob'' ''n'' 604800000000000 exampleAuth) 0 Map.empty)"
    by (rule exampleLogin)
  show ?thesis
    using one_token_per_user [OF _ exampleInit auth_steps.more [OF auth_steps.none login], of "''n''" _ "''n''"]
    by (simp add: exampleConfig_def exampleSys_def tokens_storeToken infoAt_storeToken)
qed

section \<open>Logins\<close>

text \<open>
  After a login of \<open>u\<close> with \<open>tok\<close>, with \<open>hs\<close> the requests that arrived since: \<open>tok\<close> is still the
  token of \<open>u\<close>, and a request that goes on as \<open>u\<close> carries it in its header.
\<close>

fun phaseUser :: "auth_state \<Rightarrow> phase \<Rightarrow> (string \<times> string) option" where
  "phaseUser st (Looked tok r) = Some (tok, Username (infoAt st r))"
| "phaseUser st (Live tok r) = Some (tok, Username (infoAt st r))"
| "phaseUser st (Admitted tok u) = Some (tok, u)"
| "phaseUser st _ = None"

definition sinceLogin :: "string \<Rightarrow> string \<Rightarrow> auth_event list \<Rightarrow> auth_sys \<Rightarrow> bool" where
  "sinceLogin u tok es s \<longleftrightarrow>
     sys_ok s \<and> users (sys_auth s) u = Some tok \<and>
     (\<forall>i hdr. Arrive i hdr \<in> set es \<longrightarrow> (\<exists>p. sys_reqs s i = Some p \<and>
        (\<forall>t. phaseUser (sys_auth s) p = Some (t, u) \<longrightarrow> t = tok \<and> authHeader hdr = Inr tok)))"

lemma sinceLogin_arrived:
  "sinceLogin u tok es s \<Longrightarrow> Arrive i hdr \<in> set es \<Longrightarrow> sys_reqs s i = Some p \<Longrightarrow>
   phaseUser (sys_auth s) p = Some (t, u) \<Longrightarrow> t = tok \<and> authHeader hdr = Inr tok"
  by (fastforce simp: sinceLogin_def)

lemma phaseUser_lookup:
  assumes "auth_ok st" "phaseUser st (lookupPhase st hdr) = Some (t, u)"
  shows "authHeader hdr = Inr t \<and> users st u = Some t"
  using assms auth_okD(2) by (fastforce simp: lookupPhase_def split: sum.splits option.splits)

lemma phaseUser_infos:
  assumes "\<And>r. phaseRef p = Some r \<Longrightarrow> Username (infoAt st' r) = Username (infoAt st r)"
  shows "phaseUser st' p = phaseUser st p"
  using assms by (cases p) auto

lemma Username_step:
  assumes "auth_step frac c s e s'" "r < nextInfo (sys_auth s)"
  shows "Username (infoAt (sys_auth s') r) = Username (infoAt (sys_auth s) r)"
  using assms by (induction rule: auth_step.induct) (auto simp: infoAt_storeToken)

lemma phase_step:
  assumes "auth_step frac c s e s'" "sys_ok s" "sys_reqs s j = Some p"
  shows "\<exists>p'. sys_reqs s' j = Some p' \<and>
    (phaseUser (sys_auth s') p' = phaseUser (sys_auth s) p \<or> phaseUser (sys_auth s') p' = None)"
proof -
  have ref: "r < nextInfo (sys_auth s)" if "phaseRef p = Some r" for r
    using assms(2,3) that by (auto simp: sys_ok_def)
  have same: "phaseUser (sys_auth s') p = phaseUser (sys_auth s) p"
    by (rule phaseUser_infos) (simp add: Username_step [OF assms(1)] ref)
  show ?thesis
  proof (cases "sys_reqs s' j = Some p")
    case True
    then show ?thesis using same by blast
  next
    case False
    show ?thesis
      using assms(1) False assms(3) by (cases rule: auth_step.cases) (auto split: if_splits)
  qed
qed

lemma users_step:
  assumes "auth_step frac c s e s'" "\<forall>t. e \<noteq> Login u t"
  shows "users (sys_auth s') u = users (sys_auth s) u"
  using assms by (cases rule: auth_step.cases) auto

lemma sinceLogin_step:
  assumes "auth_step frac c s e s'" "\<forall>t. e \<noteq> Login u t" "sinceLogin u tok es s"
  shows "sinceLogin u tok (es @ [e]) s'"
  unfolding sinceLogin_def
proof (intro conjI allI impI)
  have ok: "sys_ok s" "users (sys_auth s) u = Some tok" using assms(3) by (simp_all add: sinceLogin_def)
  show "sys_ok s'" using assms(1) ok(1) by (rule sys_ok_step)
  show "users (sys_auth s') u = Some tok" using users_step [OF assms(1,2)] ok(2) by simp
  fix i hdr
  assume i: "Arrive i hdr \<in> set (es @ [e])"
  show "\<exists>p. sys_reqs s' i = Some p \<and>
      (\<forall>t. phaseUser (sys_auth s') p = Some (t, u) \<longrightarrow> t = tok \<and> authHeader hdr = Inr tok)"
  proof (cases "Arrive i hdr \<in> set es")
    case True
    then obtain p where p: "sys_reqs s i = Some p"
      "\<forall>t. phaseUser (sys_auth s) p = Some (t, u) \<longrightarrow> t = tok \<and> authHeader hdr = Inr tok"
      using assms(3) unfolding sinceLogin_def by blast
    then show ?thesis using phase_step [OF assms(1) ok(1) p(1)] by fastforce
  next
    case False
    then have e: "e = Arrive i hdr" using i by simp
    have "sys_auth s' = sys_auth s" "sys_reqs s' i = Some (lookupPhase (sys_auth s) hdr)"
      using assms(1) unfolding e by (auto elim: auth_arriveE)
    moreover have "auth_ok (sys_auth s)" using ok(1) by (simp add: sys_ok_def)
    ultimately show ?thesis using phaseUser_lookup ok(2) by fastforce
  qed
qed

lemma sinceLogin_steps:
  "auth_steps frac c s es s' \<Longrightarrow> \<forall>t. Login u t \<notin> set es \<Longrightarrow> sinceLogin u tok [] s \<Longrightarrow> sinceLogin u tok es s'"
  by (induction rule: auth_steps.induct) (auto intro: sinceLogin_step)

text \<open>
  C9. A login revokes: when \<open>u\<close> has logged in and got \<open>tok\<close>, then until his next login every request that
  arrives after it and is admitted as \<open>u\<close> carries \<open>tok\<close> in its header, in every interleaving
  with other requests, logins of others, expirations and extensions.
\<close>

theorem login_revokes:
  assumes "distinct (map fst (cf_Users c))" "auth_init c s" "auth_steps frac c s es s1"
    and "auth_step frac c s1 (Login u tok) s2"
    and "auth_steps frac c s2 es' s3" "\<forall>t. Login u t \<notin> set es'"
    and "Arrive i hdr \<in> set es'" "sys_reqs s3 i = Some (Admitted t u)"
  shows "t = tok \<and> authHeader hdr = Inr tok"
proof -
  have "sys_ok s1" using sys_ok_steps [OF assms(3)] sys_ok_init [OF assms(2,1)] by simp
  moreover have "users (sys_auth s2) u = Some tok" using assms(4) by (auto elim: auth_loginE)
  ultimately have "sinceLogin u tok [] s2"
    using sys_ok_step [OF assms(4)] by (simp add: sinceLogin_def)
  then show ?thesis
    using sinceLogin_arrived [OF sinceLogin_steps [OF assms(5,6)] assms(7,8)] by simp
qed

lemma login_revokes_witness:
  "authHeader ''Bearer n'' = Inr ''n''"
  using login_revokes [OF _ exampleInit auth_steps.none exampleLogin exampleRun, of 0 "''Bearer n''" "''n''"]
  by (simp add: exampleConfig_def exampleSys_def)

section \<open>A request on its own\<close>

text \<open>
  The step relation refines the interceptor: from any state of the server, running the steps of one
  request with the clock at its two readings ends with the answer and the token table of the
  interceptor's sequential reading.
\<close>

lemma interceptor_is_steps:
  assumes "sys_reqs s i = None" "sys_now s \<le> now1" "now1 \<le> now2"
  shows "\<exists>es s' p. auth_steps frac c s es s' \<and> sys_reqs s' = (sys_reqs s)(i \<mapsto> p) \<and>
    (case p of Admitted tok u \<Rightarrow> Inr (Some u) | Rejected e \<Rightarrow> Inl e | _ \<Rightarrow> Inr None, sys_auth s') =
      authInterceptor frac c Inr now1 now2 hdr (sys_auth s)"
proof -
  let ?st = "sys_auth s"
  let ?s1 = "setReq i (lookupPhase ?st hdr) s"
  have one: "auth_steps frac c s ([] @ [Arrive i hdr]) ?s1"
    by (intro auth_steps.more [OF auth_steps.none] auth_step.arrive assms(1))
  show ?thesis
  proof (cases "lookupPhase ?st hdr")
    case (Looked tok r)
    let ?s2 = "?s1\<lparr>sys_now := now1\<rparr>"
    let ?p = "if IsExpired (infoAt ?st r) now1 then Expired tok else Live tok r"
    let ?s3 = "setReq i ?p ?s2"
    have two: "auth_steps frac c s (([] @ [Arrive i hdr]) @ [Tick]) ?s2"
      using assms(2) by (intro auth_steps.more [OF one] auth_step.tick) simp
    have three: "auth_steps frac c s ((([] @ [Arrive i hdr]) @ [Tick]) @ [Check i]) ?s3"
      using auth_step.check [of ?s2 i tok r frac c] Looked by (intro auth_steps.more [OF two]) simp
    show ?thesis
    proof (cases "IsExpired (infoAt ?st r) now1")
      case True
      let ?s4 = "setReq i (Rejected (unauthenticated ''token expired'')) (?s3\<lparr>sys_auth := dropToken tok ?st\<rparr>)"
      have "auth_steps frac c s (((([] @ [Arrive i hdr]) @ [Tick]) @ [Check i]) @ [Delete i]) ?s4"
        using auth_step.delete [of ?s3 i tok frac c] True by (intro auth_steps.more [OF three]) simp
      then show ?thesis
        using Looked True
        by (intro exI [of _ "((([] @ [Arrive i hdr]) @ [Tick]) @ [Check i]) @ [Delete i]"] exI [of _ ?s4]
            exI [of _ "Rejected (unauthenticated ''token expired'')"])
          (auto simp: lookupPhase_def authInterceptor_def split: sum.splits option.splits)
    next
      case False
      let ?s4 = "?s3\<lparr>sys_now := now2\<rparr>"
      let ?s5 = "setReq i (Admitted tok (Username (infoAt ?st r))) (?s4\<lparr>sys_auth := slide frac c now2 r ?st\<rparr>)"
      have four: "auth_steps frac c s (((([] @ [Arrive i hdr]) @ [Tick]) @ [Check i]) @ [Tick]) ?s4"
        using assms(3) by (intro auth_steps.more [OF three] auth_step.tick) simp
      have "auth_steps frac c s ((((([] @ [Arrive i hdr]) @ [Tick]) @ [Check i]) @ [Tick]) @ [Slide i]) ?s5"
        using auth_step.slide [of ?s4 i tok r frac c] False by (intro auth_steps.more [OF four]) simp
      then show ?thesis
        using Looked False
        by (intro exI [of _ "(((([] @ [Arrive i hdr]) @ [Tick]) @ [Check i]) @ [Tick]) @ [Slide i]"] exI [of _ ?s5]
            exI [of _ "Admitted tok (Username (infoAt ?st r))"])
          (auto simp: lookupPhase_def authInterceptor_def contextWithUser_def split: sum.splits option.splits)
    qed
  next
    case (Rejected e)
    then show ?thesis using one
      by (intro exI [of _ "[] @ [Arrive i hdr]"] exI [of _ ?s1] exI [of _ "Rejected e"])
        (auto simp: lookupPhase_def authInterceptor_def split: sum.splits option.splits)
  qed (auto simp: lookupPhase_def split: sum.splits option.splits)
qed

section \<open>Live tokens\<close>

text \<open>A token can be used from the header that carries it.\<close>

lemma authHeader_bearer:
  "TrimSpace tok = tok \<Longrightarrow> tok \<noteq> [] \<Longrightarrow> authHeader (''Bearer '' @ tok) = Inr tok"
  using HasPrefix_append [of "''Bearer ''" tok] TrimPrefix_append [of "''Bearer ''" tok]
  by (simp add: authHeader_def authenticationTokenPrefix_def del: TrimPrefix_append HasPrefix_append)

definition static :: "auth_state \<Rightarrow> bool" where
  "static st \<longleftrightarrow> (\<forall>tok r. tokens st tok = Some r \<longrightarrow> ExpiresAt (infoAt st r) = 0)"

lemma static_putToken: "static st \<Longrightarrow> ExpiresAt info = 0 \<Longrightarrow> static (putToken tok info st)"
  by (simp add: static_def infoAt_putToken)

lemma static_addUsers: "static st \<Longrightarrow> static (addUsers us st)"
  by (induction us st rule: addUsers.induct) (simp_all add: static_putToken)

lemma static_newAuth: "static (newAuth c us)"
  unfolding newAuth_def Let_def by (intro static_addUsers) (auto intro!: static_putToken simp: static_def infoAt_putToken)

lemma tokens_addUsers:
  "tok \<in> snd ` set us \<or> tokens st tok \<noteq> None \<Longrightarrow> tokens (addUsers us st) tok \<noteq> None"
  by (induction us st rule: addUsers.induct) auto

text \<open>
  After \<open>New\<close>, in whatever order it ranged over the users, the token of a configured user (or the
  admin token) authenticates exactly that user, at any time and without any change of the
  table, provided no other user has the same token.
\<close>

theorem static_users_authenticate:
  assumes "distinct (map fst (cf_Users c))" "mset us = mset (svcUsers c)"
    and "distinct (map snd (svcUsers c))"
    and "(u, tok) \<in> set (svcUsers c)" "u \<noteq> []" "TrimSpace tok = tok" "tok \<noteq> []"
  shows "authInterceptor frac c GetCurrentUserSubject now1 now2 (''Bearer '' @ tok) (newAuth c us) =
    (Inr u, newAuth c us)"
proof -
  let ?st = "newAuth c us"
  have "tok \<in> snd ` set us" using assms(4) mset_eq_setD [OF assms(2)] by force
  then obtain r where r: "tokens ?st tok = Some r"
    unfolding newAuth_def Let_def using tokens_addUsers [of tok us] by (metis not_Some_eq)
  then have "map_of (svcUsers c) (Username (infoAt ?st r)) = Some tok"
    using auth_okD(2) [OF auth_ok_newAuth [OF assms(1,2)]] by simp
  then have "(Username (infoAt ?st r), tok) \<in> set (svcUsers c)" by (rule map_of_SomeD)
  then have u: "Username (infoAt ?st r) = u"
    using assms(3,4) inj_onD [of snd "set (svcUsers c)" "(Username (infoAt ?st r), tok)" "(u, tok)"]
    by (simp add: distinct_map)
  have "ExpiresAt (infoAt ?st r) = 0" using static_newAuth r by (auto simp: static_def)
  then show ?thesis
    using r u assms(5) authHeader_bearer [OF assms(6,7)]
    by (simp add: authInterceptor_def IsExpired_def slide_def contextWithUser_def GetCurrentUserSubject_def
      userFromContext_def)
qed

lemma static_users_authenticate_witness:
  "authInterceptor (\<lambda>_ _ _. 0) (exampleConfig ''b'') GetCurrentUserSubject 5 6 ''Bearer b'' exampleAuth =
     (Inr ''bob'', exampleAuth)"
proof -
  have "TrimSpace ''b'' = ''b''" by code_simp
  then show ?thesis
    using static_users_authenticate [of "exampleConfig ''b''" "[(''bob'', ''b''), (''admin'', ''$A'')]"
        "''bob''" "''b''" "\<lambda>_ _ _. 0" 5 6]
    by (simp add: exampleAuth_def svcUsers_def exampleConfig_def)
qed

text \<open>
  C34. Every use of a token that can expire extends it: the next use is admitted up to the configured
  time to live after it, and extends it again; the first use after that is rejected, and the
  token removed.
\<close>

theorem token_expiration_slides:
  assumes "authInterceptor frac c next now1 now2 hdr st = (res, st')"
    and "authHeader hdr = Inr tok" "tokens st tok = Some r"
    and "ExpiresAt (infoAt st r) \<noteq> 0" "\<not> IsExpired (infoAt st r) now1"
    and "until = now2 + sint (GetTokenTTL frac (cf_TokenTTL c))" "until \<noteq> 0"
  shows "authInterceptor frac c next' now3 now4 hdr st' =
    (if now3 \<le> until
     then (next' (Some (Username (infoAt st r))),
           st\<lparr>infos := (infos st)(r \<mapsto> (infoAt st r)\<lparr>ExpiresAt := now4 + (until - now2)\<rparr>)\<rparr>)
     else (Inl (unauthenticated ''token expired''), dropToken tok st'))"
proof -
  have st': "st' = st\<lparr>infos := (infos st)(r \<mapsto> (infoAt st r)\<lparr>ExpiresAt := until\<rparr>)\<rparr>"
    using assms(1-6) by (auto simp: authInterceptor_def slide_def)
  have "infoAt st' r = (infoAt st r)\<lparr>ExpiresAt := until\<rparr>" "tokens st' tok = Some r"
    using assms(3) by (simp_all add: st' infoAt_def)
  then show ?thesis
    using assms(2,6,7)
    by (auto simp: authInterceptor_def IsExpired_def slide_def contextWithUser_def) (simp_all add: st' )
qed

lemma token_expiration_slides_witness:
  "fst (authInterceptor (\<lambda>_ _ _. 0) (exampleConfig ''b'') Inr 604800000000007 604800000000008 ''Bearer n''
      (snd (authInterceptor (\<lambda>_ _ _. 0) (exampleConfig ''b'') Inr 5 6 ''Bearer n''
         (storeToken ''bob'' ''n'' 10 exampleAuth)))) = Inl (unauthenticated ''token expired'')"
proof -
  let ?st = "storeToken ''bob'' ''n'' 10 exampleAuth"
  have "tokens ?st ''n'' = Some (nextInfo exampleAuth)" by (simp add: tokens_storeToken)
  then show ?thesis
    using token_expiration_slides [of "\<lambda>_ _ _. 0" "exampleConfig ''b''" Inr 5 6 "''Bearer n''" ?st _ _
        "''n''" "nextInfo exampleAuth" 604800000000006 Inr 604800000000007 604800000000008]
      exampleHeader exampleTTL
    by (cases "authInterceptor (\<lambda>_ _ _. 0) (exampleConfig ''b'') Inr 5 6 ''Bearer n'' ?st")
      (simp add: infoAt_storeToken IsExpired_def exampleConfig_def)
qed

end
