(* ===== verification/Url_Values.thy ===== *)
theory Url_Values
  imports Prelude "HOL-Library.AList"
begin

text \<open>
  The forms that the login handlers read and forward: \<open>url.ParseQuery\<close>, \<open>Values.Get\<close>,
  \<open>Values.Set\<close> and \<open>Values.Encode\<close> of Go's package \<open>net/url\<close>, which \<open>oauth2.go\<close> calls.  A
  \<open>url.Values\<close> (a map from keys to lists of values) is an association list with distinct keys.  The
  lemmas show that parsing an encoded form gives the form back, in the order of its keys.
\<close>

section \<open>Escaping\<close>

lemma of_char_less_256: "of_char c < (256 :: nat)"
  using nat_of_char_less_256 [of c] .

definition unreserved :: "char \<Rightarrow> bool" where
  "unreserved c \<longleftrightarrow>
     (let n = (of_char c :: nat) in
      (48 \<le> n \<and> n \<le> 57) \<or> (65 \<le> n \<and> n \<le> 90) \<or> (97 \<le> n \<and> n \<le> 122)
        \<or> c = CHR ''-'' \<or> c = CHR ''_'' \<or> c = CHR ''.'' \<or> c = CHR ''~'')"

definition upperHex :: "nat \<Rightarrow> char" where
  "upperHex n = ''0123456789ABCDEF'' ! n"

definition escapeChar :: "char \<Rightarrow> string" where
  "escapeChar c =
     (if unreserved c then [c]
      else if c = CHR '' '' then ''+''
      else [CHR ''%'', upperHex (of_char c div 16), upperHex (of_char c mod 16)])"

definition QueryEscape :: "string \<Rightarrow> string" where
  "QueryEscape s = concat (map escapeChar s)"

definition escapeError :: "string \<Rightarrow> goerr" where
  "escapeError s = Errorf (''invalid URL escape '' @ take 3 s)"

fun QueryUnescape :: "string \<Rightarrow> string res" where
  "QueryUnescape [] = Inr []"
| "QueryUnescape (c # s) =
     (if c = CHR ''%''
      then (case s of
              a # b # r \<Rightarrow>
                (case (fromHexChar a, fromHexChar b) of
                   (Some x, Some y) \<Rightarrow> map_sum (\<lambda>e. e) ((#) (char_of (16 * x + y))) (QueryUnescape r)
                 | _ \<Rightarrow> Inl (escapeError (c # s)))
            | _ \<Rightarrow> Inl (escapeError (c # s)))
      else map_sum (\<lambda>e. e) ((#) (if c = CHR ''+'' then CHR '' '' else c)) (QueryUnescape s))"

lemma QueryUnescape_escapeChar:
  "QueryUnescape (escapeChar c @ s) = map_sum (\<lambda>e. e) ((#) c) (QueryUnescape s)"
proof (cases "unreserved c \<or> c = CHR '' ''")
  case True
  then show ?thesis by (auto simp: escapeChar_def unreserved_def)
next
  case False
  let ?n = "of_char c :: nat"
  have up: "\<forall>n < 16. fromHexChar (upperHex n) = Some n"
    unfolding all_less_16 by code_simp
  have "?n < 256" by (rule of_char_less_256)
  then have "fromHexChar (upperHex (?n div 16)) = Some (?n div 16)"
    "fromHexChar (upperHex (?n mod 16)) = Some (?n mod 16)"
    using up by (simp_all add: less_mult_imp_div_less)
  then show ?thesis using False by (simp add: escapeChar_def)
qed

lemma QueryUnescape_QueryEscape [simp]: "QueryUnescape (QueryEscape s) = Inr s"
  by (induction s) (simp_all add: QueryEscape_def QueryUnescape_escapeChar)

lemma upperHex_plain: "n < 16 \<Longrightarrow> upperHex n \<notin> set ''&=;''"
proof -
  have "\<forall>n < 16. upperHex n \<notin> set ''&=;''" unfolding all_less_16 by code_simp
  then show "n < 16 \<Longrightarrow> upperHex n \<notin> set ''&=;''" by blast
qed

lemma QueryEscape_plain: "set (QueryEscape s) \<inter> set ''&=;'' = {}"
proof -
  have "set (escapeChar c) \<inter> set ''&=;'' = {}" for c
  proof (cases "unreserved c \<or> c = CHR '' ''")
    case True
    then show ?thesis by (auto simp: escapeChar_def unreserved_def)
  next
    case False
    have "(of_char c :: nat) < 256" by (rule of_char_less_256)
    then show ?thesis
      using False upperHex_plain [of "of_char c div 16"] upperHex_plain [of "of_char c mod 16"]
      by (simp add: escapeChar_def less_mult_imp_div_less)
  qed
  then show ?thesis by (auto simp: QueryEscape_def)
qed

section \<open>Values\<close>

type_synonym url_values = "(string \<times> string list) list"

definition Values_Get :: "url_values \<Rightarrow> string \<Rightarrow> string" where
  "Values_Get m k = (case map_of m k of Some (v # _) \<Rightarrow> v | _ \<Rightarrow> [])"

definition Values_Set :: "url_values \<Rightarrow> string \<Rightarrow> string \<Rightarrow> url_values" where
  "Values_Set m k v = AList.update k [v] m"

definition Values_Add :: "url_values \<Rightarrow> string \<Rightarrow> string \<Rightarrow> url_values" where
  "Values_Add m k v = AList.update k ((case map_of m k of None \<Rightarrow> [] | Some vs \<Rightarrow> vs) @ [v]) m"

fun cutEq :: "string \<Rightarrow> string \<times> string" where
  "cutEq [] = ([], [])"
| "cutEq (c # s) = (if c = CHR ''='' then ([], s) else map_prod ((#) c) (\<lambda>v. v) (cutEq s))"

definition parsePair :: "string \<Rightarrow> (string \<times> string) res" where
  "parsePair part =
     (if CHR '';'' \<in> set part then Inl (Errorf ''invalid semicolon separator in query'')
      else case QueryUnescape (fst (cutEq part)) of
        Inl err \<Rightarrow> Inl err
      | Inr key \<Rightarrow>
          (case QueryUnescape (snd (cutEq part)) of
             Inl err \<Rightarrow> Inl err
           | Inr val \<Rightarrow> Inr (key, val)))"

text \<open>\<open>ParseQuery\<close> reads on after an error to return what it could parse; its callers here
  give up on an error, so only the first one is kept.\<close>

fun parseParts :: "url_values \<Rightarrow> string list \<Rightarrow> url_values res" where
  "parseParts m [] = Inr m"
| "parseParts m (part # parts) =
     (if part = [] then parseParts m parts
      else case parsePair part of
        Inl err \<Rightarrow> Inl err
      | Inr (key, val) \<Rightarrow> parseParts (Values_Add m key val) parts)"

definition ParseQuery :: "string \<Rightarrow> url_values res" where
  "ParseQuery query = parseParts [] (SplitByte (CHR ''&'') query)"

definition encodePairs :: "url_values \<Rightarrow> string list" where
  "encodePairs m = concat (map (\<lambda>(k, vs). map (\<lambda>v. QueryEscape k @ ''='' @ QueryEscape v) vs) m)"

definition Values_Encode :: "url_values \<Rightarrow> string" where
  "Values_Encode m = JoinWith ''&'' (encodePairs (sort_key fst m))"

text \<open>What \<open>ParseQuery\<close> returns: every key once, with at least one value.\<close>

definition wfValues :: "url_values \<Rightarrow> bool" where
  "wfValues m \<longleftrightarrow> distinct (map fst m) \<and> (\<forall>vs \<in> set (map snd m). vs \<noteq> [])"

lemma wfValues_update:
  assumes "wfValues m" "vs \<noteq> []"
  shows "wfValues (AList.update k vs m)"
proof -
  have "set (map snd (AList.update k vs m)) \<subseteq> insert vs (set (map snd m))"
    by (induction m) auto
  then show ?thesis
    using assms unfolding wfValues_def by (blast intro: distinct_update)
qed

lemma wfValues_Set [intro]: "wfValues m \<Longrightarrow> wfValues (Values_Set m k v)"
  by (simp add: Values_Set_def wfValues_update)

lemma wfValues_Add [intro]: "wfValues m \<Longrightarrow> wfValues (Values_Add m k v)"
  by (simp add: Values_Add_def wfValues_update)

lemma parseParts_wf: "parseParts m parts = Inr m' \<Longrightarrow> wfValues m \<Longrightarrow> wfValues m'"
proof (induction parts arbitrary: m)
  case Nil
  then show ?case by simp
next
  case (Cons part parts)
  show ?case
  proof (cases "part = []")
    case True
    then show ?thesis using Cons by simp
  next
    case False
    then obtain key val where "parseParts (Values_Add m key val) parts = Inr m'"
      using Cons.prems(1) by (auto split: sum.splits prod.splits)
    then show ?thesis using Cons.IH Cons.prems(2) by blast
  qed
qed

lemma ParseQuery_wf: "ParseQuery q = Inr m \<Longrightarrow> wfValues m"
  unfolding ParseQuery_def by (rule parseParts_wf) (auto simp: wfValues_def)

lemma Values_Get_Set [simp]: "Values_Get (Values_Set m k v) k' = (if k' = k then v else Values_Get m k')"
  by (simp add: Values_Get_def Values_Set_def update_conv)

section \<open>Parsing an encoded form\<close>

lemma cutEq_append: "CHR ''='' \<notin> set k \<Longrightarrow> cutEq (k @ CHR ''='' # v) = (k, v)"
  by (induction k) auto

lemma parsePair_encoded: "parsePair (QueryEscape k @ ''='' @ QueryEscape v) = Inr (k, v)"
  using QueryEscape_plain [of k] QueryEscape_plain [of v] by (simp add: parsePair_def cutEq_append)

lemma Values_Add_last:
  "k \<notin> set (map fst m) \<Longrightarrow> Values_Add (m @ [(k, vs)]) k v = m @ [(k, vs @ [v])]"
proof -
  assume k: "k \<notin> set (map fst m)"
  have "AList.update k ws (m @ [(k, vs)]) = m @ [(k, ws)]" for ws using k by (induction m) auto
  moreover have "map_of (m @ [(k, vs)]) k = Some vs"
    using k by (simp add: map_add_def map_of_eq_None_iff [THEN iffD2])
  ultimately show ?thesis by (simp add: Values_Add_def)
qed

lemma Values_Add_new: "k \<notin> set (map fst m) \<Longrightarrow> Values_Add m k v = m @ [(k, [v])]"
proof -
  assume k: "k \<notin> set (map fst m)"
  have "AList.update k ws m = m @ [(k, ws)]" for ws using k by (induction m) auto
  moreover have "map_of m k = None" using k by (simp add: map_of_eq_None_iff)
  ultimately show ?thesis by (simp add: Values_Add_def)
qed

lemma parseParts_values:
  "k \<notin> set (map fst m) \<Longrightarrow>
   parseParts (m @ [(k, us)]) (map (\<lambda>v. QueryEscape k @ ''='' @ QueryEscape v) vs @ parts) =
     parseParts (m @ [(k, us @ vs)]) parts"
proof (induction vs arbitrary: us)
  case Nil
  then show ?case by simp
next
  case (Cons v vs)
  then show ?case using parsePair_encoded [of k v] by (simp add: Values_Add_last)
qed

lemma parseParts_encodePairs:
  "distinct (map fst (m @ n)) \<Longrightarrow> \<forall>vs \<in> set (map snd n). vs \<noteq> [] \<Longrightarrow>
   parseParts m (encodePairs n) = Inr (m @ n)"
proof (induction n arbitrary: m)
  case Nil
  then show ?case by (simp add: encodePairs_def)
next
  case (Cons kv n)
  obtain k v vs where kv: "kv = (k, v # vs)" using Cons.prems(2) by (cases kv; cases "snd kv") auto
  have k: "k \<notin> set (map fst m)" using Cons.prems(1) by (auto simp: kv)
  have "parseParts m (encodePairs (kv # n)) =
      parseParts (m @ [(k, [v])]) (map (\<lambda>v. QueryEscape k @ ''='' @ QueryEscape v) vs @ encodePairs n)"
    using parsePair_encoded [of k v] Values_Add_new [OF k] by (simp add: encodePairs_def kv)
  also have "\<dots> = parseParts (m @ [kv]) (encodePairs n)"
    unfolding parseParts_values [OF k] kv by simp
  also have "\<dots> = Inr (m @ kv # n)"
    using Cons.IH [of "m @ [kv]"] Cons.prems by simp
  finally show ?case .
qed

lemma encodePairs_no_amp: "p \<in> set (encodePairs m) \<Longrightarrow> CHR ''&'' \<notin> set p"
  using QueryEscape_plain by (fastforce simp: encodePairs_def)

lemma wfValues_sort: "wfValues m \<Longrightarrow> wfValues (sort_key fst m)"
proof -
  assume wf: "wfValues m"
  have "mset (map fst (sort_key fst m)) = mset (map fst m)" by simp
  then have "distinct (map fst (sort_key fst m))"
    using wf unfolding wfValues_def by (metis mset_eq_imp_distinct_iff)
  then show ?thesis using wf by (simp add: wfValues_def)
qed

lemma ParseQuery_Encode: "wfValues m \<Longrightarrow> ParseQuery (Values_Encode m) = Inr (sort_key fst m)"
proof -
  let ?n = "sort_key fst m"
  assume "wfValues m"
  then have n: "wfValues ?n" by (rule wfValues_sort)
  then have p: "parseParts [] (encodePairs ?n) = Inr ?n"
    using parseParts_encodePairs [of "[]" ?n] by (simp add: wfValues_def)
  show ?thesis
  proof (cases "encodePairs ?n = []")
    case True
    then show ?thesis using p by (simp add: ParseQuery_def Values_Encode_def)
  next
    case False
    then have "SplitByte (CHR ''&'') (Values_Encode m) = encodePairs ?n"
      unfolding Values_Encode_def by (intro SplitByte_Join) (auto dest: encodePairs_no_amp)
    then show ?thesis using p by (simp add: ParseQuery_def)
  qed
qed

lemma Values_Get_sort: "wfValues m \<Longrightarrow> Values_Get (sort_key fst m) k = Values_Get m k"
proof -
  assume wf: "wfValues m"
  then have "map_of (sort_key fst m) = map_of m"
    using wfValues_sort [OF wf] by (intro map_of_inject_set [THEN iffD2]) (auto simp: wfValues_def)
  then show ?thesis by (simp add: Values_Get_def)
qed

end
