(* ===== verification/Device_Login.thy ===== *)
theory Device_Login
  imports Auth Url_Values Buf_Lock
begin

text \<open>
  The device login (\<open>oidc.go\<close>, \<open>oauth2.go\<close> of \<open>internal/service\<close>): the OpenID Connect provider
  found from its discovery document, and the three handlers that \<open>buf login\<close> calls, which pass the
  device flow on to the provider and exchange the provider's token for one of the registry.

  The provider is reached through the fields of \<open>web\<close>: \<open>parseURL\<close> is the error of
  \<open>http.NewRequestWithContext\<close>, if any, \<open>Do\<close> the answer of the HTTP client, and the
  \<open>decode\<close> fields what \<open>encoding/json\<close> makes of an answer's body; nothing is assumed of them.
  JSON that a handler writes is kept as the value it encodes.
\<close>

section \<open>HTTP\<close>

record http_request =
  rq_Method :: string
  rq_Body :: "string res"

record out_request =
  or_Method :: string
  or_URL :: string
  or_Header :: "(string \<times> string) list"
  or_Body :: string

record http_response =
  rs_StatusCode :: nat
  rs_ContentType :: string
  rs_Body :: "string res"

datatype json = JString string | JOther string

record OIDCDiscovery =
  di_Issuer :: string
  di_AuthorizationEndpoint :: string
  di_TokenEndpoint :: string
  di_UserinfoEndpoint :: string
  di_JwksURI :: string
  di_DeviceAuthorizationEndpoint :: string

record UserInfo =
  Subject :: string
  PreferredUsername :: string
  Email :: string
  ui_Name :: string
  EmailVerified :: bool

text \<open>The token response of the provider; only the access token is read.\<close>

record oidc_token =
  ot_AccessToken :: string
  ot_TokenType :: string
  ot_ExpiresIn :: int
  ot_RefreshToken :: string
  ot_IDToken :: string
  ot_Scope :: string

record DeviceRegistrationResponse =
  dr_ClientID :: string
  dr_ClientSecret :: string
  dr_ClientIDIssuedAt :: int
  dr_ClientSecretExpiresAt :: int
  dr_DeviceAuthorizationEndpoint :: string
  dr_TokenEndpoint :: string

record DeviceAccessTokenResponse =
  AccessToken :: string
  TokenType :: string
  ExpiresIn :: int
  RefreshToken :: string
  Scope :: string

datatype reply_body =
    OAuth2Error string string
  | Registration DeviceRegistrationResponse
  | DeviceMap "(string \<times> json) list"
  | TokenReply DeviceAccessTokenResponse
  | Raw string

record reply =
  rp_Status :: nat
  rp_ContentType :: string
  rp_Body :: reply_body

record web =
  parseURL :: "string \<Rightarrow> goerr option"
  Do :: "out_request \<Rightarrow> http_response res"
  decodeDiscovery :: "string \<Rightarrow> OIDCDiscovery res"
  decodeUserInfo :: "string \<Rightarrow> UserInfo res"
  decodeToken :: "string \<Rightarrow> oidc_token res"
  decodeMap :: "string \<Rightarrow> (string \<times> json) list res"

text \<open>A request to the provider: built, then sent.\<close>

definition sendRequest :: "web \<Rightarrow> out_request \<Rightarrow> http_response res" where
  "sendRequest w r = (case parseURL w (or_URL r) of Some err \<Rightarrow> Inl err | None \<Rightarrow> Do w r)"

text \<open>\<open>OAuth2Error.Error\<close>.\<close>

definition OAuth2Error_Error :: "string \<Rightarrow> string \<Rightarrow> string" where
  "OAuth2Error_Error errorCode description = errorCode @ '': '' @ description"

section \<open>The provider\<close>

record OIDCProvider =
  op_config :: OIDC
  discovery :: OIDCDiscovery
  host :: string

definition statusError :: "string \<Rightarrow> http_response \<Rightarrow> goerr" where
  "statusError what resp =
     Errorf (what @ '' request failed: '' @ showNat (rs_StatusCode resp) @ '' '' @
       (case rs_Body resp of Inr b \<Rightarrow> b | Inl _ \<Rightarrow> []))"

text \<open>
  \<open>json.NewDecoder(resp.Body).Decode\<close> reads from the body until the first value is complete; here and in \<open>GetUserInfo\<close>
  the body is read to its end first, so an error of the connection behind a complete value is an error of the model
  where the code has none.
\<close>

definition discover :: "web \<Rightarrow> OIDC \<Rightarrow> OIDCDiscovery res" where
  "discover w config =
     (let discoveryURL = TrimSuffix (Issuer config) ''/'' @ ''/.well-known/openid-configuration'' in
      case sendRequest w \<lparr>or_Method = ''GET'', or_URL = discoveryURL, or_Header = [], or_Body = []\<rparr> of
        Inl err \<Rightarrow> Inl err
      | Inr resp \<Rightarrow>
          if rs_StatusCode resp \<noteq> 200 then Inl (statusError ''discovery'' resp)
          else (case rs_Body resp of
                  Inl err \<Rightarrow> Inl err
                | Inr body \<Rightarrow> decodeDiscovery w body))"

definition NewOIDCProvider :: "web \<Rightarrow> OIDC option \<Rightarrow> string \<Rightarrow> OIDCProvider option res" where
  "NewOIDCProvider w cfg hst =
     (case cfg of
        None \<Rightarrow> Inr None
      | Some config \<Rightarrow>
          (case discover w config of
             Inl err \<Rightarrow> Inl (Wrapf ''OIDC discovery failed'' err)
           | Inr d \<Rightarrow>
               if di_DeviceAuthorizationEndpoint d = []
               then Inl (Errorf ''OIDC provider does not support device authorization grant (no device_authorization_endpoint in discovery)'')
               else Inr (Some \<lparr>op_config = config, discovery = d, host = hst\<rparr>)))"

definition GetScopes :: "OIDCProvider \<Rightarrow> string list" where
  "GetScopes p =
     (if length (Scopes (op_config p)) > 0 then Scopes (op_config p)
      else [''openid'', ''email'', ''profile''])"

definition GetUsernameClaim :: "OIDCProvider \<Rightarrow> string" where
  "GetUsernameClaim p =
     (if UsernameClaim (op_config p) \<noteq> [] then UsernameClaim (op_config p) else ''preferred_username'')"

definition userInfoRequest :: "OIDCProvider \<Rightarrow> string \<Rightarrow> out_request" where
  "userInfoRequest p accessToken =
     \<lparr>or_Method = ''GET'', or_URL = di_UserinfoEndpoint (discovery p),
      or_Header = [(''Authorization'', ''Bearer '' @ accessToken)], or_Body = []\<rparr>"

definition GetUserInfo :: "web \<Rightarrow> OIDCProvider \<Rightarrow> string \<Rightarrow> UserInfo res" where
  "GetUserInfo w p accessToken =
     (if di_UserinfoEndpoint (discovery p) = []
      then Inl (Errorf ''OIDC provider does not have userinfo endpoint'')
      else case sendRequest w (userInfoRequest p accessToken) of
        Inl err \<Rightarrow> Inl err
      | Inr resp \<Rightarrow>
          if rs_StatusCode resp \<noteq> 200 then Inl (statusError ''userinfo'' resp)
          else (case rs_Body resp of
                  Inl err \<Rightarrow> Inl err
                | Inr body \<Rightarrow> decodeUserInfo w body))"

definition ExtractUsername :: "OIDCProvider \<Rightarrow> UserInfo \<Rightarrow> string" where
  "ExtractUsername p userInfo =
     (let claim = GetUsernameClaim p in
      if claim = ''preferred_username'' then PreferredUsername userInfo
      else if claim = ''email'' then Email userInfo
      else if claim = ''name'' then ui_Name userInfo
      else if claim = ''sub'' then Subject userInfo
      else if PreferredUsername userInfo \<noteq> [] then PreferredUsername userInfo
      else if Email userInfo \<noteq> [] then Email userInfo
      else Subject userInfo)"

section \<open>The handlers\<close>

definition DeviceAuthorizationPath :: string where
  "DeviceAuthorizationPath = ''/oauth2/device/authorization''"

definition DeviceTokenPath :: string where
  "DeviceTokenPath = ''/oauth2/device/token''"

text \<open>\<open>NewOAuth2Service\<close>: a provider that cannot be set up is logged and left out.\<close>

definition NewOAuth2Service :: "web \<Rightarrow> Config \<Rightarrow> OIDCProvider option" where
  "NewOAuth2Service w c =
     (case cf_OIDC c of
        None \<Rightarrow> None
      | Some _ \<Rightarrow>
          (case NewOIDCProvider w (cf_OIDC c) (cf_Host c) of
             Inl err \<Rightarrow> None
           | Inr oidc \<Rightarrow> oidc))"

definition jsonReply :: "nat \<Rightarrow> reply_body \<Rightarrow> reply" where
  "jsonReply status body = \<lparr>rp_Status = status, rp_ContentType = ''application/json'', rp_Body = body\<rparr>"

definition writeOAuth2Error :: "nat \<Rightarrow> string \<Rightarrow> string \<Rightarrow> reply" where
  "writeOAuth2Error status errorCode description = jsonReply status (OAuth2Error errorCode description)"

definition passThrough :: "http_response \<Rightarrow> string \<Rightarrow> reply" where
  "passThrough resp respBody =
     \<lparr>rp_Status = rs_StatusCode resp, rp_ContentType = rs_ContentType resp, rp_Body = Raw respBody\<rparr>"

definition handleDeviceRegistration ::
  "OIDCProvider option \<Rightarrow> Config \<Rightarrow> time \<Rightarrow> http_request \<Rightarrow> reply" where
  "handleDeviceRegistration oidc c nowUnix r =
     (if rq_Method r \<noteq> ''POST'' then writeOAuth2Error 405 ''invalid_request'' ''method not allowed''
      else case oidc of
        None \<Rightarrow> writeOAuth2Error 503 ''server_error'' ''OIDC not configured''
      | Some p \<Rightarrow>
          (let baseURL = ''https'' @ ''://'' @ cf_Host c in
           jsonReply 200 (Registration
             \<lparr>dr_ClientID = ClientID (op_config p), dr_ClientSecret = [], dr_ClientIDIssuedAt = nowUnix,
              dr_ClientSecretExpiresAt = 0,
              dr_DeviceAuthorizationEndpoint = baseURL @ DeviceAuthorizationPath,
              dr_TokenEndpoint = baseURL @ DeviceTokenPath\<rparr>)))"

text \<open>\<open>if conf.OIDC.ClientSecret != "" { values.Set("client_secret", ...) }\<close>; the handlers' \<open>conf.OIDC\<close> is
  the configuration the provider was made from.\<close>

definition addSecret :: "OIDCProvider \<Rightarrow> url_values \<Rightarrow> url_values" where
  "addSecret p vals =
     (if ClientSecret (op_config p) \<noteq> [] then Values_Set vals ''client_secret'' (ClientSecret (op_config p))
      else vals)"

definition addScope :: "OIDCProvider \<Rightarrow> url_values \<Rightarrow> url_values" where
  "addScope p vals =
     (if Values_Get vals ''scope'' = [] then Values_Set vals ''scope'' (JoinWith '' '' (GetScopes p)) else vals)"

definition formPost :: "string \<Rightarrow> url_values \<Rightarrow> out_request" where
  "formPost endpoint vals =
     \<lparr>or_Method = ''POST'', or_URL = endpoint,
      or_Header = [(''Content-Type'', ''application/x-www-form-urlencoded''), (''Accept'', ''application/json'')],
      or_Body = Values_Encode vals\<rparr>"

text \<open>The normalisation of the provider's answer: the fields \<open>buf\<close> expects.\<close>

definition addURI :: "(string \<times> json) list \<Rightarrow> (string \<times> json) list" where
  "addURI m =
     (case map_of m ''verification_url'' of
        Some (JString url) \<Rightarrow>
          (if map_of m ''verification_uri'' = None then AList.update ''verification_uri'' (JString url) m else m)
      | _ \<Rightarrow> m)"

definition addComplete :: "(string \<times> json) list \<Rightarrow> (string \<times> json) list" where
  "addComplete m =
     (if map_of m ''verification_uri_complete'' = None
      then (case (map_of m ''verification_uri'', map_of m ''user_code'') of
              (Some (JString uri), Some (JString userCode)) \<Rightarrow>
                AList.update ''verification_uri_complete'' (JString (uri @ ''?user_code='' @ userCode)) m
            | _ \<Rightarrow> m)
      else m)"

definition normalizeDevice :: "(string \<times> json) list \<Rightarrow> (string \<times> json) list" where
  "normalizeDevice m = AList.delete ''verification_url'' (addComplete (addURI m))"

definition handleDeviceAuthorization :: "web \<Rightarrow> OIDCProvider option \<Rightarrow> http_request \<Rightarrow> reply" where
  "handleDeviceAuthorization w oidc r =
     (if rq_Method r \<noteq> ''POST'' then writeOAuth2Error 405 ''invalid_request'' ''method not allowed''
      else case oidc of
        None \<Rightarrow> writeOAuth2Error 503 ''server_error'' ''OIDC not configured''
      | Some p \<Rightarrow>
     (case rq_Body r of
        Inl _ \<Rightarrow> writeOAuth2Error 400 ''invalid_request'' ''failed to read request''
      | Inr body \<Rightarrow>
     (case ParseQuery body of
        Inl _ \<Rightarrow> writeOAuth2Error 400 ''invalid_request'' ''invalid form data''
      | Inr vals0 \<Rightarrow>
          (let vals = addScope p (addSecret p vals0);
               req = formPost (di_DeviceAuthorizationEndpoint (discovery p)) vals
           in if parseURL w (or_URL req) \<noteq> None
              then writeOAuth2Error 500 ''server_error'' ''failed to create proxy request''
              else case Do w req of
                Inl _ \<Rightarrow> writeOAuth2Error 502 ''server_error'' ''failed to contact OIDC provider''
              | Inr resp \<Rightarrow>
                  (case rs_Body resp of
                     Inl _ \<Rightarrow> writeOAuth2Error 500 ''server_error'' ''failed to read provider response''
                   | Inr respBody \<Rightarrow>
                       if rs_StatusCode resp = 200
                       then (case decodeMap w respBody of
                               Inr deviceResp \<Rightarrow> jsonReply 200 (DeviceMap (normalizeDevice deviceResp))
                             | Inl _ \<Rightarrow> passThrough resp respBody)
                       else passThrough resp respBody)))))"

text \<open>\<open>generateRandomString\<close>, with the bytes that \<open>rand.Read\<close> fills in.\<close>

definition generateRandomString :: "nat \<Rightarrow> byte list \<Rightarrow> string" where
  "generateRandomString len random = take len (EncodeToString (take ((len + 1) div 2) random))"

definition bearerResponse :: "string \<Rightarrow> DeviceAccessTokenResponse" where
  "bearerResponse pbrToken =
     \<lparr>AccessToken = pbrToken, TokenType = ''Bearer'', ExpiresIn = 0, RefreshToken = [], Scope = []\<rparr>"

definition handleDeviceToken ::
  "(64 word \<Rightarrow> 64 word \<Rightarrow> nat \<Rightarrow> 64 word) \<Rightarrow> Config \<Rightarrow> web \<Rightarrow> OIDCProvider option \<Rightarrow> byte list \<Rightarrow> time \<Rightarrow>
   http_request \<Rightarrow> auth_state \<Rightarrow> reply \<times> auth_state" where
  "handleDeviceToken frac c w oidc random now r st =
     (if rq_Method r \<noteq> ''POST'' then (writeOAuth2Error 405 ''invalid_request'' ''method not allowed'', st)
      else case oidc of
        None \<Rightarrow> (writeOAuth2Error 503 ''server_error'' ''OIDC not configured'', st)
      | Some p \<Rightarrow>
     (case rq_Body r of
        Inl _ \<Rightarrow> (writeOAuth2Error 400 ''invalid_request'' ''failed to read request'', st)
      | Inr body \<Rightarrow>
     (case ParseQuery body of
        Inl _ \<Rightarrow> (writeOAuth2Error 400 ''invalid_request'' ''invalid form data'', st)
      | Inr vals0 \<Rightarrow>
          (let req = formPost (di_TokenEndpoint (discovery p)) (addSecret p vals0) in
           if parseURL w (or_URL req) \<noteq> None
           then (writeOAuth2Error 500 ''server_error'' ''failed to create proxy request'', st)
           else case Do w req of
             Inl _ \<Rightarrow> (writeOAuth2Error 502 ''server_error'' ''failed to contact OIDC provider'', st)
           | Inr resp \<Rightarrow>
          (case rs_Body resp of
             Inl _ \<Rightarrow> (writeOAuth2Error 500 ''server_error'' ''failed to read provider response'', st)
           | Inr respBody \<Rightarrow>
               if rs_StatusCode resp \<noteq> 200 then (passThrough resp respBody, st)
               else case decodeToken w respBody of
                 Inl _ \<Rightarrow> (writeOAuth2Error 500 ''server_error'' ''failed to parse provider response'', st)
               | Inr oidcTokenResp \<Rightarrow>
          (case GetUserInfo w p (ot_AccessToken oidcTokenResp) of
             Inl _ \<Rightarrow> (writeOAuth2Error 500 ''server_error'' ''failed to get user info'', st)
           | Inr userInfo \<Rightarrow>
               (let username = ExtractUsername p userInfo in
                if username = []
                then (writeOAuth2Error 500 ''server_error'' ''could not determine username'', st)
                else
                  (let pbrToken = generateRandomString 64 random;
                       expiresAt = now + sint (GetTokenTTL frac (cf_TokenTTL c))
                   in (jsonReply 200 (TokenReply (bearerResponse pbrToken)),
                       storeToken username pbrToken expiresAt st)))))))))"


section \<open>The forwarded form\<close>

text \<open>\<open>m'\<close> is the form \<open>m\<close> with the configured secret, and with the scopes when it asks for none.\<close>

definition completedForm :: "OIDCProvider \<Rightarrow> url_values \<Rightarrow> url_values \<Rightarrow> bool" where
  "completedForm p m m' \<longleftrightarrow>
     map_of m' = (let m1 = (if ClientSecret (op_config p) = [] then map_of m
                            else (map_of m)(''client_secret'' \<mapsto> [ClientSecret (op_config p)])) in
       if Values_Get m ''scope'' = [] then m1(''scope'' \<mapsto> [JoinWith '' '' (GetScopes p)]) else m1)"

lemma ParseQuery_completed:
  assumes "ParseQuery body = Inr m"
  shows "\<exists>m'. ParseQuery (Values_Encode (addScope p (addSecret p m))) = Inr m' \<and> completedForm p m m'"
proof -
  let ?n = "addScope p (addSecret p m)"
  have wf: "wfValues ?n" using ParseQuery_wf [OF assms] by (auto simp: addScope_def addSecret_def)
  have "map_of (sort_key fst ?n) = map_of ?n"
    using wfValues_sort [OF wf] wf by (intro map_of_inject_set [THEN iffD2]) (auto simp: wfValues_def)
  then have "completedForm p m (sort_key fst ?n)"
    by (simp add: completedForm_def Let_def addScope_def addSecret_def Values_Set_def update_conv'
      Values_Get_Set [unfolded Values_Set_def])
  then show ?thesis using ParseQuery_Encode [OF wf] by blast
qed

text \<open>
  C32. What \<open>handleDeviceAuthorization\<close> sends to the provider: its reply depends on the provider only through
  requests posted to the device authorization endpoint whose body parses to the client's form,
  with the configured client secret, and with the configured scopes if the form asks for none; every
  other field is the client's.
\<close>

theorem forwarded_form:
  assumes "rq_Body r = Inr body" "ParseQuery body = Inr m"
    and "\<And>q m'. or_Method q = ''POST'' \<Longrightarrow> or_URL q = di_DeviceAuthorizationEndpoint (discovery p) \<Longrightarrow>
      ParseQuery (or_Body q) = Inr m' \<Longrightarrow> completedForm p m m' \<Longrightarrow> d q = Do w q"
  shows "handleDeviceAuthorization (w\<lparr>Do := d\<rparr>) (Some p) r = handleDeviceAuthorization w (Some p) r"
proof -
  let ?q = "formPost (di_DeviceAuthorizationEndpoint (discovery p)) (addScope p (addSecret p m))"
  obtain m' where "ParseQuery (or_Body ?q) = Inr m'" "completedForm p m m'"
    using ParseQuery_completed [OF assms(2), of p] by (auto simp: formPost_def)
  then have "d ?q = Do w ?q" by (intro assms(3)) (simp_all add: formPost_def)
  then show ?thesis
    using assms(1,2) by (simp add: handleDeviceAuthorization_def Let_def cong: if_cong sum.case_cong)
qed

text \<open>A provider that knows the user \<open>bob\<close>, and a form sent by a client.\<close>

definition exampleProvider :: OIDCProvider where
  "exampleProvider =
     \<lparr>op_config = \<lparr>Issuer = ''https://i/'', ClientID = ''pbr'', ClientSecret = ''s&t'', Scopes = [], UsernameClaim = []\<rparr>,
      discovery = \<lparr>di_Issuer = ''https://i'', di_AuthorizationEndpoint = [], di_TokenEndpoint = ''https://i/t'',
        di_UserinfoEndpoint = ''https://i/u'', di_JwksURI = [], di_DeviceAuthorizationEndpoint = ''https://i/d''\<rparr>,
      host = ''pbr''\<rparr>"

definition exampleWeb :: web where
  "exampleWeb =
     \<lparr>parseURL = (\<lambda>_. None),
      Do = (\<lambda>q. Inr \<lparr>rs_StatusCode = (if or_URL q = ''https://i/d'' then 400 else 200), rs_ContentType = ''t'',
              rs_Body = Inr (or_URL q)\<rparr>),
      decodeDiscovery = (\<lambda>_. Inl Panic),
      decodeUserInfo = (\<lambda>_. Inr \<lparr>Subject = ''7'', PreferredUsername = ''bob'', Email = [], ui_Name = [], EmailVerified = False\<rparr>),
      decodeToken = (\<lambda>_. Inr \<lparr>ot_AccessToken = ''a'', ot_TokenType = ''Bearer'', ot_ExpiresIn = 0, ot_RefreshToken = [],
        ot_IDToken = [], ot_Scope = []\<rparr>),
      decodeMap = (\<lambda>_. Inl Panic)\<rparr>"

definition exampleForm :: http_request where
  "exampleForm = \<lparr>rq_Method = ''POST'', rq_Body = Inr ''client_id=pbr&device_code=a%26b''\<rparr>"

lemma exampleForm_parse:
  "ParseQuery ''client_id=pbr&device_code=a%26b'' = Inr [(''client_id'', [''pbr'']), (''device_code'', [''a&b''])]"
  by code_simp

definition secretOnly :: "out_request \<Rightarrow> http_response res" where
  "secretOnly q =
     (case ParseQuery (or_Body q) of
        Inl e \<Rightarrow> Inl e
      | Inr m \<Rightarrow> if map_of m ''client_secret'' = Some [''s&t''] \<and> map_of m ''device_code'' = Some [''a&b'']
          then Do exampleWeb q else Inl Panic)"

lemma forwarded_form_witness:
  "handleDeviceAuthorization (exampleWeb\<lparr>Do := secretOnly\<rparr>) (Some exampleProvider) exampleForm =
     \<lparr>rp_Status = 400, rp_ContentType = ''t'', rp_Body = Raw ''https://i/d''\<rparr>"
proof -
  have "handleDeviceAuthorization (exampleWeb\<lparr>Do := secretOnly\<rparr>) (Some exampleProvider) exampleForm =
      handleDeviceAuthorization exampleWeb (Some exampleProvider) exampleForm"
    by (rule forwarded_form [OF _ exampleForm_parse])
      (simp_all add: exampleForm_def secretOnly_def completedForm_def Let_def exampleProvider_def Values_Get_def)
  also have "\<dots> = \<lparr>rp_Status = 400, rp_ContentType = ''t'', rp_Body = Raw ''https://i/d''\<rparr>"
    by (simp add: handleDeviceAuthorization_def exampleForm_def exampleForm_parse exampleWeb_def formPost_def
      exampleProvider_def passThrough_def Let_def)
  finally show ?thesis .
qed

section \<open>The answer to the device\<close>

lemma map_of_addURI:
  "map_of m ''verification_uri'' = Some (JString url) \<or>
     map_of m ''verification_uri'' = None \<and> map_of m ''verification_url'' = Some (JString url) \<Longrightarrow>
   map_of (addURI m) = (map_of m)(''verification_uri'' \<mapsto> JString url)"
  by (auto simp: addURI_def update_conv' fun_upd_idem split: option.split json.split)

lemma map_of_addComplete:
  "map_of m ''verification_uri_complete'' = None \<Longrightarrow> map_of m ''verification_uri'' = Some (JString url) \<Longrightarrow>
   map_of m ''user_code'' = Some (JString code) \<Longrightarrow>
   map_of (addComplete m) =
     (map_of m)(''verification_uri_complete'' \<mapsto> JString (url @ ''?user_code='' @ code))"
  by (simp add: addComplete_def update_conv')

lemma normalizeDevice_fields:
  assumes "map_of m ''verification_uri_complete'' = None" "map_of m ''user_code'' = Some (JString code)"
    and "map_of m ''verification_uri'' = Some (JString url) \<or>
      map_of m ''verification_uri'' = None \<and> map_of m ''verification_url'' = Some (JString url)"
  shows "map_of (normalizeDevice m) =
     (map_of m)(''verification_uri'' \<mapsto> JString url,
       ''verification_uri_complete'' \<mapsto> JString (url @ ''?user_code='' @ code), ''verification_url'' := None)"
  using map_of_addURI [OF assms(3)] map_of_addComplete [of "addURI m" url code] assms(1,2)
  by (simp add: normalizeDevice_def delete_conv')

section \<open>A login\<close>

lemma length_generateRandomString: "length random = 32 \<Longrightarrow> length (generateRandomString 64 random) = 64"
  by (simp add: generateRandomString_def)

lemma isLowerHex_plain: "isLowerHex c \<Longrightarrow> plain c"
  by (auto simp: isLowerHex_def plain_def)

lemma TrimSpace_random:
  assumes "length random = 32"
  shows "TrimSpace (generateRandomString 64 random) = generateRandomString 64 random"
proof -
  let ?t = "generateRandomString 64 random"
  have "?t = EncodeToString random" using assms by (simp add: generateRandomString_def)
  then have hex: "c \<in> set ?t \<Longrightarrow> plain c" for c by (auto intro: isLowerHex_plain EncodeToString_isLowerHex)
  have ne: "?t \<noteq> []" using length_generateRandomString [OF assms] by fastforce
  have t: "?t = hd ?t # tl ?t" "?t = butlast ?t @ [last ?t]" using ne by simp_all
  show ?thesis
    using TrimSpace_plain [OF hex hex t(1) t(2), of 0] ne by simp
qed

text \<open>A stored token is admitted until it expires.\<close>

lemma storeToken_admitted:
  assumes "authHeader hdr = Inr tok" "now1 \<le> expires" "u \<noteq> []"
  shows "fst (authInterceptor frac c GetCurrentUserSubject now1 now2 hdr (storeToken u tok expires st)) = Inr u"
proof -
  have "tokenUser (storeToken u tok expires st) now1 tok = Some u" by (rule table.store_user [OF assms(2)])
  then have "fst (authInterceptor frac c GetCurrentUserSubject now1 now2 hdr (storeToken u tok expires st)) =
      GetCurrentUserSubject (Some u)"
    by (rule authInterceptor_user [OF assms(1)])
  then show ?thesis using assms(3) by (simp add: GetCurrentUserSubject_def userFromContext_def)
qed

definition providerLogin :: "web \<Rightarrow> OIDCProvider \<Rightarrow> http_request \<Rightarrow> string \<Rightarrow> bool" where
  "providerLogin w p r u \<longleftrightarrow>
     (\<exists>body m resp respBody t ui. rq_Body r = Inr body \<and> ParseQuery body = Inr m \<and>
        Do w (formPost (di_TokenEndpoint (discovery p)) (addSecret p m)) = Inr resp \<and>
        rs_StatusCode resp = 200 \<and> rs_Body resp = Inr respBody \<and> decodeToken w respBody = Inr t \<and>
        GetUserInfo w p (ot_AccessToken t) = Inr ui \<and> u = ExtractUsername p ui)"

lemma no_token_reply [simp]:
  "rp_Body (writeOAuth2Error s e d) = OAuth2Error e d"
  "rp_Body (passThrough resp b) = Raw b"
  by (simp_all add: writeOAuth2Error_def jsonReply_def passThrough_def)

lemma handleDeviceToken_cases:
  assumes "handleDeviceToken frac c w oidc random now r st = (rep, st')"
  shows "(st' = st \<and> (\<forall>t. rp_Body rep \<noteq> TokenReply t)) \<or>
    (\<exists>p u. oidc = Some p \<and> providerLogin w p r u \<and> u \<noteq> [] \<and>
      rep = jsonReply 200 (TokenReply (bearerResponse (generateRandomString 64 random))) \<and>
      st' = storeToken u (generateRandomString 64 random) (now + sint (GetTokenTTL frac (cf_TokenTTL c))) st)"
  using assms unfolding handleDeviceToken_def Let_def
  by (auto simp: providerLogin_def split: if_splits option.splits sum.splits)

text \<open>
  C10. A login either fails, with no token in the reply and the tokens and users unchanged, or the
  provider accepted it and named a user \<open>u\<close>; then the reply carries the token now recorded
  for \<open>u\<close>, his old token is gone, and a request with the new one is authenticated as \<open>u\<close> until it
  expires.
\<close>

theorem device_login:
  assumes "handleDeviceToken frac c w oidc random now r st = (rep, st')" "length random = 32"
  shows "(st' = st \<and> (\<forall>t. rp_Body rep \<noteq> TokenReply t)) \<or>
    (\<exists>p u tok. oidc = Some p \<and> providerLogin w p r u \<and>
      rep = jsonReply 200 (TokenReply (bearerResponse tok)) \<and>
      users st' = (users st)(u \<mapsto> tok) \<and>
      (\<forall>old. users st u = Some old \<longrightarrow> old \<noteq> tok \<longrightarrow> tokens st' old = None) \<and>
      (\<forall>now1 now2. now1 \<le> now + sint (GetTokenTTL frac (cf_TokenTTL c)) \<longrightarrow>
        fst (authInterceptor frac c GetCurrentUserSubject now1 now2 (''Bearer '' @ tok) st') = Inr u))"
proof -
  let ?tok = "generateRandomString 64 random"
  have "?tok \<noteq> []" using length_generateRandomString [OF assms(2)] by fastforce
  then have h: "authHeader (''Bearer '' @ ?tok) = Inr ?tok"
    by (intro authHeader_bearer TrimSpace_random assms(2))
  from handleDeviceToken_cases [OF assms(1)] show ?thesis
  proof (elim disjE exE conjE)
    fix p u
    assume p: "oidc = Some p" "providerLogin w p r u" "u \<noteq> []"
      "rep = jsonReply 200 (TokenReply (bearerResponse ?tok))"
      "st' = storeToken u ?tok (now + sint (GetTokenTTL frac (cf_TokenTTL c))) st"
    have "users st' = (users st)(u \<mapsto> ?tok)"
      "\<forall>old. users st u = Some old \<longrightarrow> old \<noteq> ?tok \<longrightarrow> tokens st' old = None"
      unfolding p(5) by (rule table.store_current) (simp add: tokens_storeToken)
    moreover have "\<forall>now1 now2. now1 \<le> now + sint (GetTokenTTL frac (cf_TokenTTL c)) \<longrightarrow>
        fst (authInterceptor frac c GetCurrentUserSubject now1 now2 (''Bearer '' @ ?tok) st') = Inr u"
      unfolding p(5) using storeToken_admitted [OF h _ p(3)] by blast
    ultimately show ?thesis using p by blast
  qed auto
qed

lemma device_login_witness:
  "users (snd (handleDeviceToken (\<lambda>_ _ _. 0) (exampleConfig ''b'') exampleWeb (Some exampleProvider)
      (replicate 32 0) 9 exampleForm exampleAuth)) ''bob'' \<noteq> users exampleAuth ''bob''"
proof -
  let ?h = "handleDeviceToken (\<lambda>_ _ _. 0) (exampleConfig ''b'') exampleWeb (Some exampleProvider)
      (replicate 32 0) 9 exampleForm exampleAuth"
  have f: "rq_Method exampleForm = ''POST''" "rq_Body exampleForm = Inr ''client_id=pbr&device_code=a%26b''"
    by (simp_all add: exampleForm_def)
  have body: "rp_Body (fst ?h) = TokenReply (bearerResponse (generateRandomString 64 (replicate 32 0)))"
    by (simp add: handleDeviceToken_def f exampleForm_parse exampleWeb_def formPost_def exampleProvider_def
      GetUserInfo_def sendRequest_def userInfoRequest_def ExtractUsername_def GetUsernameClaim_def jsonReply_def Let_def)
  have bob: "providerLogin exampleWeb exampleProvider exampleForm u \<Longrightarrow> u = ''bob''" for u
    by (auto simp: providerLogin_def exampleWeb_def exampleProvider_def GetUserInfo_def sendRequest_def
      ExtractUsername_def GetUsernameClaim_def formPost_def userInfoRequest_def)
  have old: "users exampleAuth ''bob'' = Some ''b''"
    by (simp add: exampleAuth_def svcUsers_def exampleConfig_def)
  obtain u tok where u: "providerLogin exampleWeb exampleProvider exampleForm u"
    "fst ?h = jsonReply 200 (TokenReply (bearerResponse tok))"
    "users (snd ?h) = (users exampleAuth)(u \<mapsto> tok)"
    using device_login [OF prod.collapse [symmetric, of ?h]] body by auto
  then have "tok = generateRandomString 64 (replicate 32 0)" using body by (simp add: jsonReply_def bearerResponse_def)
  moreover have "length (generateRandomString 64 (replicate 32 0)) \<noteq> length ''b''"
    by (simp add: length_generateRandomString)
  ultimately show ?thesis using u(3) bob [OF u(1)] old by auto
qed

end
