(* ===== verification/Codegen.thy ===== *)
theory Codegen
  imports Prelude
begin

text \<open>
  Code generation (\<open>internal/codegen\<close> and \<open>service/code-generation.go\<close>): a plugin is a container
  image, run with the request on its standard input.  \<open>Plugin.CodeGen\<close> does it in one go;
  \<open>OCIFSRunner.Start\<close> returns a process that the caller waits for and closes.  The image file system,
  the container runtime, the operating system and the protobuf codec are the fields of \<open>host\<close>
  and the parameters \<open>marshal\<close> and \<open>unmarshal\<close>.  The calls are recorded in a trace: those that take something
  (a mount, a directory, a pipe, a running container) when they succeed, those that give it back (unmount, remove,
  close, kill, signal, stop, wait) when they are made, whatever they return.  The lemmas are about the traces: which calls
  each path through the code makes, how often and in which order.  What a call does to the file
  systems or to the container is not modelled.
\<close>

section \<open>The host\<close>

record image_mount =
  MountPoint :: string
  Entrypoint :: "string list"
  Cmd :: "string list"

record container_mount =
  cm_Source :: string
  cm_Target :: string
  cm_Type :: string
  cm_Bind :: bool
  cm_ReadOnly :: bool

record id_mapping =
  ContainerID :: nat
  HostID :: nat
  id_Size :: nat

record Namespaces =
  NewIPC :: bool
  NewMnt :: bool
  NewNet :: bool
  NewPID :: bool
  NewUTS :: bool
  NewUser :: bool

record container_config =
  Root :: string
  Hostname :: string
  cc_Namespaces :: Namespaces
  Mounts :: "container_mount list"
  UidMappings :: "id_mapping list"
  GidMappings :: "id_mapping list"

text \<open>
  The outcomes of the calls: an error or a value; \<open>None\<close> stands for a nil error.  The methods of
  a container that the code looks for with a type assertion are \<open>None\<close> when it has no such method.
\<close>

record host =
  h_mount :: "string \<Rightarrow> image_mount res"
  h_unmount :: "goerr option"
  h_remove :: "string \<Rightarrow> goerr option"
  h_removeAll :: "string \<Rightarrow> goerr option"
  isNotExist :: "goerr \<Rightarrow> bool"
  h_mkdirTemp :: "string \<Rightarrow> string res"
  h_tempDir :: string
  h_uid :: nat
  h_gid :: nat
  h_new :: "string \<Rightarrow> string \<Rightarrow> container_config \<Rightarrow> goerr option"
  h_run :: "string \<Rightarrow> string list \<Rightarrow> goerr option"
  h_stdinPipe :: "goerr option"
  h_stdoutPipe :: "goerr option"
  h_stderrPipe :: "goerr option"
  h_write :: "string \<Rightarrow> goerr option"
  h_stdout :: "string \<Rightarrow> string res"
  h_stderr :: "string \<Rightarrow> string res"
  m_Wait :: "goerr option option"
  m_Kill :: "goerr option option"
  m_Signal :: "(string \<Rightarrow> goerr option) option"
  m_Stop :: "goerr option option"

datatype effect =
    EMount string
  | EUnmount
  | ERemove string
  | EMkdirTemp string
  | ERemoveAll string
  | EMkdirAll string
  | ENew string string container_config
  | ERun string "string list"
  | EStdinPipe
  | ECloseStdin
  | EWrite string
  | EWait
  | EKill
  | ESignal string
  | EStop

section \<open>The runner\<close>

record Spec =
  Image :: string
  Command :: "string list"
  Args :: "string list"
  Env :: "(string \<times> string) list"
  WorkingDir :: string
  StdinOnce :: bool
  StateDir :: string

datatype exit_status = ExitStatus int "goerr option"

text \<open>A \<open>sync.Once\<close> is whether its function has run.\<close>

record ocifsProcess =
  p_ctx :: bool
  p_im :: image_mount
  p_trgtroot :: string
  waitOnce :: bool
  waitStatus :: exit_status
  closeOnce :: bool
  cancelOnce :: bool

definition resolveCommand ::
  "string list \<Rightarrow> string list \<Rightarrow> string list \<Rightarrow> string list \<Rightarrow> (string \<times> string list) res" where
  "resolveCommand imageEntrypoint imageCmd overrideCommand overrideArgs =
     (let ep = (if length overrideCommand > 0 then overrideCommand else imageEntrypoint);
          args = (if length overrideArgs > 0 then overrideArgs else imageCmd)
      in if length ep = 0 then Inl (Errorf ''runner: no ENTRYPOINT/command available'')
         else Inr (hd ep, (if length ep > 1 then tl ep else []) @ (if length args > 0 then args else [])))"

definition sandbox :: "host \<Rightarrow> string \<Rightarrow> string \<Rightarrow> string \<Rightarrow> container_config" where
  "sandbox h trgtroot contID mountPoint =
     \<lparr>Root = trgtroot, Hostname = contID,
      cc_Namespaces = \<lparr>NewIPC = True, NewMnt = True, NewNet = True, NewPID = True, NewUTS = True, NewUser = True\<rparr>,
      Mounts = [\<lparr>cm_Source = mountPoint, cm_Target = trgtroot, cm_Type = ''auto'', cm_Bind = True, cm_ReadOnly = True\<rparr>],
      UidMappings = [\<lparr>ContainerID = 0, HostID = h_uid h, id_Size = 1\<rparr>],
      GidMappings = [\<lparr>ContainerID = 0, HostID = h_gid h, id_Size = 1\<rparr>]\<rparr>"

text \<open>\<open>cleanupLocal\<close>: the calls, and the errors that \<open>errors.Join\<close> joins (none is a nil error).\<close>

definition cleanupLocal :: "host \<Rightarrow> image_mount \<Rightarrow> string \<Rightarrow> effect list \<times> goerr list" where
  "cleanupLocal h im trgtroot =
     (let e1 = (case h_unmount h of Some err \<Rightarrow> [err] | None \<Rightarrow> []);
          (t2, e2) =
            (if MountPoint im \<noteq> []
             then ([ERemove (MountPoint im)],
                   case h_remove h (MountPoint im) of Some err \<Rightarrow> (if isNotExist h err then [] else [err]) | None \<Rightarrow> [])
             else ([], []));
          (t3, e3) =
            (if trgtroot \<noteq> []
             then ([ERemoveAll trgtroot],
                   case h_removeAll h trgtroot of Some err \<Rightarrow> (if isNotExist h err then [] else [err]) | None \<Rightarrow> [])
             else ([], []))
      in ([EUnmount] @ t2 @ t3, e1 @ e2 @ e3))"

definition bestEffortStop :: "host \<Rightarrow> effect list \<times> goerr option" where
  "bestEffortStop h =
     (case m_Kill h of
        Some r \<Rightarrow> ([EKill], r)
      | None \<Rightarrow>
     (case m_Signal h of
        Some sig \<Rightarrow>
          (if sig ''SIGTERM'' = None then ([ESignal ''SIGTERM''], None)
           else ([ESignal ''SIGTERM'', ESignal ''SIGKILL''], sig ''SIGKILL''))
      | None \<Rightarrow>
     (case m_Stop h of
        Some r \<Rightarrow> ([EStop], r)
      | None \<Rightarrow> ([], None))))"

definition randHex :: "nat \<Rightarrow> byte list \<Rightarrow> string" where
  "randHex nBytes random = EncodeToString (take nBytes random)"

definition defaultStateDir :: "host \<Rightarrow> effect list \<times> string" where
  "defaultStateDir h = (let d = h_tempDir h @ ''/'' @ ''contstate'' in ([EMkdirAll d], d))"

text \<open>\<open>im.Unmount(); os.Remove(im.MountPoint())\<close>, the early returns' release of the image.\<close>

definition dropImage :: "image_mount \<Rightarrow> effect list" where
  "dropImage im = [EUnmount, ERemove (MountPoint im)]"

definition Start ::
  "host \<Rightarrow> string \<Rightarrow> byte list \<Rightarrow> bool \<Rightarrow> Spec \<Rightarrow> effect list \<times> ocifsProcess res" where
  "Start h runnerStateDir random ctx spec =
     (if Image spec = [] then ([], Inl (Errorf ''runner: spec.Image is required''))
      else case h_mount h (Image spec) of
        Inl err \<Rightarrow> ([], Inl (Wrapf ''runner: mount image'' err))
      | Inr im \<Rightarrow>
     (case resolveCommand (Entrypoint im) (Cmd im) (Command spec) (Args spec) of
        Inl err \<Rightarrow> ([EMount (Image spec)] @ dropImage im, Inl err)
      | Inr (finalCmd, finalArgs) \<Rightarrow>
     (case h_mkdirTemp h ''ocifs-trgt-'' of
        Inl err \<Rightarrow> ([EMount (Image spec)] @ dropImage im, Inl (Wrapf ''runner: mk temp root'' err))
      | Inr trgtroot \<Rightarrow>
     (let contID = ''codegen-'' @ randHex 8 random;
          sd1 = (if StateDir spec = [] then runnerStateDir else StateDir spec);
          (t1, stateDir) = (if sd1 = [] then defaultStateDir h else ([], sd1));
          cfg = sandbox h trgtroot contID (MountPoint im);
          t2 = [EMount (Image spec), EMkdirTemp trgtroot] @ t1;
          t3 = t2 @ [ENew stateDir contID cfg];
          t4 = t3 @ [ERun finalCmd finalArgs];
          cleanup = fst (cleanupLocal h im trgtroot);
          stop = fst (bestEffortStop h)
      in case h_new h stateDir contID cfg of
           Some err \<Rightarrow> (t2 @ cleanup, Inl (Wrapf ''runner: create container'' err))
         | None \<Rightarrow>
     (case h_run h finalCmd finalArgs of
        Some err \<Rightarrow> (t3 @ cleanup, Inl (Wrapf ''runner: run'' err))
      | None \<Rightarrow>
     (case h_stdinPipe h of
        Some err \<Rightarrow> (t4 @ stop @ cleanup, Inl (Wrapf ''runner: stdin pipe'' err))
      | None \<Rightarrow>
     (case h_stdoutPipe h of
        Some err \<Rightarrow> (t4 @ [EStdinPipe, ECloseStdin] @ stop @ cleanup, Inl (Wrapf ''runner: stdout pipe'' err))
      | None \<Rightarrow>
     (case h_stderrPipe h of
        Some err \<Rightarrow> (t4 @ [EStdinPipe, ECloseStdin] @ stop @ cleanup, Inl (Wrapf ''runner: stderr pipe'' err))
      | None \<Rightarrow>
          (t4 @ [EStdinPipe],
           Inr \<lparr>p_ctx = ctx, p_im = im, p_trgtroot = trgtroot, waitOnce = False, waitStatus = ExitStatus 0 None,
             closeOnce = False, cancelOnce = True\<rparr>)))))))))"

text \<open>The last field: \<open>p.cancelOnce.Do(func() {})\<close> has run when \<open>Start\<close> returns.\<close>

definition p_Wait :: "host \<Rightarrow> ocifsProcess \<Rightarrow> effect list \<times> exit_status \<times> ocifsProcess" where
  "p_Wait h p =
     (if waitOnce p then ([], waitStatus p, p)
      else
        (let (t, status) =
           (case m_Wait h of
              None \<Rightarrow> ([], ExitStatus 1 (Some (Errorf ''runner: container does not implement Wait() error'')))
            | Some None \<Rightarrow> ([EWait], ExitStatus 0 None)
            | Some (Some err) \<Rightarrow> ([EWait], ExitStatus 1 (Some err)))
         in (t, status, p\<lparr>waitOnce := True, waitStatus := status\<rparr>)))"

definition p_Close :: "host \<Rightarrow> ocifsProcess \<Rightarrow> effect list \<times> goerr list \<times> ocifsProcess" where
  "p_Close h p =
     (if closeOnce p then ([], [], p)
      else
        (let (t, errs) = cleanupLocal h (p_im p) (p_trgtroot p)
         in ([ECloseStdin] @ fst (bestEffortStop h) @ t, errs, p\<lparr>closeOnce := True\<rparr>)))"

text \<open>
  \<open>watchCancel\<close> once the context is done.  The stop that \<open>time.AfterFunc\<close> delays by 150 ms comes after the
  closing of standard input.
\<close>

definition watchCancel :: "host \<Rightarrow> ocifsProcess \<Rightarrow> effect list \<times> ocifsProcess" where
  "watchCancel h p =
     (if \<not> p_ctx p then ([], p)
      else if cancelOnce p then ([], p)
      else ([ECloseStdin] @ fst (bestEffortStop h), p\<lparr>cancelOnce := True\<rparr>))"

section \<open>The plugin\<close>

record Plugin =
  image :: string
  defVer :: string

definition Plugin_Image :: "Plugin \<Rightarrow> string" where
  [simp]: "Plugin_Image p = image p"

definition imageRef :: "Plugin \<Rightarrow> string \<Rightarrow> string" where
  "imageRef p ver0 =
     (let ver = (if ver0 = [] \<and> defVer p \<noteq> [] then defVer p else ver0)
      in if ver \<noteq> [] then Plugin_Image p @ '':'' @ ver else Plugin_Image p)"

definition letterBytes :: string where
  "letterBytes = ''abcdefghijklmnopqrstuvwxyzABCDEFGHIJKLMNOPQRSTUVWXYZ''"

definition randStringBytes :: "nat \<Rightarrow> nat list \<Rightarrow> string" where
  "randStringBytes n draws = map (\<lambda>i. letterBytes ! (i mod length letterBytes)) (take n draws)"

text \<open>
  From the running container to the response (the code behind \<open>cont.Run\<close>), without the deferred
  calls.  Here \<open>cont.Wait()\<close> is called on the concrete type, so the method exists.
\<close>

definition talk :: "host \<Rightarrow> ('q \<Rightarrow> string res) \<Rightarrow> (string \<Rightarrow> 'r res) \<Rightarrow> 'q \<Rightarrow> effect list \<times> 'r res" where
  "talk h marshal unmarshal input =
     (case h_stdinPipe h of
        Some err \<Rightarrow> ([], Inl err)
      | None \<Rightarrow>
     (case h_stdoutPipe h of
        Some err \<Rightarrow> ([EStdinPipe], Inl err)
      | None \<Rightarrow>
     (case h_stderrPipe h of
        Some err \<Rightarrow> ([EStdinPipe], Inl err)
      | None \<Rightarrow>
     (case marshal input of
        Inl err \<Rightarrow> ([EStdinPipe], Inl err)
      | Inr inData \<Rightarrow>
     (case h_write h inData of
        Some err \<Rightarrow> ([EStdinPipe, EWrite inData], Inl err)
      | None \<Rightarrow>
     (let t = [EStdinPipe, EWrite inData, ECloseStdin] in
      case h_stdout h inData of
        Inl err \<Rightarrow> (t, Inl err)
      | Inr outData \<Rightarrow>
     (case h_stderr h inData of
        Inl err \<Rightarrow> (t, Inl err)
      | Inr errData \<Rightarrow>
          if length errData > 0 then (t, Inl (Errorf (''stderr: '' @ errData)))
          else (case m_Wait h of
                  Some (Some err) \<Rightarrow> (t @ [EWait], Inl err)
                | _ \<Rightarrow>
                    if length outData = 0 then (t @ [EWait], Inl (Errorf ''no output data''))
                    else (t @ [EWait], unmarshal outData)))))))))"

text \<open>The deferred calls run in the reverse order of their \<open>defer\<close> statements.\<close>

definition CodeGen ::
  "host \<Rightarrow> ('q \<Rightarrow> string res) \<Rightarrow> (string \<Rightarrow> 'r res) \<Rightarrow> nat list \<Rightarrow> Plugin \<Rightarrow> string \<Rightarrow> 'q \<Rightarrow> effect list \<times> 'r res" where
  "CodeGen h marshal unmarshal draws p ver input =
     (let img = imageRef p ver in
      case h_mount h img of
        Inl err \<Rightarrow> ([], Inl err)
      | Inr im \<Rightarrow>
     (let deferImage = [ERemove (MountPoint im), EUnmount] in
      if length (Entrypoint im) = 0 then ([EMount img] @ deferImage, Inl (Errorf ''no entrypoint found''))
      else case h_mkdirTemp h ''trgt'' of
        Inl err \<Rightarrow> ([EMount img] @ deferImage, Inl err)
      | Inr trgtroot \<Rightarrow>
     (let contId = randStringBytes 16 draws;
          cfg = sandbox h trgtroot contId (MountPoint im);
          t1 = [EMount img, EMkdirTemp trgtroot];
          t2 = t1 @ [ENew ''/tmp/contstate'' contId cfg];
          deferred = [ERemoveAll trgtroot] @ deferImage;
          args = (if length (Entrypoint im) > 1 then tl (Entrypoint im) else []) @
                 (if length (Cmd im) > 0 then Cmd im else [])
      in case h_new h ''/tmp/contstate'' contId cfg of
           Some err \<Rightarrow> (t1 @ deferred, Inl err)
         | None \<Rightarrow>
     (case h_run h (hd (Entrypoint im)) args of
        Some err \<Rightarrow> (t2 @ deferred, Inl err)
      | None \<Rightarrow>
          (let (t3, result) = talk h marshal unmarshal input
           in (t2 @ [ERun (hd (Entrypoint im)) args] @ t3 @ deferred, result))))))"

section \<open>GenerateCode\<close>

text \<open>
  Nested messages that the handler only copies are kept in their serialised form.  A file of the
  image has, besides the fields of a \<open>FileDescriptorProto\<close>, buf's extension, whose \<open>IsImport\<close> may be absent.
\<close>

record FileDescriptorProto =
  fd_Name :: "string option"
  fd_Package :: "string option"
  fd_Dependency :: "string list"
  fd_PublicDependency :: "nat list"
  fd_WeakDependency :: "nat list"
  fd_MessageType :: "string list"
  fd_EnumType :: "string list"
  fd_Service :: "string list"
  fd_Extension :: "string list"
  fd_Options :: "string option"
  fd_SourceCodeInfo :: "string option"
  fd_Syntax :: "string option"
  fd_Edition :: "string option"

record ImageFile = FileDescriptorProto +
  BufExtension :: "bool option option"

record CodeGeneratorRequest =
  ProtoFile :: "FileDescriptorProto list"
  FileToGenerate :: "string list"
  Parameter :: "string option"

record PluginReference =
  pr_Owner :: string
  pr_Name :: string
  pr_Version :: string

record PluginGenerationRequest =
  PluginReference :: "PluginReference option"
  gr_Options :: "string list"

record GenerateCodeRequest =
  gc_Image :: "ImageFile list option"
  gc_Requests :: "PluginGenerationRequest list"

definition toFileDescriptorProto :: "ImageFile \<Rightarrow> FileDescriptorProto" where
  "toFileDescriptorProto f =
     \<lparr>fd_Name = fd_Name f, fd_Package = fd_Package f, fd_Dependency = fd_Dependency f,
      fd_PublicDependency = fd_PublicDependency f, fd_WeakDependency = fd_WeakDependency f,
      fd_MessageType = fd_MessageType f, fd_EnumType = fd_EnumType f, fd_Service = fd_Service f,
      fd_Extension = fd_Extension f, fd_Options = fd_Options f, fd_SourceCodeInfo = fd_SourceCodeInfo f,
      fd_Syntax = fd_Syntax f, fd_Edition = fd_Edition f\<rparr>"

fun addFiles :: "ImageFile list \<Rightarrow> CodeGeneratorRequest \<Rightarrow> CodeGeneratorRequest" where
  "addFiles [] genReq = genReq"
| "addFiles (f # fs) genReq =
     (let g1 = genReq\<lparr>ProtoFile := ProtoFile genReq @ [toFileDescriptorProto f]\<rparr>;
          g2 = (if BufExtension f = Some (Some False)
                then g1\<lparr>FileToGenerate := FileToGenerate g1 @ [case fd_Name f of Some n \<Rightarrow> n | None \<Rightarrow> []]\<rparr>
                else g1)
      in addFiles fs g2)"

definition getPlugin :: "(string \<Rightarrow> Plugin option) \<Rightarrow> PluginReference \<Rightarrow> Plugin res" where
  "getPlugin plugins ref =
     (let name = pr_Owner ref @ ''/'' @ pr_Name ref in
      case plugins name of
        None \<Rightarrow> Inl (Errorf (''plugin config not found: '' @ name))
      | Some plug \<Rightarrow> Inr plug)"

text \<open>
  The loop over the requests; \<open>codeGen i\<close> is the \<open>i\<close>-th call of \<open>CodeGen\<close>.  The request message is shared:
  every round overwrites its parameter.
\<close>

fun generateLoop ::
  "(string \<Rightarrow> Plugin option) \<Rightarrow> (nat \<Rightarrow> Plugin \<Rightarrow> string \<Rightarrow> CodeGeneratorRequest \<Rightarrow> effect list \<times> 'r res) \<Rightarrow>
   nat \<Rightarrow> CodeGeneratorRequest \<Rightarrow> PluginGenerationRequest list \<Rightarrow> effect list \<times> 'r list res" where
  "generateLoop plugins codeGen i genReq [] = ([], Inr [])"
| "generateLoop plugins codeGen i genReq (request # rest) =
     (let g1 = genReq\<lparr>Parameter := Some (JoinWith '','' (gr_Options request))\<rparr> in
      case PluginReference request of
        None \<Rightarrow> ([], Inl Panic)
      | Some plugRef \<Rightarrow>
     (case getPlugin plugins plugRef of
        Inl err \<Rightarrow> ([], Inl err)
      | Inr plugin \<Rightarrow>
     (case codeGen i plugin (pr_Version plugRef) g1 of
        (t1, Inl err) \<Rightarrow> (t1, Inl err)
      | (t1, Inr out) \<Rightarrow>
          (case generateLoop plugins codeGen (Suc i) g1 rest of
             (t2, Inl err) \<Rightarrow> (t1 @ t2, Inl err)
           | (t2, Inr responses) \<Rightarrow> (t1 @ t2, Inr (out # responses))))))"

definition Svc_GenerateCode ::
  "(string \<Rightarrow> Plugin option) \<Rightarrow> (nat \<Rightarrow> Plugin \<Rightarrow> string \<Rightarrow> CodeGeneratorRequest \<Rightarrow> effect list \<times> 'r res) \<Rightarrow>
   GenerateCodeRequest \<Rightarrow> effect list \<times> 'r list res" where
  "Svc_GenerateCode plugins codeGen req =
     (case gc_Image req of
        None \<Rightarrow> ([], Inl Panic)
      | Some files \<Rightarrow>
          generateLoop plugins codeGen 0
            (addFiles files \<lparr>ProtoFile = [], FileToGenerate = [], Parameter = None\<rparr>) (gc_Requests req))"

section \<open>The calls that give back\<close>

definition isRelease :: "effect \<Rightarrow> bool" where
  "isRelease e \<longleftrightarrow>
     (case e of EUnmount \<Rightarrow> True | ERemove _ \<Rightarrow> True | ERemoveAll _ \<Rightarrow> True | ECloseStdin \<Rightarrow> True
      | EKill \<Rightarrow> True | ESignal _ \<Rightarrow> True | EStop \<Rightarrow> True | _ \<Rightarrow> False)"

text \<open>
  The calls that give back what a trace took, in their order: the standard input that was opened, the
  container that was started, the mounted image with the directory of its mount point, and the temporary
  directory.
\<close>

definition giveBack :: "host \<Rightarrow> effect list \<Rightarrow> effect list" where
  "giveBack h es =
     (if EStdinPipe \<in> set es then [ECloseStdin] else []) @
     (if \<exists>e \<in> set es. case e of ERun _ _ \<Rightarrow> True | _ \<Rightarrow> False then fst (bestEffortStop h) else []) @
     concat (map (\<lambda>e. case e of
         EMount img \<Rightarrow> (case h_mount h img of Inr im \<Rightarrow> [EUnmount, ERemove (MountPoint im)] | Inl _ \<Rightarrow> [])
       | _ \<Rightarrow> []) es) @
     concat (map (\<lambda>e. case e of EMkdirTemp d \<Rightarrow> [ERemoveAll d] | _ \<Rightarrow> []) es)"

text \<open>The host names what it creates: mount points and temporary directories have a path.\<close>

definition namesPaths :: "host \<Rightarrow> bool" where
  "namesPaths h \<longleftrightarrow>
     (\<forall>i im. h_mount h i = Inr im \<longrightarrow> MountPoint im \<noteq> []) \<and> (\<forall>d p. h_mkdirTemp h d = Inr p \<longrightarrow> p \<noteq> [])"

lemma cleanupLocal_calls:
  "MountPoint im \<noteq> [] \<Longrightarrow> trgtroot \<noteq> [] \<Longrightarrow>
   fst (cleanupLocal h im trgtroot) = [EUnmount, ERemove (MountPoint im), ERemoveAll trgtroot]"
  by (simp add: cleanupLocal_def Let_def)

text \<open>At least one stopping call is made if the container has a method for it.\<close>

lemma bestEffortStop_calls:
  "fst (bestEffortStop h) = [] \<longleftrightarrow> m_Kill h = None \<and> m_Signal h = None \<and> m_Stop h = None"
  "e \<in> set (fst (bestEffortStop h)) \<Longrightarrow> e = EKill \<or> e = ESignal ''SIGTERM'' \<or> e = ESignal ''SIGKILL'' \<or> e = EStop"
  by (auto simp: bestEffortStop_def split: option.splits if_splits)

lemma stop_isRelease: "e \<in> set (fst (bestEffortStop h)) \<Longrightarrow> isRelease e"
  by (auto simp: isRelease_def dest: bestEffortStop_calls(2))

lemma defaultStateDir_calls: "fst (defaultStateDir h) = [EMkdirAll (h_tempDir h @ ''/contstate'')]"
  by (simp add: defaultStateDir_def Let_def)

subsection \<open>The runner\<close>

datatype p_op = OpWait | OpClose | OpCancel

fun runOps :: "host \<Rightarrow> ocifsProcess \<Rightarrow> p_op list \<Rightarrow> effect list" where
  "runOps h p [] = []"
| "runOps h p (OpWait # ops) = (case p_Wait h p of (t, _, p') \<Rightarrow> t @ runOps h p' ops)"
| "runOps h p (OpClose # ops) = (case p_Close h p of (t, _, p') \<Rightarrow> t @ runOps h p' ops)"
| "runOps h p (OpCancel # ops) = (case watchCancel h p of (t, p') \<Rightarrow> t @ runOps h p' ops)"

text \<open>The calls of \<open>Close\<close>.\<close>

definition closeCalls :: "host \<Rightarrow> ocifsProcess \<Rightarrow> effect list" where
  "closeCalls h p = [ECloseStdin] @ fst (bestEffortStop h) @
     [EUnmount, ERemove (MountPoint (p_im p)), ERemoveAll (p_trgtroot p)]"

definition started :: "ocifsProcess \<Rightarrow> bool" where
  "started p \<longleftrightarrow> MountPoint (p_im p) \<noteq> [] \<and> p_trgtroot p \<noteq> [] \<and> cancelOnce p"

lemma closeCalls_isRelease: "e \<in> set (closeCalls h p) \<Longrightarrow> isRelease e"
  by (auto simp: closeCalls_def dest: stop_isRelease) (auto simp: isRelease_def)

lemma closeCalls_EWait: "count_list (closeCalls h p) EWait = 0" "filter (\<lambda>e. e \<noteq> EWait) (closeCalls h p) = closeCalls h p"
  using closeCalls_isRelease [of EWait h p]
  by (auto simp: count_list_0_iff filter_id_conv isRelease_def)

text \<open>The calls before the first release.\<close>

definition taken :: "effect list \<Rightarrow> effect list" where
  "taken es = takeWhile (\<lambda>e. \<not> isRelease e) es"

lemma taken_simps [simp]:
  "taken [] = []"
  "taken (e # es) = (if isRelease e then [] else e # taken es)"
  by (simp_all add: taken_def)

lemma isRelease_simps [simp]:
  "\<not> isRelease (EMount i)" "\<not> isRelease (EMkdirTemp d)" "\<not> isRelease (EMkdirAll d)" "\<not> isRelease (ENew d c cfg)"
  "\<not> isRelease (ERun c as)" "\<not> isRelease EStdinPipe" "\<not> isRelease (EWrite d)" "\<not> isRelease EWait"
  "isRelease EUnmount" "isRelease (ERemove d)" "isRelease (ERemoveAll d)" "isRelease ECloseStdin"
  "isRelease EKill" "isRelease (ESignal sg)" "isRelease EStop"
  by (simp_all add: isRelease_def)

lemma taken_stop [simp]: "taken (fst (bestEffortStop h) @ EUnmount # es) = []"
  by (auto simp: bestEffortStop_def split: option.split)

lemma Start_failed:
  assumes "namesPaths h" "Start h sd random ctx spec = (es, Inl err)"
  shows "es = taken es @ giveBack h (taken es)"
  using assms
  by (auto simp: Start_def namesPaths_def Let_def case_prod_beta dropImage_def cleanupLocal_calls
      defaultStateDir_calls giveBack_def split: if_splits sum.splits option.splits)

lemma Start_started:
  assumes "namesPaths h" "Start h sd random ctx spec = (es, Inr p)"
  shows "taken es = es \<and> giveBack h es = closeCalls h p \<and> started p \<and> \<not> closeOnce p \<and> \<not> waitOnce p"
  using assms
  by (auto simp: Start_def namesPaths_def Let_def case_prod_beta started_def closeCalls_def
      defaultStateDir_calls giveBack_def split: if_splits sum.splits option.splits)

text \<open>Only the first \<open>Wait\<close> and the first \<open>Close\<close> make calls, and a cancellation makes none.\<close>

lemma watchCancel_started [simp]: "started p \<Longrightarrow> watchCancel h p = ([], p)"
  by (simp add: watchCancel_def started_def)

lemma p_Wait_started:
  assumes "p_Wait h p = (t, s, p')" "started p"
  shows "started p'" "closeOnce p' = closeOnce p" "waitOnce p'" "closeCalls h p' = closeCalls h p"
    and "t = (if waitOnce p \<or> m_Wait h = None then [] else [EWait])"
  using assms
  by (auto simp: p_Wait_def started_def closeCalls_def Let_def case_prod_beta split: if_splits option.splits)

lemma p_Close_started:
  assumes "p_Close h p = (t, errs, p')" "started p"
  shows "started p'" "closeOnce p'" "waitOnce p' = waitOnce p" "closeCalls h p' = closeCalls h p"
    and "t = (if closeOnce p then [] else closeCalls h p)"
  using assms
  by (auto simp: p_Close_def started_def closeCalls_def cleanupLocal_def Let_def case_prod_beta split: if_splits)

lemma runOps_calls:
  "started p \<Longrightarrow>
   filter (\<lambda>e. e \<noteq> EWait) (runOps h p ops) = (if OpClose \<in> set ops \<and> \<not> closeOnce p then closeCalls h p else []) \<and>
   count_list (runOps h p ops) EWait = (if OpWait \<in> set ops \<and> \<not> waitOnce p \<and> m_Wait h \<noteq> None then 1 else 0)"
proof (induction ops arbitrary: p)
  case Nil
  show ?case by simp
next
  case (Cons a ops)
  show ?case
  proof (cases a)
    case OpWait
    obtain t s p' where w: "p_Wait h p = (t, s, p')" by (metis prod_cases3)
    show ?thesis
      using Cons.IH [OF p_Wait_started(1) [OF w Cons.prems]] p_Wait_started(2-5) [OF w Cons.prems]
      by (auto simp: OpWait w)
  next
    case OpClose
    obtain t es p' where c: "p_Close h p = (t, es, p')" by (metis prod_cases3)
    show ?thesis
      using Cons.IH [OF p_Close_started(1) [OF c Cons.prems]] p_Close_started(2-5) [OF c Cons.prems]
      by (auto simp: OpClose c closeCalls_EWait)
  next
    case OpCancel
    then show ?thesis using Cons by simp
  qed
qed

text \<open>The contract of \<open>Process\<close> (\<open>runner.go\<close>): one status however often one waits, and an idempotent close.\<close>

locale process =
  fixes wait_op :: "'p \<Rightarrow> effect list \<times> exit_status \<times> 'p"
    and close_op :: "'p \<Rightarrow> effect list \<times> goerr list \<times> 'p"
  assumes wait_again: "wait_op p = (t, s, p') \<Longrightarrow> wait_op p' = ([], s, p')"
    and close_again: "close_op p = (t, e, p') \<Longrightarrow> close_op p' = ([], [], p')"
    and wait_keeps_close: "close_op p = ([], [], p) \<Longrightarrow> wait_op p = (t, s, p') \<Longrightarrow> close_op p' = ([], [], p')"
    and close_keeps_wait: "wait_op p = ([], s, p) \<Longrightarrow> close_op p = (t, e, p') \<Longrightarrow> wait_op p' = ([], s, p')"
begin

lemma wait_close_wait: "wait_op p = (t, s, p1) \<Longrightarrow> close_op p1 = (t', e, p2) \<Longrightarrow> wait_op p2 = ([], s, p2)"
  by (rule close_keeps_wait [OF wait_again])

lemma close_wait_close: "close_op p = (t, e, p1) \<Longrightarrow> wait_op p1 = (t', s, p2) \<Longrightarrow> close_op p2 = ([], [], p2)"
  by (rule wait_keeps_close [OF close_again])

end

lemma p_Wait_idle: "p_Wait h p = (t, s, p) \<Longrightarrow> waitOnce p \<and> s = waitStatus p"
  by (cases p) (auto simp: p_Wait_def Let_def case_prod_beta split: if_splits)

lemma p_Close_idle: "p_Close h p = (t, e, p) \<Longrightarrow> closeOnce p"
  by (cases p) (auto simp: p_Close_def Let_def case_prod_beta split: if_splits)

interpretation ocifs: process "p_Wait h" "p_Close h"
proof
  fix p t s p' e
  show "p_Wait h p = (t, s, p') \<Longrightarrow> p_Wait h p' = ([], s, p')"
    and "p_Close h p = (t, e, p') \<Longrightarrow> p_Close h p' = ([], [], p')"
    by (auto simp: p_Wait_def p_Close_def Let_def case_prod_beta split: if_splits)
  show "p_Close h p = ([], [], p) \<Longrightarrow> p_Wait h p = (t, s, p') \<Longrightarrow> p_Close h p' = ([], [], p')"
    by (drule p_Close_idle) (auto simp: p_Wait_def p_Close_def Let_def case_prod_beta split: if_splits)
  show "p_Wait h p = ([], s, p) \<Longrightarrow> p_Close h p = (t, e, p') \<Longrightarrow> p_Wait h p' = ([], s, p')"
    by (drule p_Wait_idle) (auto simp: p_Wait_def p_Close_def Let_def case_prod_beta split: if_splits)
qed

text \<open>
  C21. The runner makes the calls that give back what it took.  When \<open>Start\<close> fails, its trace is the calls that took
  something followed by exactly the calls that give back what they took, in a fixed order: the standard input is closed, the started
  container is asked to stop (by the calls of \<open>bestEffortStop\<close>, none if it has no such method), the image is unmounted and the directory of
  its mount point removed, the temporary directory is removed.  A successful \<open>Start\<close> gives nothing back; afterwards, in
  any sequence of waits, closes and cancellations, the same calls are made once if there is a close, and none of them
  otherwise: waiting gives nothing back, and neither does a cancelled context, because \<open>Start\<close> has already used up
  the \<open>cancelOnce\<close> that \<open>watchCancel\<close> relies on.  The container is waited for once at most.
\<close>

theorem runner_releases:
  assumes "namesPaths h" "Start h sd random ctx spec = (es, r)"
  shows "case r of
      Inl _ \<Rightarrow> es = taken es @ giveBack h (taken es)
    | Inr p \<Rightarrow> taken es = es \<and>
        giveBack h es = [ECloseStdin] @ fst (bestEffortStop h) @
          [EUnmount, ERemove (MountPoint (p_im p)), ERemoveAll (p_trgtroot p)] \<and>
        filter (\<lambda>e. e \<noteq> EWait) (runOps h p ops) = (if OpClose \<in> set ops then giveBack h es else []) \<and>
        count_list (runOps h p ops) EWait = (if OpWait \<in> set ops \<and> m_Wait h \<noteq> None then 1 else 0)"
proof (cases r)
  case (Inl e)
  then show ?thesis using Start_failed assms by simp
next
  case (Inr p)
  then show ?thesis
    using Start_started [OF assms(1) assms(2) [unfolded Inr]] runOps_calls [of p h ops] by (auto simp: closeCalls_def)
qed

text \<open>A host on which every call succeeds, with a plugin that complains as \<open>complaint\<close> says.\<close>

definition exampleHost :: "string \<Rightarrow> host" where
  "exampleHost complaint =
     \<lparr>h_mount = (\<lambda>i. Inr \<lparr>MountPoint = ''/m'', Entrypoint = [''/p''], Cmd = [''x'']\<rparr>), h_unmount = None,
      h_remove = (\<lambda>_. None), h_removeAll = (\<lambda>_. None), isNotExist = (\<lambda>_. False), h_mkdirTemp = (\<lambda>_. Inr ''/t''),
      h_tempDir = ''/tmp'', h_uid = 1, h_gid = 1, h_new = (\<lambda>_ _ _. None), h_run = (\<lambda>_ _. None),
      h_stdinPipe = None, h_stdoutPipe = None, h_stderrPipe = None, h_write = (\<lambda>_. None),
      h_stdout = (\<lambda>i. Inr (''out:'' @ i)), h_stderr = (\<lambda>_. Inr complaint), m_Wait = Some None,
      m_Kill = None, m_Signal = Some (\<lambda>_. None), m_Stop = None\<rparr>"

lemma exampleHost_ok: "namesPaths (exampleHost c)"
  by (simp add: namesPaths_def exampleHost_def)

definition exampleSpec :: Spec where
  "exampleSpec = \<lparr>Image = ''i'', Command = [], Args = [], Env = [], WorkingDir = [], StdinOnce = False, StateDir = []\<rparr>"

text \<open>A host whose containers have no pipe for the standard output: the started container is signalled.\<close>

definition pipelessHost :: host where
  "pipelessHost = (exampleHost [])\<lparr>h_stdoutPipe := Some (Errorf ''no pipe'')\<rparr>"

lemma pipelessHost_ok: "namesPaths pipelessHost"
  by (simp add: namesPaths_def pipelessHost_def exampleHost_def)

lemma pipeless_Start:
  "snd (Start pipelessHost ''/s'' [] True exampleSpec) = Inl (Wrapf ''runner: stdout pipe'' (Errorf ''no pipe''))"
  "giveBack pipelessHost (taken (fst (Start pipelessHost ''/s'' [] True exampleSpec))) =
     [ECloseStdin, ESignal ''SIGTERM'', EUnmount, ERemove ''/m'', ERemoveAll ''/t'']"
  by (simp_all add: Start_def pipelessHost_def exampleHost_def exampleSpec_def resolveCommand_def giveBack_def
      bestEffortStop_def Let_def)

lemma example_Start: "snd (Start (exampleHost []) ''/s'' [] True exampleSpec) \<noteq> Inl e"
  by (simp add: Start_def exampleHost_def exampleSpec_def resolveCommand_def Let_def)

lemma runner_releases_witness:
  "(\<exists>es e. Start pipelessHost ''/s'' [] True exampleSpec = (es, Inl e) \<and>
      es = taken es @ [ECloseStdin, ESignal ''SIGTERM'', EUnmount, ERemove ''/m'', ERemoveAll ''/t'']) \<and>
   (\<exists>es p. Start (exampleHost []) ''/s'' [] True exampleSpec = (es, Inr p) \<and>
      filter (\<lambda>e. e \<noteq> EWait) (runOps (exampleHost []) p [OpCancel, OpWait]) = [] \<and>
      filter (\<lambda>e. e \<noteq> EWait) (runOps (exampleHost []) p [OpCancel, OpClose, OpWait, OpClose]) = giveBack (exampleHost []) es)"
proof
  obtain es e where "Start pipelessHost ''/s'' [] True exampleSpec = (es, Inl e)"
    "giveBack pipelessHost (taken es) = [ECloseStdin, ESignal ''SIGTERM'', EUnmount, ERemove ''/m'', ERemoveAll ''/t'']"
    using pipeless_Start by (metis prod.collapse)
  then show "\<exists>es e. Start pipelessHost ''/s'' [] True exampleSpec = (es, Inl e) \<and>
      es = taken es @ [ECloseStdin, ESignal ''SIGTERM'', EUnmount, ERemove ''/m'', ERemoveAll ''/t'']"
    using runner_releases [OF pipelessHost_ok, of "''/s''" "[]" True exampleSpec es "Inl e" "[]"] by auto
next
  obtain es p where s: "Start (exampleHost []) ''/s'' [] True exampleSpec = (es, Inr p)"
    using example_Start by (metis prod.collapse sum.exhaust)
  show "\<exists>es p. Start (exampleHost []) ''/s'' [] True exampleSpec = (es, Inr p) \<and>
      filter (\<lambda>e. e \<noteq> EWait) (runOps (exampleHost []) p [OpCancel, OpWait]) = [] \<and>
      filter (\<lambda>e. e \<noteq> EWait) (runOps (exampleHost []) p [OpCancel, OpClose, OpWait, OpClose]) = giveBack (exampleHost []) es"
    using runner_releases [OF exampleHost_ok s, of "[OpCancel, OpWait]"] s
      runner_releases [OF exampleHost_ok s, of "[OpCancel, OpClose, OpWait, OpClose]"] by simp
qed

subsection \<open>The plugin\<close>

text \<open>The calls behind \<open>cont.Run\<close>; the plugin is waited for when it has answered without a complaint.\<close>

definition answered :: "host \<Rightarrow> ('q \<Rightarrow> string res) \<Rightarrow> 'q \<Rightarrow> bool" where
  "answered h marshal input \<longleftrightarrow>
     h_stdinPipe h = None \<and> h_stdoutPipe h = None \<and> h_stderrPipe h = None \<and>
     (case marshal input of
        Inl _ \<Rightarrow> False
      | Inr inData \<Rightarrow> h_write h inData = None \<and> (\<exists>outData. h_stdout h inData = Inr outData) \<and> h_stderr h inData = Inr [])"

lemma talk_calls:
  assumes "talk h marshal unmarshal input = (t, r)"
  shows "\<forall>e \<in> set t. isRelease e \<longrightarrow> e = ECloseStdin"
    and "EMkdirTemp d \<notin> set t" "ERun c as \<notin> set t"
    and "EWait \<in> set t \<longleftrightarrow> answered h marshal input"
    and "ECloseStdin \<in> set t \<longleftrightarrow> (\<exists>inData. EWrite inData \<in> set t \<and> h_write h inData = None)"
    and "r = Inr out \<Longrightarrow> EWait \<in> set t"
  using assms
  by (auto simp: talk_def answered_def Let_def split: sum.splits option.splits if_splits)

definition deferred :: "image_mount \<Rightarrow> effect list \<Rightarrow> effect list" where
  "deferred im es = concat (map (\<lambda>e. case e of EMkdirTemp d \<Rightarrow> [ERemoveAll d] | _ \<Rightarrow> []) es) @
     [ERemove (MountPoint im), EUnmount]"

lemma no_tempdirs: "(\<And>d. EMkdirTemp d \<notin> set es) \<Longrightarrow>
  concat (map (\<lambda>e. case e of EMkdirTemp d \<Rightarrow> [ERemoveAll d] | _ \<Rightarrow> []) es) = []"
  by (auto split: effect.split)

text \<open>The calls before \<open>cont.Run\<close>, and the two kinds of paths: the container was started or not.\<close>

definition beforeRun :: "effect list \<Rightarrow> bool" where
  "beforeRun es \<longleftrightarrow> (\<forall>e \<in> set es. case e of EMount _ \<Rightarrow> True | EMkdirTemp _ \<Rightarrow> True | ENew _ _ _ \<Rightarrow> True | _ \<Rightarrow> False)"

lemma beforeRun_simps [simp]:
  "beforeRun []" "beforeRun (EMount i # es) = beforeRun es" "beforeRun (EMkdirTemp d # es) = beforeRun es" "beforeRun (ENew s c cfg # es) = beforeRun es"
  by (simp_all add: beforeRun_def)

lemma beforeRun_calls:
  "beforeRun es \<Longrightarrow> e \<in> set es \<Longrightarrow>
   \<not> isRelease e \<and> e \<noteq> EWait \<and> e \<noteq> ECloseStdin \<and> e \<noteq> EWrite x \<and> e \<noteq> ERun c as"
  by (cases e) (auto simp: beforeRun_def)

lemma CodeGen_paths:
  assumes "CodeGen h marshal unmarshal draws p ver input = (es, r)" "h_mount h (imageRef p ver) = Inr im"
  obtains (not_started) pre err where "beforeRun pre" "es = pre @ deferred im pre" "r = Inl err"
  | (ran) pre cmd args t where "beforeRun pre" "talk h marshal unmarshal input = (t, r)"
      "es = pre @ [ERun cmd args] @ t @ deferred im pre"
proof -
  let ?c = "randStringBytes 16 draws" and ?img = "imageRef p ver"
  let ?args = "(if length (Entrypoint im) > 1 then tl (Entrypoint im) else []) @ (if length (Cmd im) > 0 then Cmd im else [])"
  obtain t r' where t: "talk h marshal unmarshal input = (t, r')" by fastforce
  show thesis
  proof (cases "Entrypoint im = [] \<or> h_mkdirTemp h ''trgt'' \<in> range Inl")
    case True
    then have "es = [EMount ?img] @ deferred im [EMount ?img] \<and> (\<exists>err. r = Inl err)"
      using assms
      by (cases "Entrypoint im = []"; cases "h_mkdirTemp h ''trgt''") (auto simp: CodeGen_def deferred_def Let_def)
    then show thesis using not_started [of "[EMount ?img]"] by auto
  next
    case False
    then obtain root where root: "Entrypoint im \<noteq> []" "h_mkdirTemp h ''trgt'' = Inr root"
      by (cases "h_mkdirTemp h ''trgt''") auto
    let ?cfg = "sandbox h root ?c (MountPoint im)"
    let ?t1 = "[EMount ?img, EMkdirTemp root]"
    let ?t2 = "[EMount ?img, EMkdirTemp root, ENew ''/tmp/contstate'' ?c ?cfg]"
    show thesis
      using assms root t not_started [of ?t1] not_started [of ?t2] ran [of ?t2 t "hd (Entrypoint im)" ?args]
      by (cases "h_new h ''/tmp/contstate'' ?c ?cfg"; cases "h_run h (hd (Entrypoint im)) ?args")
        (simp_all add: CodeGen_def Let_def deferred_def, auto)
  qed
qed

lemma deferred_calls: "e \<in> set (deferred im es) \<Longrightarrow> isRelease e \<and> e \<noteq> ECloseStdin"
  by (auto simp: deferred_def split: effect.splits)

lemma deferred_skip: "(\<And>d. EMkdirTemp d \<notin> set t) \<Longrightarrow> deferred im (pre @ ERun cmd args # t) = deferred im pre"
  by (simp add: deferred_def no_tempdirs)

text \<open>
  C35. What \<open>CodeGen\<close> calls once the image is mounted: every path ends with the deferred calls, each made once,
  which remove the temporary directory if there is one, then the directory of the mount point and only after it unmount the image; apart from
  closing the standard input nothing else is given back, in particular a container that was started is never asked to
  stop.  It is waited for exactly if the plugin was written to and both its outputs could be read with nothing on
  standard error, so on no other error after the start; and the standard input is closed exactly if the request was
  written.
\<close>

theorem plugin_calls:
  assumes "CodeGen h marshal unmarshal draws p ver input = (es, r)" "h_mount h (imageRef p ver) = Inr im"
  shows "(\<exists>pre. es = pre @ deferred im pre \<and> (\<forall>e \<in> set pre. isRelease e \<longrightarrow> e = ECloseStdin)) \<and>
    (EWait \<in> set es \<longleftrightarrow> (\<exists>cmd args. ERun cmd args \<in> set es) \<and> answered h marshal input) \<and>
    (ECloseStdin \<in> set es \<longleftrightarrow> (\<exists>inData. EWrite inData \<in> set es \<and> h_write h inData = None)) \<and>
    (\<forall>out. r = Inr out \<longrightarrow> EWait \<in> set es)"
  using assms
proof (cases rule: CodeGen_paths)
  case (not_started pre err)
  have "\<And>e. e \<in> set es \<Longrightarrow> e \<noteq> EWait \<and> e \<noteq> ECloseStdin \<and> (\<forall>x. e \<noteq> EWrite x) \<and> (\<forall>c as. e \<noteq> ERun c as)"
    using beforeRun_calls [OF not_started(1)] deferred_calls by (fastforce simp: not_started(2))
  then show ?thesis using not_started beforeRun_calls [OF not_started(1)] by blast
next
  case (ran pre cmd args t)
  note c = talk_calls [OF ran(2)]
  have "EWait \<in> set es \<longleftrightarrow> EWait \<in> set t" "ECloseStdin \<in> set es \<longleftrightarrow> ECloseStdin \<in> set t"
    "\<And>x. EWrite x \<in> set es \<longleftrightarrow> EWrite x \<in> set t" "ERun cmd args \<in> set es"
    using beforeRun_calls [OF ran(1)] deferred_calls [of _ im pre] by (fastforce simp: ran(3))+
  moreover have "es = (pre @ ERun cmd args # t) @ deferred im (pre @ ERun cmd args # t)"
    by (simp add: ran(3) deferred_skip c(2))
  moreover have "\<forall>e \<in> set (pre @ ERun cmd args # t). isRelease e \<longrightarrow> e = ECloseStdin"
    using beforeRun_calls [OF ran(1)] c(1) by auto
  ultimately show ?thesis using c(4-6) by blast
qed

lemma plugin_calls_witness:
  "\<exists>es pre. CodeGen (exampleHost ''warning'') Inr Inr [] \<lparr>image = ''i'', defVer = ''v1''\<rparr> [] ''q'' =
      (es, Inl (Errorf ''stderr: warning'')) \<and>
    es = pre @ deferred \<lparr>MountPoint = ''/m'', Entrypoint = [''/p''], Cmd = [''x'']\<rparr> pre \<and>
    ERun ''/p'' [''x''] \<in> set es \<and> EWait \<notin> set es \<and> ECloseStdin \<in> set es"
proof -
  let ?h = "exampleHost ''warning''" and ?p = "\<lparr>image = ''i'', defVer = ''v1''\<rparr>"
  obtain es r where c: "CodeGen ?h Inr Inr [] ?p [] ''q'' = (es, r :: string res)" by fastforce
  have im: "h_mount ?h (imageRef ?p []) = Inr \<lparr>MountPoint = ''/m'', Entrypoint = [''/p''], Cmd = [''x'']\<rparr>"
    by (simp add: exampleHost_def)
  have r: "r = Inl (Errorf ''stderr: warning'')" "ERun ''/p'' [''x''] \<in> set es" "EWrite ''q'' \<in> set es"
    using c by (auto simp: CodeGen_def exampleHost_def talk_def Let_def)
  have "\<not> answered ?h Inr ''q''" "h_write ?h ''q'' = None" by (simp_all add: answered_def exampleHost_def)
  then show ?thesis using plugin_calls [OF c im] r c by blast
qed

section \<open>The responses\<close>

definition generatedFor :: "ImageFile list \<Rightarrow> string list \<Rightarrow> CodeGeneratorRequest" where
  "generatedFor files opts =
     \<lparr>ProtoFile = map toFileDescriptorProto files,
      FileToGenerate = [case fd_Name f of Some n \<Rightarrow> n | None \<Rightarrow> []. f \<leftarrow> files, BufExtension f = Some (Some False)],
      Parameter = Some (JoinWith '','' opts)\<rparr>"

lemma addFiles_fields:
  "addFiles files g =
     g\<lparr>ProtoFile := ProtoFile g @ map toFileDescriptorProto files,
       FileToGenerate := FileToGenerate g @
         [case fd_Name f of Some n \<Rightarrow> n | None \<Rightarrow> []. f \<leftarrow> files, BufExtension f = Some (Some False)]\<rparr>"
  by (induction files g rule: addFiles.induct) (simp_all add: Let_def)

text \<open>The loop's request differs from the first one only in its parameter, which every round sets.\<close>

lemma generateLoop_ok:
  "generateLoop plugins codeGen i g reqs = (t, Inr outs) \<Longrightarrow>
   length outs = length reqs \<and>
   (\<forall>k < length reqs. \<exists>ref plug. PluginReference (reqs ! k) = Some ref \<and>
      plugins (pr_Owner ref @ ''/'' @ pr_Name ref) = Some plug \<and>
      snd (codeGen (i + k) plug (pr_Version ref) (g\<lparr>Parameter := Some (JoinWith '','' (gr_Options (reqs ! k)))\<rparr>)) =
        Inr (outs ! k))"
proof (induction reqs arbitrary: i g t outs)
  case Nil
  then show ?case by simp
next
  case (Cons request rest)
  let ?g = "g\<lparr>Parameter := Some (JoinWith '','' (gr_Options request))\<rparr>"
  obtain ref plug t1 out t2 outs' where step: "PluginReference request = Some ref"
    "plugins (pr_Owner ref @ ''/'' @ pr_Name ref) = Some plug"
    "codeGen i plug (pr_Version ref) ?g = (t1, Inr out)"
    "generateLoop plugins codeGen (Suc i) ?g rest = (t2, Inr outs')" "outs = out # outs'"
    using Cons.prems
    by (auto simp: Let_def getPlugin_def split: option.splits sum.splits prod.splits)
  note IH = Cons.IH [OF step(4)]
  show ?case
  proof (intro conjI allI impI)
    show "length outs = length (request # rest)" using IH step(5) by simp
    fix k
    assume "k < length (request # rest)"
    then show "\<exists>ref plug. PluginReference ((request # rest) ! k) = Some ref \<and>
        plugins (pr_Owner ref @ ''/'' @ pr_Name ref) = Some plug \<and>
        snd (codeGen (i + k) plug (pr_Version ref)
          (g\<lparr>Parameter := Some (JoinWith '','' (gr_Options ((request # rest) ! k)))\<rparr>)) = Inr (outs ! k)"
      using step IH by (cases k) auto
  qed
qed

lemma talk_ok:
  "talk h marshal unmarshal input = (t, Inr out) \<Longrightarrow>
   \<exists>inData outData. marshal input = Inr inData \<and> h_write h inData = None \<and>
     h_stdout h inData = Inr outData \<and> outData \<noteq> [] \<and> h_stderr h inData = Inr [] \<and> unmarshal outData = Inr out"
  by (auto simp: talk_def Let_def split: sum.splits option.splits if_splits)

lemma CodeGen_ok:
  assumes "snd (CodeGen h marshal unmarshal draws p ver input) = Inr out"
  shows "\<exists>im cmd args inData outData. h_mount h (imageRef p ver) = Inr im \<and>
     resolveCommand (Entrypoint im) (Cmd im) [] [] = Inr (cmd, args) \<and> h_run h cmd args = None \<and>
     marshal input = Inr inData \<and> h_stdout h inData = Inr outData \<and> outData \<noteq> [] \<and>
     h_stderr h inData = Inr [] \<and> unmarshal outData = Inr out"
proof -
  obtain im where im: "h_mount h (imageRef p ver) = Inr im" "Entrypoint im \<noteq> []"
    "h_run h (hd (Entrypoint im)) ((if length (Entrypoint im) > 1 then tl (Entrypoint im) else []) @
      (if length (Cmd im) > 0 then Cmd im else [])) = None"
    "snd (talk h marshal unmarshal input) = Inr out"
    using assms by (auto simp: CodeGen_def Let_def case_prod_beta split: sum.splits option.splits if_splits)
  then show ?thesis
    using talk_ok [of h marshal unmarshal input "fst (talk h marshal unmarshal input)" out]
    by (cases "talk h marshal unmarshal input") (auto simp: resolveCommand_def Let_def)
qed

text \<open>
  C22. \<open>GenerateCode\<close> answers each request in turn: the response is what the requested plugin (at the
  requested or its default version) wrote, run with its image's command line on all files of the
  image, with those that are not imports to be generated and the request's own options, having written nothing to
  standard error.
\<close>

theorem generate_code:
  assumes "Svc_GenerateCode plugins (\<lambda>i. CodeGen (hosts i) marshal unmarshal (draws i)) req = (t, Inr outs)"
  shows "\<exists>files. gc_Image req = Some files \<and> length outs = length (gc_Requests req) \<and>
    (\<forall>k < length outs. \<exists>ref plug im cmd args inData outData.
       PluginReference (gc_Requests req ! k) = Some ref \<and>
       plugins (pr_Owner ref @ ''/'' @ pr_Name ref) = Some plug \<and>
       h_mount (hosts k) (imageRef plug (pr_Version ref)) = Inr im \<and>
       resolveCommand (Entrypoint im) (Cmd im) [] [] = Inr (cmd, args) \<and> h_run (hosts k) cmd args = None \<and>
       marshal (generatedFor files (gr_Options (gc_Requests req ! k))) = Inr inData \<and>
       h_stdout (hosts k) inData = Inr outData \<and> outData \<noteq> [] \<and> h_stderr (hosts k) inData = Inr [] \<and>
       unmarshal outData = Inr (outs ! k))"
proof -
  let ?g = "\<lparr>ProtoFile = [], FileToGenerate = [], Parameter = None\<rparr> :: CodeGeneratorRequest"
  obtain files where f: "gc_Image req = Some files"
    "generateLoop plugins (\<lambda>i. CodeGen (hosts i) marshal unmarshal (draws i)) 0 (addFiles files ?g) (gc_Requests req) = (t, Inr outs)"
    using assms by (auto simp: Svc_GenerateCode_def split: option.splits)
  have g: "(addFiles files ?g)\<lparr>Parameter := Some (JoinWith '','' opts)\<rparr> = generatedFor files opts" for opts
    by (simp add: addFiles_fields generatedFor_def)
  note ok = generateLoop_ok [OF f(2), unfolded g add_0]
  show ?thesis
  proof (intro exI [of _ files] conjI allI impI)
    show "gc_Image req = Some files" by (rule f(1))
    show len: "length outs = length (gc_Requests req)" using ok by blast
    fix k
    assume "k < length outs"
    then obtain ref plug where r: "PluginReference (gc_Requests req ! k) = Some ref"
      "plugins (pr_Owner ref @ ''/'' @ pr_Name ref) = Some plug"
      "snd (CodeGen (hosts k) marshal unmarshal (draws k) plug (pr_Version ref)
         (generatedFor files (gr_Options (gc_Requests req ! k)))) = Inr (outs ! k)"
      using ok len by metis
    show "\<exists>ref plug im cmd args inData outData.
       PluginReference (gc_Requests req ! k) = Some ref \<and>
       plugins (pr_Owner ref @ ''/'' @ pr_Name ref) = Some plug \<and>
       h_mount (hosts k) (imageRef plug (pr_Version ref)) = Inr im \<and>
       resolveCommand (Entrypoint im) (Cmd im) [] [] = Inr (cmd, args) \<and> h_run (hosts k) cmd args = None \<and>
       marshal (generatedFor files (gr_Options (gc_Requests req ! k))) = Inr inData \<and>
       h_stdout (hosts k) inData = Inr outData \<and> outData \<noteq> [] \<and> h_stderr (hosts k) inData = Inr [] \<and>
       unmarshal outData = Inr (outs ! k)"
      using r(1,2) CodeGen_ok [OF r(3)] by blast
  qed
qed

lemma generate_code_witness:
  "\<exists>t. Svc_GenerateCode [''o/go'' \<mapsto> \<lparr>image = ''i'', defVer = ''v1''\<rparr>]
      (\<lambda>i. CodeGen (exampleHost []) (\<lambda>q. Inr (concat (FileToGenerate q))) Inr [])
      \<lparr>gc_Image = Some [], gc_Requests =
         [\<lparr>PluginReference = Some \<lparr>pr_Owner = ''o'', pr_Name = ''go'', pr_Version = []\<rparr>, gr_Options = []\<rparr>]\<rparr> =
      (t, Inr [''out:''])"
proof -
  let ?s = "Svc_GenerateCode [''o/go'' \<mapsto> \<lparr>image = ''i'', defVer = ''v1''\<rparr>]
      (\<lambda>i. CodeGen (exampleHost []) (\<lambda>q. Inr (concat (FileToGenerate q))) Inr [])
      \<lparr>gc_Image = Some [], gc_Requests =
         [\<lparr>PluginReference = Some \<lparr>pr_Owner = ''o'', pr_Name = ''go'', pr_Version = []\<rparr>, gr_Options = []\<rparr>]\<rparr>"
  have "\<exists>t outs. ?s = (t, Inr outs)"
    by (simp add: Svc_GenerateCode_def getPlugin_def CodeGen_def exampleHost_def talk_def Let_def)
  then obtain t outs where s: "?s = (t, Inr outs)" by blast
  then have "outs = [''out:'']"
    using generate_code [OF s]
    by (auto simp: exampleHost_def generatedFor_def length_Suc_conv)
  then show ?thesis using s by blast
qed

end
