(* ===== verification/Startup.thy ===== *)
theory Startup
  imports Device_Login Codegen
begin

text \<open>
  Start-up (\<open>New\<close>, \<open>loadTLSCert\<close> and \<open>openDocstoreCollections\<close> of \<open>internal/service/service.go\<close>): which storage
  and which certificate a configuration selects, and what the service starts with.  Opening a bucket, a
  collection, the image file system or a key pair is a field of \<open>opener\<close>.  The lemmas give the
  state a successful \<open>New\<close> starts from, and that without \<open>NoLogin\<close> a handler runs only behind
  the interceptor.
\<close>

record ('b, 'c, 'x, 'o) opener =
  op_Bucket :: "string \<Rightarrow> 'b res"
  op_MkdirAll :: "string \<Rightarrow> goerr option"
  op_MemCollection :: "string \<Rightarrow> 'c res"
  op_Collection :: "string \<Rightarrow> 'c res"
  op_KeyPairFiles :: "string \<Rightarrow> string \<Rightarrow> 'x res"
  op_KeyPairPEM :: "string \<Rightarrow> string \<Rightarrow> 'x res"
  op_OCIFS :: "(string \<times> ContainerRegistryAuth) list \<Rightarrow> 'o res"
  op_Otel :: "goerr option"

record ('b, 'c, 'x, 'o) StartedService =
  sv_conf :: Config
  sv_auth :: auth_state
  sv_plugins :: "(string \<times> Plugin) list"
  sv_regCreds :: "(string \<times> ContainerRegistryAuth) list"
  sv_ofs :: 'o
  sv_cert :: "'x option"
  sv_bucket :: 'b
  sv_collections :: "'c \<times> 'c \<times> 'c \<times> 'c"
  sv_oidc :: "OIDCProvider option"

definition loadTLSCert :: "('b, 'c, 'x, 'o) opener \<Rightarrow> TLS \<Rightarrow> 'x option res" where
  "loadTLSCert op tlsConf =
     (if CertFile tlsConf \<noteq> [] \<and> KeyFile tlsConf \<noteq> []
      then (case op_KeyPairFiles op (CertFile tlsConf) (KeyFile tlsConf) of
              Inl err \<Rightarrow> Inl (Wrapf ''failed to load TLS certificate from files'' err)
            | Inr cert \<Rightarrow> Inr (Some cert))
      else if CertPEM tlsConf \<noteq> [] \<and> KeyPEM tlsConf \<noteq> []
      then (case op_KeyPairPEM op (CertPEM tlsConf) (KeyPEM tlsConf) of
              Inl err \<Rightarrow> Inl (Wrapf ''failed to load TLS certificate from PEM'' err)
            | Inr cert \<Rightarrow> Inr (Some cert))
      else Inr None)"

text \<open>The four collections, opened one after the other with \<open>openOne\<close>.\<close>

definition openFour :: "(string \<Rightarrow> 'c res) \<Rightarrow> ('c \<times> 'c \<times> 'c \<times> 'c) res" where
  "openFour openOne =
     (case openOne ''owners'' of
        Inl err \<Rightarrow> Inl (Wrapf ''failed to open owners collection'' err)
      | Inr owners \<Rightarrow>
     (case openOne ''modules'' of
        Inl err \<Rightarrow> Inl (Wrapf ''failed to open modules collection'' err)
      | Inr modules \<Rightarrow>
     (case openOne ''commits'' of
        Inl err \<Rightarrow> Inl (Wrapf ''failed to open commits collection'' err)
      | Inr commits \<Rightarrow>
     (case openOne ''labels'' of
        Inl err \<Rightarrow> Inl (Wrapf ''failed to open labels collection'' err)
      | Inr labels \<Rightarrow> Inr (owners, modules, commits, labels)))))"

definition openDocstoreCollections ::
  "('b, 'c, 'x, 'o) opener \<Rightarrow> string \<Rightarrow> string \<Rightarrow> ('c \<times> 'c \<times> 'c \<times> 'c) res" where
  "openDocstoreCollections op urlBase cacheDir =
     (if HasPrefix urlBase ''mem://''
      then let metadataDir = cacheDir @ ''/cas/metadata'' in
        (case op_MkdirAll op metadataDir of
           Some err \<Rightarrow> Inl (Wrapf ''failed to create metadata directory'' err)
         | None \<Rightarrow> openFour (\<lambda>name. op_MemCollection op (metadataDir @ ''/'' @ name @ ''.json'')))
      else openFour (\<lambda>name. op_Collection op (urlBase @ ''/'' @ name @ ''?name_field=id'')))"

definition blobURL :: "Config \<Rightarrow> string" where
  "blobURL c =
     (case cf_Storage c of
        Some s \<Rightarrow> if BlobURL s \<noteq> [] then BlobURL s
                  else ''file://'' @ cf_CacheDir c @ ''/cas/blobs?create_dir=true''
      | None \<Rightarrow> ''file://'' @ cf_CacheDir c @ ''/cas/blobs?create_dir=true'')"

definition docstoreURL :: "Config \<Rightarrow> string" where
  "docstoreURL c =
     (case cf_Storage c of Some s \<Rightarrow> if DocstoreURL s \<noteq> [] then DocstoreURL s else ''mem://'' | None \<Rightarrow> ''mem://'')"

definition NewPlugin :: "string \<Rightarrow> string \<Rightarrow> Plugin" where
  "NewPlugin img defaultVersion = \<lparr>image = img, defVer = defaultVersion\<rparr>"

text \<open>\<open>order\<close> is the order in which \<open>range svc.users\<close> visits the users.\<close>

definition New ::
  "('b, 'c, 'x, 'o) opener \<Rightarrow> web \<Rightarrow> ((string \<times> string) list \<Rightarrow> (string \<times> string) list) \<Rightarrow> Config \<Rightarrow>
   ('b, 'c, 'x, 'o) StartedService res" where
  "New op w order c0 =
     (if cf_CacheDir c0 = [] then Inl (Errorf ''cache_dir is required for CAS storage'')
      else
        (let c = (if cf_Address c0 = [] then c0\<lparr>cf_Address := '':443''\<rparr> else c0);
             regCreds = ContainerRegistry (cf_Credentials c)
         in case op_OCIFS op regCreds of
              Inl err \<Rightarrow> Inl err
            | Inr ofs \<Rightarrow>
        (let plugins = map (\<lambda>(k, v). (k, NewPlugin (pc_Image v) (pc_Default v))) (cf_Plugins c);
             auth = newAuth c (order (svcUsers c))
         in case (case cf_TLS c of None \<Rightarrow> Inr None | Some t \<Rightarrow> loadTLSCert op t) of
              Inl err \<Rightarrow> Inl err
            | Inr cert \<Rightarrow>
        (case op_Bucket op (blobURL c) of
           Inl err \<Rightarrow> Inl (Wrapf ''failed to open blob bucket'' err)
         | Inr bucket \<Rightarrow>
        (case openDocstoreCollections op (docstoreURL c) (cf_CacheDir c) of
           Inl err \<Rightarrow> Inl (Wrapf ''failed to open docstore'' err)
         | Inr collections \<Rightarrow>
        (case op_Otel op of
           Some err \<Rightarrow> Inl err
         | None \<Rightarrow>
             Inr \<lparr>sv_conf = c, sv_auth = auth, sv_plugins = plugins, sv_regCreds = regCreds, sv_ofs = ofs,
               sv_cert = cert, sv_bucket = bucket, sv_collections = collections,
               sv_oidc = NewOAuth2Service w c\<rparr>))))))"

text \<open>Every API handler is registered behind the interceptor, unless logins are switched off.\<close>

definition serveRequest ::
  "(64 word \<Rightarrow> 64 word \<Rightarrow> nat \<Rightarrow> 64 word) \<Rightarrow> Config \<Rightarrow> (string option \<Rightarrow> 'a res) \<Rightarrow> time \<Rightarrow> time \<Rightarrow>
   string \<Rightarrow> auth_state \<Rightarrow> 'a res \<times> auth_state" where
  "serveRequest frac c next now1 now2 hdr st =
     (if \<not> cf_NoLogin c then authInterceptor frac c next now1 now2 hdr st else (next None, st))"

section \<open>What New starts with\<close>

lemma svcUsers_Address [simp]: "svcUsers (c\<lparr>cf_Address := a\<rparr>) = svcUsers c"
  by (simp add: svcUsers_def)

lemma newAuth_Address [simp]: "newAuth (c\<lparr>cf_Address := a\<rparr>) us = newAuth c us"
  by (simp add: newAuth_def Let_def)

lemma New_ok:
  assumes "New op w order c = Inr sv"
  shows "sv_auth sv = newAuth c (order (svcUsers c)) \<and> op_Bucket op (blobURL c) = Inr (sv_bucket sv) \<and>
    openDocstoreCollections op (docstoreURL c) (cf_CacheDir c) = Inr (sv_collections sv) \<and>
    cf_CacheDir c \<noteq> [] \<and> cf_Address (sv_conf sv) \<noteq> []"
  using assms
  by (auto simp: New_def Let_def blobURL_def docstoreURL_def split: if_splits sum.splits option.splits)

text \<open>The memory store of one cache directory keeps its four collections in four files.\<close>

lemma openDocstore_mem:
  assumes "openDocstoreCollections op ''mem://'' cacheDir = Inr (owners, modules, commits, labels)"
  shows "op_MemCollection op (cacheDir @ ''/cas/metadata/owners.json'') = Inr owners \<and>
    op_MemCollection op (cacheDir @ ''/cas/metadata/modules.json'') = Inr modules \<and>
    op_MemCollection op (cacheDir @ ''/cas/metadata/commits.json'') = Inr commits \<and>
    op_MemCollection op (cacheDir @ ''/cas/metadata/labels.json'') = Inr labels"
  using assms
  by (auto simp: openDocstoreCollections_def openFour_def Let_def HasPrefix_def
    split: sum.splits option.splits)

text \<open>
  Unless logins are switched off, every handler runs behind the authentication: an answer that depends on
  the handler is given only to a request whose header carries a token of the table that has not
  expired, and then it is the handler's answer for the user of that token.
\<close>

theorem handlers_guarded:
  assumes "\<not> cf_NoLogin c"
    and "fst (serveRequest frac c next now1 now2 hdr st) \<noteq> fst (serveRequest frac c next' now1 now2 hdr st)"
  shows "\<exists>tok r. authHeader hdr = Inr tok \<and> tokens st tok = Some r \<and> \<not> IsExpired (infoAt st r) now1 \<and>
    fst (serveRequest frac c next now1 now2 hdr st) = next (Some (Username (infoAt st r)))"
  using assms
  by (auto simp: serveRequest_def authInterceptor_def contextWithUser_def split: sum.splits option.splits if_splits)

lemma handlers_guarded_witness:
  "\<exists>tok. authHeader ''Bearer n'' = Inr tok \<and> tokens (storeToken ''bob'' ''n'' 10 exampleAuth) tok \<noteq> None"
proof -
  have t: "tokens (storeToken ''bob'' ''n'' 10 exampleAuth) ''n'' = Some (nextInfo exampleAuth)"
    by (simp add: tokens_storeToken)
  have s: "fst (serveRequest (\<lambda>_ _ _. 0) (exampleConfig ''b'') nxt 5 6 ''Bearer n'' (storeToken ''bob'' ''n'' 10 exampleAuth)) =
      nxt (Some ''bob'')" for nxt :: "string option \<Rightarrow> nat res"
    using t exampleHeader
    by (simp add: serveRequest_def authInterceptor_def exampleConfig_def IsExpired_def infoAt_storeToken contextWithUser_def)
  then show ?thesis
    using handlers_guarded [of "exampleConfig ''b''" "\<lambda>_ _ _. 0" "\<lambda>_. Inr 1 :: nat res" 5 6 "''Bearer n''"
        "storeToken ''bob'' ''n'' 10 exampleAuth" "\<lambda>_. Inr 2"]
    unfolding s by (auto simp: exampleConfig_def)
qed

end
