(* ===== verification/Process.thy ===== *)
theory Process
  imports Startup
begin

text \<open>
  The process (\<open>cmd/pbr/main.go\<close>, \<open>Serve\<close> and \<open>Shutdown\<close> of \<open>internal/service/service.go\<close>): how it starts
  and exits with an error, and, as a step relation, how the goroutine of \<open>main\<close>, the goroutine that
  serves, the clients and the operating system interleave until the process ends.  The HTTP server behaves as
  \<open>net/http\<close> documents: after \<open>Shutdown\<close> is called \<open>ListenAndServe\<close> returns \<open>ErrServerClosed\<close> at once,
  whatever requests are still being handled, and \<open>Shutdown\<close> returns when none is left or its context
  ends.  Connections that the h2c handler takes over are not told apart from others.
\<close>

section \<open>Log levels\<close>

definition LevelDebug :: "64 word" where "LevelDebug = - 4"
definition LevelInfo :: "64 word" where "LevelInfo = 0"
definition LevelWarn :: "64 word" where "LevelWarn = 4"
definition LevelError :: "64 word" where "LevelError = 8"

text \<open>
  \<open>strings.ToUpper\<close> as far as the names of the levels can tell: ASCII letters, and the one other
  letter whose capital is one of theirs, the dotless i (bytes C4 B1).
\<close>

fun ToUpper :: "string \<Rightarrow> string" where
  "ToUpper (c # d # s) =
     (if c = CHR 0xC4 \<and> d = CHR 0xB1 then CHR ''I'' # ToUpper s
      else (if 97 \<le> (of_char c :: nat) \<and> (of_char c :: nat) \<le> 122 then char_of (of_char c - 32 :: nat) else c)
        # ToUpper (d # s))"
| "ToUpper [c] = [if 97 \<le> (of_char c :: nat) \<and> (of_char c :: nat) \<le> 122 then char_of (of_char c - 32 :: nat) else c]"
| "ToUpper [] = []"

text \<open>\<open>slog.Level.UnmarshalText\<close>: a name and, from the first sign on, an offset.\<close>

definition UnmarshalText :: "string \<Rightarrow> 64 word res" where
  "UnmarshalText s =
     (let name = takeWhile (\<lambda>c. c \<noteq> CHR ''+'' \<and> c \<noteq> CHR ''-'') s;
          rest = dropWhile (\<lambda>c. c \<noteq> CHR ''+'' \<and> c \<noteq> CHR ''-'') s;
          wrap = Wrapf (''slog: level string '' @ s)
      in case (if rest = [] then Inr 0 else Atoi rest) of
           Inl err \<Rightarrow> Inl (wrap err)
         | Inr offset \<Rightarrow>
             (case map_of [(''DEBUG'', LevelDebug), (''INFO'', LevelInfo), (''WARN'', LevelWarn), (''ERROR'', LevelError)]
                 (ToUpper name) of
                None \<Rightarrow> Inl (wrap (Errorf ''unknown name''))
              | Some l \<Rightarrow> Inr (l + word_of_int offset)))"

section \<open>Start\<close>

text \<open>\<open>setupTelemetry\<close>, whose body is commented out: a shutdown function that does nothing.\<close>

definition setupTelemetry :: "(unit \<Rightarrow> goerr option) res" where
  "setupTelemetry = Inr (\<lambda>_. None)"

definition defaultConfigFile :: string where
  "defaultConfigFile = ''/config/config.yaml''"

text \<open>\<open>main\<close> up to the start of the server: the message and error it exits with, or what it starts.\<close>

definition mainSetup ::
  "(string \<Rightarrow> string res) \<Rightarrow> (string \<Rightarrow> Config res) \<Rightarrow> (string \<Rightarrow> string res) \<Rightarrow> ('b, 'c, 'x, 'o) opener \<Rightarrow> web \<Rightarrow>
   ((string \<times> string) list \<Rightarrow> (string \<times> string) list) \<Rightarrow> string option \<Rightarrow>
   (string \<times> goerr) + 64 word \<times> (unit \<Rightarrow> goerr option) \<times> ('b, 'c, 'x, 'o) StartedService" where
  "mainSetup readFile yamlUnmarshal evalEnv op w order configFlag =
     (let configFile = (case configFlag of None \<Rightarrow> defaultConfigFile | Some f \<Rightarrow> f) in
      case FromFile readFile yamlUnmarshal evalEnv configFile of
        Inl err \<Rightarrow> Inl (''Failed to load config'', err)
      | Inr c \<Rightarrow>
     (case (if cf_LogLevel c = [] then Inr LevelError else UnmarshalText (cf_LogLevel c)) of
        Inl err \<Rightarrow> Inl (''Failed to parse log level'', err)
      | Inr logLevel \<Rightarrow>
     (case setupTelemetry of
        Inl err \<Rightarrow> Inl (''Failed to set up telemetry'', err)
      | Inr telShutdown \<Rightarrow>
     (case New op w order c of
        Inl err \<Rightarrow> Inl (''Failed to create registry'', err)
      | Inr svc \<Rightarrow> Inr (logLevel, telShutdown, svc)))))"

text \<open>The grace period: \<open>TERMINATION_GRACE_PERIOD\<close> if it is set to a number, else 30 seconds.\<close>

definition shutdownPeriod :: "string option \<Rightarrow> int" where
  "shutdownPeriod env =
     (case env of
        None \<Rightarrow> 30
      | Some sdp \<Rightarrow> (case Atoi sdp of Inl err \<Rightarrow> 30 | Inr sdpi \<Rightarrow> sdpi))"

text \<open>\<open>time.Duration(shutdownPeriod) * time.Second\<close>.\<close>

definition graceDuration :: "string option \<Rightarrow> duration" where
  "graceDuration env = word_of_int (shutdownPeriod env) * Second"

section \<open>Serve and Shutdown\<close>

text \<open>
  What \<open>Serve\<close> makes of the server before it blocks.  \<open>srv_BaseContext\<close> is the context every request derives
  from: the one given to \<open>Serve\<close>, or the background context.
\<close>

datatype base_context = Background | SignalContext

datatype listen = ListenAndServe | ListenAndServeTLS

record 'x http_server =
  srv_Addr :: string
  srv_Certificates :: "'x list"
  srv_h2c :: bool
  srv_BaseContext :: base_context

definition newServer :: "string \<Rightarrow> 'x option \<Rightarrow> 'x http_server" where
  "newServer addr cert =
     \<lparr>srv_Addr = addr, srv_Certificates = (case cert of None \<Rightarrow> [] | Some crt \<Rightarrow> [crt]), srv_h2c = False,
      srv_BaseContext = Background\<rparr>"

definition Serve :: "goerr option \<Rightarrow> 'x option \<Rightarrow> 'x http_server \<Rightarrow> ('x http_server \<times> listen) res" where
  "Serve configureServer cert server =
     (case cert of
        Some crt \<Rightarrow>
          (case configureServer of
             Some err \<Rightarrow> Inl err
           | None \<Rightarrow> Inr (server\<lparr>srv_Certificates := [crt]\<rparr>, ListenAndServeTLS))
      | None \<Rightarrow> Inr (server\<lparr>srv_h2c := True, srv_BaseContext := SignalContext\<rparr>, ListenAndServe))"

text \<open>The goroutines' positions: \<open>main\<close> from the wait for a signal on, and the one that calls \<open>Serve\<close>.\<close>

datatype main_pc = AwaitSignal | InShutdown | InTelShutdown | MainReturned
datatype serve_pc = BeforeServe | Listening | ServeReturned goerr | ServeLogged

record process =
  pr_main :: main_pc
  pr_serve :: serve_pc
  pr_signal :: bool
  pr_closing :: bool
  pr_active :: nat
  pr_now :: time
  pr_deadline :: "time option"
  pr_log :: "string list"
  pr_exit :: "nat option"

record 'x setting =
  st_addr :: string
  st_cert :: "'x option"
  st_configureServer :: "goerr option"
  st_grace :: "string option"

definition ErrServerClosed :: goerr where
  "ErrServerClosed = Errorf ''http: Server closed''"

definition processStart :: "time \<Rightarrow> process" where
  "processStart now =
     \<lparr>pr_main = AwaitSignal, pr_serve = BeforeServe, pr_signal = False, pr_closing = False, pr_active = 0,
      pr_now = now, pr_deadline = None, pr_log = [], pr_exit = None\<rparr>"

text \<open>\<open>slog.Error\<close> and \<open>os.Exit\<close>.\<close>

definition logError :: "string \<Rightarrow> process \<Rightarrow> process" where
  "logError msg p = p\<lparr>pr_log := pr_log p @ [msg]\<rparr>"

definition osExit :: "nat \<Rightarrow> process \<Rightarrow> process" where
  "osExit n p = p\<lparr>pr_exit := Some n\<rparr>"

text \<open>\<open>svc.Shutdown\<close> up to its wait: the server accepts no more requests.\<close>

definition Shutdown :: "process \<Rightarrow> process" where
  "Shutdown p = p\<lparr>pr_closing := True\<rparr>"

text \<open>
  The goroutine that serves.  \<open>Serve\<close> fails, or blocks until listening or accepting fails or the server
  is shut down; it never returns nil, so the goroutine always ends the process.
\<close>

inductive serve_step :: "'x setting \<Rightarrow> process \<Rightarrow> process \<Rightarrow> bool" for c :: "'x setting" where
  serve_fails: "pr_exit p = None \<Longrightarrow> pr_serve p = BeforeServe \<Longrightarrow>
    Serve (st_configureServer c) (st_cert c) (newServer (st_addr c) (st_cert c)) = Inl err \<Longrightarrow>
    serve_step c p (p\<lparr>pr_serve := ServeReturned err\<rparr>)"
| serve_late: "pr_exit p = None \<Longrightarrow> pr_serve p = BeforeServe \<Longrightarrow>
    Serve (st_configureServer c) (st_cert c) (newServer (st_addr c) (st_cert c)) = Inr r \<Longrightarrow> pr_closing p \<Longrightarrow>
    serve_step c p (p\<lparr>pr_serve := ServeReturned ErrServerClosed\<rparr>)"
| listen_fails: "pr_exit p = None \<Longrightarrow> pr_serve p = BeforeServe \<Longrightarrow>
    Serve (st_configureServer c) (st_cert c) (newServer (st_addr c) (st_cert c)) = Inr r \<Longrightarrow> \<not> pr_closing p \<Longrightarrow>
    serve_step c p (p\<lparr>pr_serve := ServeReturned err\<rparr>)"
| listens: "pr_exit p = None \<Longrightarrow> pr_serve p = BeforeServe \<Longrightarrow>
    Serve (st_configureServer c) (st_cert c) (newServer (st_addr c) (st_cert c)) = Inr r \<Longrightarrow> \<not> pr_closing p \<Longrightarrow>
    serve_step c p (p\<lparr>pr_serve := Listening\<rparr>)"
| accept_fails: "pr_exit p = None \<Longrightarrow> pr_serve p = Listening \<Longrightarrow> \<not> pr_closing p \<Longrightarrow>
    serve_step c p (p\<lparr>pr_serve := ServeReturned err\<rparr>)"
| closed: "pr_exit p = None \<Longrightarrow> pr_serve p = Listening \<Longrightarrow> pr_closing p \<Longrightarrow>
    serve_step c p (p\<lparr>pr_serve := ServeReturned ErrServerClosed\<rparr>)"
| serve_logs: "pr_exit p = None \<Longrightarrow> pr_serve p = ServeReturned err \<Longrightarrow>
    serve_step c p (logError ''Failed to start registry'' (p\<lparr>pr_serve := ServeLogged\<rparr>))"
| serve_exits: "pr_exit p = None \<Longrightarrow> pr_serve p = ServeLogged \<Longrightarrow> serve_step c p (osExit 1 p)"

text \<open>
  The goroutine of \<open>main\<close> from \<open><-ctx.Done()\<close> on; its return ends the process with status 0.  \<open>wakes\<close> is the wait, the
  making of the context with the grace period and the call of \<open>Shutdown\<close> in one step: between the last two the
  code does nothing that another goroutine could see, but for the variable \<open>ctx\<close> that the serving goroutine's closure shares, which
  is reassigned here; the model passes \<open>Serve\<close> the context of the signal, also when the goroutine starts later than that.
\<close>

inductive main_step :: "'x setting \<Rightarrow> process \<Rightarrow> process \<Rightarrow> bool" for c :: "'x setting" where
  wakes: "pr_exit p = None \<Longrightarrow> pr_main p = AwaitSignal \<Longrightarrow> pr_signal p \<Longrightarrow>
    main_step c p (Shutdown (p\<lparr>pr_main := InShutdown,
      pr_deadline := Some (pr_now p + sint (graceDuration (st_grace c)))\<rparr>))"
| drained: "pr_exit p = None \<Longrightarrow> pr_main p = InShutdown \<Longrightarrow> pr_active p = 0 \<Longrightarrow>
    main_step c p (p\<lparr>pr_main := InTelShutdown\<rparr>)"
| expires: "pr_exit p = None \<Longrightarrow> pr_main p = InShutdown \<Longrightarrow> pr_deadline p = Some d \<Longrightarrow> d \<le> pr_now p \<Longrightarrow>
    main_step c p (logError ''Failed to shutdown registry'' (p\<lparr>pr_main := InTelShutdown\<rparr>))"
| returns: "pr_exit p = None \<Longrightarrow> pr_main p = InTelShutdown \<Longrightarrow>
    main_step c p (osExit 0 (p\<lparr>pr_main := MainReturned\<rparr>))"

text \<open>Clients, the clock and the operating system.\<close>

inductive env_step :: "process \<Rightarrow> process \<Rightarrow> bool" where
  request: "pr_exit p = None \<Longrightarrow> pr_serve p = Listening \<Longrightarrow> \<not> pr_closing p \<Longrightarrow>
    env_step p (p\<lparr>pr_active := Suc (pr_active p)\<rparr>)"
| response: "pr_exit p = None \<Longrightarrow> pr_active p = Suc n \<Longrightarrow> env_step p (p\<lparr>pr_active := n\<rparr>)"
| signal: "pr_exit p = None \<Longrightarrow> env_step p (p\<lparr>pr_signal := True\<rparr>)"
| tick: "pr_exit p = None \<Longrightarrow> env_step p (p\<lparr>pr_now := pr_now p + 1\<rparr>)"

inductive process_reach :: "'x setting \<Rightarrow> process \<Rightarrow> process \<Rightarrow> bool" for c :: "'x setting" and p0 :: process where
  start: "process_reach c p0 p0"
| serve: "process_reach c p0 p \<Longrightarrow> serve_step c p q \<Longrightarrow> process_reach c p0 q"
| main: "process_reach c p0 p \<Longrightarrow> main_step c p q \<Longrightarrow> process_reach c p0 q"
| env: "process_reach c p0 p \<Longrightarrow> env_step p q \<Longrightarrow> process_reach c p0 q"

inductive_cases serve_stepE: "serve_step c p q"
inductive_cases main_stepE: "main_step c p q"
inductive_cases env_stepE: "env_step p q"

section \<open>What the process does\<close>

text \<open>The context of every request is the one that the signal ends, exactly when there is no certificate.\<close>

definition requestContextDone :: "'x setting \<Rightarrow> process \<Rightarrow> bool" where
  "requestContextDone c p =
     (case Serve (st_configureServer c) (st_cert c) (newServer (st_addr c) (st_cert c)) of
        Inr (srv, _) \<Rightarrow> srv_BaseContext srv = SignalContext \<and> pr_signal p
      | Inl _ \<Rightarrow> False)"

lemma requestContextDone_iff: "requestContextDone c p \<longleftrightarrow> st_cert c = None \<and> pr_signal p"
  by (auto simp: requestContextDone_def Serve_def newServer_def split: option.splits)

lemma pr_log_logError [simp]:
  "pr_log (logError msg p) = pr_log p @ [msg]" "pr_main (logError msg p) = pr_main p"
  "pr_serve (logError msg p) = pr_serve p" "pr_signal (logError msg p) = pr_signal p"
  "pr_closing (logError msg p) = pr_closing p" "pr_active (logError msg p) = pr_active p"
  "pr_now (logError msg p) = pr_now p" "pr_deadline (logError msg p) = pr_deadline p"
  "pr_exit (logError msg p) = pr_exit p"
  by (simp_all add: logError_def)

lemma pr_exit_osExit [simp]:
  "pr_exit (osExit n p) = Some n" "pr_main (osExit n p) = pr_main p" "pr_serve (osExit n p) = pr_serve p"
  "pr_signal (osExit n p) = pr_signal p" "pr_closing (osExit n p) = pr_closing p"
  "pr_active (osExit n p) = pr_active p" "pr_now (osExit n p) = pr_now p"
  "pr_deadline (osExit n p) = pr_deadline p" "pr_log (osExit n p) = pr_log p"
  by (simp_all add: osExit_def)

lemma Shutdown_fields [simp]:
  "pr_closing (Shutdown p)" "pr_main (Shutdown p) = pr_main p" "pr_serve (Shutdown p) = pr_serve p"
  "pr_signal (Shutdown p) = pr_signal p" "pr_active (Shutdown p) = pr_active p" "pr_now (Shutdown p) = pr_now p"
  "pr_deadline (Shutdown p) = pr_deadline p" "pr_log (Shutdown p) = pr_log p" "pr_exit (Shutdown p) = pr_exit p"
  by (simp_all add: Shutdown_def)

text \<open>The invariant: what \<open>main\<close>'s position says of the signal, the server and the requests.\<close>

definition processOK :: "process \<Rightarrow> bool" where
  "processOK p \<longleftrightarrow>
     (pr_main p = AwaitSignal \<longrightarrow> \<not> pr_closing p) \<and>
     (pr_main p \<noteq> AwaitSignal \<longrightarrow> pr_signal p \<and> pr_closing p \<and> pr_deadline p \<noteq> None) \<and>
     (pr_main p = InTelShutdown \<or> pr_main p = MainReturned \<longrightarrow>
        pr_active p = 0 \<or> (\<exists>d. pr_deadline p = Some d \<and> d \<le> pr_now p \<and> ''Failed to shutdown registry'' \<in> set (pr_log p))) \<and>
     (pr_serve p = ServeLogged \<longrightarrow> ''Failed to start registry'' \<in> set (pr_log p)) \<and>
     (\<forall>n. pr_exit p = Some n \<longrightarrow>
        n = 0 \<and> pr_main p = MainReturned \<or> n = 1 \<and> pr_serve p = ServeLogged)"

lemma processOK_serve: "serve_step c p q \<Longrightarrow> processOK p \<Longrightarrow> processOK q"
  by (elim serve_stepE) (auto simp: processOK_def)

lemma processOK_main: "main_step c p q \<Longrightarrow> processOK p \<Longrightarrow> processOK q"
  by (elim main_stepE) (auto simp: processOK_def)

lemma processOK_env: "env_step p q \<Longrightarrow> processOK p \<Longrightarrow> processOK q"
  by (elim env_stepE) (auto simp: processOK_def)

lemma processOK_reach: "process_reach c (processStart now) p \<Longrightarrow> processOK p"
proof (induction rule: process_reach.induct)
  case start
  show ?case by (simp add: processOK_def processStart_def)
qed (auto intro: processOK_serve processOK_main processOK_env)

text \<open>The serving goroutine on its own keeps everything of the others and can go on until it exits.\<close>

lemma serve_frame:
  "serve_step c p q \<Longrightarrow> pr_main q = pr_main p \<and> pr_active q = pr_active p \<and> pr_signal q = pr_signal p
     \<and> pr_closing q = pr_closing p \<and> pr_now q = pr_now p"
  by (elim serve_stepE) auto

lemma serve_frame_star:
  "(serve_step c)\<^sup>*\<^sup>* p q \<Longrightarrow> pr_main q = pr_main p \<and> pr_active q = pr_active p \<and> pr_signal q = pr_signal p
     \<and> pr_closing q = pr_closing p \<and> pr_now q = pr_now p"
  by (induction rule: rtranclp_induct) (auto dest: serve_frame)

lemma serve_goes_on:
  assumes "pr_exit p = None" "pr_closing p"
  shows "\<exists>q. serve_step c p q"
proof (cases "pr_serve p")
  case BeforeServe
  show ?thesis
  proof (cases "Serve (st_configureServer c) (st_cert c) (newServer (st_addr c) (st_cert c))")
    case (Inl err)
    from serve_step.serve_fails [OF assms(1) BeforeServe this] show ?thesis by blast
  next
    case (Inr r)
    from serve_step.serve_late [OF assms(1) BeforeServe this assms(2)] show ?thesis by blast
  qed
qed (use assms in \<open>auto intro: serve_step.intros\<close>)

lemma serve_exit_1: "serve_step c p q \<Longrightarrow> pr_exit q = Some n \<Longrightarrow> pr_exit p = None \<and> n = 1"
  by (elim serve_stepE) auto

lemma serve_exit_1_star:
  "(serve_step c)\<^sup>*\<^sup>* p q \<Longrightarrow> pr_exit p = None \<Longrightarrow> pr_exit q = None \<or> pr_exit q = Some 1"
proof (induction rule: rtranclp_induct)
  case base
  then show ?case by simp
next
  case (step q r)
  then show ?case using serve_exit_1 [OF step.hyps(2)] by (cases "pr_exit r") auto
qed

text \<open>The goroutine's way to the exit is at most four steps long.\<close>

fun serveLeft :: "serve_pc \<Rightarrow> nat" where
  "serveLeft BeforeServe = 4"
| "serveLeft Listening = 3"
| "serveLeft (ServeReturned _) = 2"
| "serveLeft ServeLogged = 1"

lemma serve_progress: "serve_step c p q \<Longrightarrow> pr_exit q = None \<Longrightarrow> serveLeft (pr_serve q) < serveLeft (pr_serve p)"
  by (elim serve_stepE) auto

lemma serve_can_exit:
  "pr_exit p = None \<Longrightarrow> pr_closing p \<Longrightarrow> \<exists>q. (serve_step c)\<^sup>*\<^sup>* p q \<and> pr_exit q = Some 1"
proof (induction "serveLeft (pr_serve p)" arbitrary: p rule: less_induct)
  case less
  obtain q where q: "serve_step c p q" using serve_goes_on [OF less.prems] by blast
  show ?case
  proof (cases "pr_exit q")
    case None
    have "pr_closing q" using serve_frame [OF q] less.prems by simp
    from less.hyps [OF serve_progress [OF q None] None this] q show ?thesis
      by (meson converse_rtranclp_into_rtranclp)
  next
    case (Some n)
    then show ?thesis using serve_exit_1 [OF q Some] q by blast
  qed
qed

section \<open>Properties\<close>

text \<open>
  C17. The shutdown is not graceful: \<open>Serve\<close> returns as soon as \<open>main\<close> calls \<open>Shutdown\<close>, and its goroutine
  takes that for a failure.  From every reachable state in which \<open>main\<close> waits for the requests, the
  goroutine can end the process with status 1, every way of letting it run ends so, and the number of
  requests cut off is whatever it was; without TLS the contexts of these requests have ended with the
  signal already.
\<close>

theorem graceful_shutdown_cut_off:
  assumes "process_reach c (processStart now) p" and "pr_main p = InShutdown" and "pr_exit p = None"
  shows "(\<exists>q. (serve_step c)\<^sup>*\<^sup>* p q \<and> pr_exit q = Some 1 \<and> pr_active q = pr_active p \<and> pr_main q = InShutdown)
    \<and> (\<forall>q. (serve_step c)\<^sup>*\<^sup>* p q \<longrightarrow> (\<nexists>r. serve_step c q r) \<longrightarrow>
         pr_exit q = Some 1 \<and> pr_active q = pr_active p \<and> pr_main q = InShutdown)
    \<and> (requestContextDone c p \<longleftrightarrow> st_cert c = None)"
proof -
  have p: "pr_closing p" "pr_signal p"
    using processOK_reach [OF assms(1)] assms(2) by (simp_all add: processOK_def)
  have "pr_exit q = Some 1" if "(serve_step c)\<^sup>*\<^sup>* p q" "\<nexists>r. serve_step c q r" for q
    using serve_exit_1_star [OF that(1) assms(3)] serve_goes_on [of q c] serve_frame_star [OF that(1)] that(2) p
    by auto
  then show ?thesis
    using serve_can_exit [OF assms(3) p(1), of c] serve_frame_star assms(2) p by (metis requestContextDone_iff)
qed

definition plainSetting :: "unit setting" where
  "plainSetting = \<lparr>st_addr = [], st_cert = None, st_configureServer = None, st_grace = None\<rparr>"

text \<open>A client's request is being handled when the signal arrives.\<close>

definition interrupted :: process where
  "interrupted = \<lparr>pr_main = InShutdown, pr_serve = Listening, pr_signal = True, pr_closing = True, pr_active = 1,
     pr_now = 7, pr_deadline = Some (7 + sint (graceDuration None)), pr_log = [], pr_exit = None\<rparr>"

lemma interrupted_reach: "process_reach plainSetting (processStart 7) interrupted"
proof -
  have s: "Serve (st_configureServer plainSetting) (st_cert plainSetting) (newServer (st_addr plainSetting) (st_cert plainSetting)) =
      Inr ((newServer [] None)\<lparr>srv_h2c := True, srv_BaseContext := SignalContext\<rparr>, ListenAndServe)"
    by (simp add: Serve_def plainSetting_def)
  let ?p1 = "(processStart 7)\<lparr>pr_serve := Listening\<rparr>"
  have 1: "process_reach plainSetting (processStart 7) ?p1"
    by (rule process_reach.serve [OF process_reach.start serve_step.listens [OF _ _ s]]) (simp_all add: processStart_def)
  have 2: "process_reach plainSetting (processStart 7) (?p1\<lparr>pr_active := Suc (pr_active ?p1)\<rparr>)"
    by (rule process_reach.env [OF 1 env_step.request]) (simp_all add: processStart_def)
  let ?p3 = "?p1\<lparr>pr_active := Suc (pr_active ?p1), pr_signal := True\<rparr>"
  have 3: "process_reach plainSetting (processStart 7) ?p3"
    using process_reach.env [OF 2 env_step.signal] by (simp add: processStart_def)
  have "main_step plainSetting ?p3 (Shutdown (?p3\<lparr>pr_main := InShutdown,
      pr_deadline := Some (pr_now ?p3 + sint (graceDuration (st_grace plainSetting)))\<rparr>))"
    by (rule main_step.wakes) (simp_all add: processStart_def)
  from process_reach.main [OF 3 this] show ?thesis
    by (simp add: interrupted_def processStart_def plainSetting_def Shutdown_def)
qed

theorem graceful_shutdown_cut_off_witness:
  "\<exists>q. (serve_step plainSetting)\<^sup>*\<^sup>* interrupted q \<and> pr_exit q = Some 1 \<and> pr_active q = 1
     \<and> requestContextDone plainSetting interrupted"
  using graceful_shutdown_cut_off [OF interrupted_reach]
  by (auto simp: interrupted_def plainSetting_def)




text \<open>
  C40. The grace period is the number of seconds in \<open>TERMINATION_GRACE_PERIOD\<close>, negative ones included, as nanoseconds wrapped to
  the 64 bits of a duration: exactly that many if the number is at most 9223372036 in absolute
  value, and otherwise another time, which may be negative, so that a longer period can end at once.  Without the
  variable, or if it is not a number, it is 30 seconds.
\<close>

lemma grace_period_exact:
  assumes "Atoi sdp = Inr n" and "Atoi other = Inl e"
  shows "sint (graceDuration (Some sdp)) = wrap64 (n * 10 ^ 9)
    \<and> (wrap64 (n * 10 ^ 9) = n * 10 ^ 9 \<longleftrightarrow> - 9223372036 \<le> n \<and> n \<le> 9223372036)
    \<and> sint (graceDuration None) = 30 * 10 ^ 9
    \<and> sint (graceDuration (Some other)) = 30 * 10 ^ 9"
proof -
  have g: "sint (graceDuration env) = wrap64 (shutdownPeriod env * 10 ^ 9)" for env
    unfolding sint_64_wrap [symmetric]
    by (simp add: graceDuration_def Second_def Millisecond_def Microsecond_def Nanosecond_def)
  have "wrap64 (30 * 10 ^ 9) = 30 * 10 ^ 9" by (simp add: wrap64_def)
  then show ?thesis
    unfolding g using assms by (auto simp: shutdownPeriod_def wrap64_exact)
qed

lemma grace_period_exact_witness:
  "sint (graceDuration (Some ''9223372037'')) = - 9223372036709551616 \<and>
   sint (graceDuration (Some ''soon'')) = 30 * 10 ^ 9"
proof -
  have "Atoi ''9223372037'' = Inr 9223372037" "\<exists>e. Atoi ''soon'' = Inl e"
    by (simp_all add: Atoi_def isDigit_def digitVal_def)
  then show ?thesis using grace_period_exact [of "''9223372037''" 9223372037 "''soon''"] by (auto simp: wrap64_def)
qed

end
