(* ===== verification/Http_Server.thy ===== *)
theory Http_Server
  imports Startup
begin

text \<open>
  The HTTP server (\<open>New\<close> and \<open>debugMiddleware\<close> of \<open>internal/service/service.go\<close>, \<open>Handler\<close> of
  \<open>internal/service/oauth2.go\<close>): which handler answers a path, what runs behind the interceptors, and the
  middleware that logs requests.  \<open>http.ServeMux\<close> is written out for the patterns the code registers
  (no methods, hosts or wildcards) and for paths that are clean, others being redirected; the patterns of the API's services come
  from generated code and are the argument \<open>pat\<close>.  The theorem says what a request without a valid
  token can reach.
\<close>

section \<open>Requests and the middleware\<close>

text \<open>
  A request as the server receives it.  The body, if any, is what can be read of it and the error that
  ends it before its end.
\<close>

record inbound =
  in_Method :: string
  in_Path :: string
  in_RawQuery :: string
  in_Header :: "(string \<times> string list) list"
  in_ContentLength :: int
  in_Body :: "(string \<times> goerr option) option"

text \<open>What a handler does to its \<open>http.ResponseWriter\<close>.\<close>

datatype rw_call = WriteHeader nat | Write string

text \<open>\<open>statusWriter\<close>: each \<open>WriteHeader\<close> is noted and passed on.\<close>

fun statusWriter :: "nat \<Rightarrow> rw_call list \<Rightarrow> nat" where
  "statusWriter status [] = status"
| "statusWriter status (WriteHeader n # calls) = statusWriter n calls"
| "statusWriter status (Write _ # calls) = statusWriter status calls"

datatype debug_log =
    HTTPRequest string string string "(string \<times> string) list" int string
  | HTTPResponse string nat

text \<open>\<open>fmt.Sprintf("%v", v)\<close> of a slice of strings.\<close>

definition sprintSlice :: "string list \<Rightarrow> string" where
  "sprintSlice vs = ''['' @ JoinWith '' '' vs @ '']''"

definition headerForLog :: "string \<times> string list \<Rightarrow> string \<times> string" where
  "headerForLog h = (case h of (k, v) \<Rightarrow> (k, if length v = 1 then hd v else sprintSlice v))"

text \<open>The preview of the body and the request whose body is restored from it.\<close>

definition previewBody :: "inbound \<Rightarrow> string \<times> inbound" where
  "previewBody r =
     (case in_Body r of
        None \<Rightarrow> ([], r)
      | Some (body, err) \<Rightarrow>
          if in_ContentLength r > 0 \<and> in_ContentLength r < 4096
          then (case err of
                  None \<Rightarrow> (body, r\<lparr>in_Body := Some (body, None)\<rparr>)
                | Some e \<Rightarrow> ([], r\<lparr>in_Body := Some ([], Some e)\<rparr>))
          else ([], r))"

definition debugMiddleware ::
  "(inbound \<Rightarrow> 's \<Rightarrow> rw_call list \<times> 's) \<Rightarrow> inbound \<Rightarrow> 's \<Rightarrow> debug_log list \<times> rw_call list \<times> 's" where
  "debugMiddleware next r s =
     (let (bodyPreview, r1) = previewBody r;
          headers = map headerForLog (in_Header r);
          req = HTTPRequest (in_Method r) (in_Path r) (in_RawQuery r) headers (in_ContentLength r) bodyPreview;
          (calls, s') = next r1 s;
          resp = HTTPResponse (in_Path r) (statusWriter 200 calls)
      in ([req, resp], calls, s'))"

text \<open>\<open>os.Getenv("PBR_DEBUG_HTTP")\<close> decides whether the middleware is installed.\<close>

definition serverHandler ::
  "string \<Rightarrow> (inbound \<Rightarrow> 's \<Rightarrow> rw_call list \<times> 's) \<Rightarrow> inbound \<Rightarrow> 's \<Rightarrow> debug_log list \<times> rw_call list \<times> 's" where
  "serverHandler debugEnv mux r s =
     (if debugEnv = ''1'' then debugMiddleware mux r s else ([], mux r s))"

text \<open>The middleware changes nothing for the client as long as the body can be read.\<close>

lemma debugMiddleware_transparent:
  assumes "\<And>body e. in_Body r = Some (body, Some e) \<Longrightarrow> \<not> (0 < in_ContentLength r \<and> in_ContentLength r < 4096)"
  shows "snd (serverHandler debugEnv mux r s) = mux r s"
proof -
  have "snd (previewBody r) = r"
    using assms by (cases r) (auto simp: previewBody_def split: option.splits)
  then show ?thesis
    by (auto simp: serverHandler_def debugMiddleware_def Let_def split: prod.splits)
qed

text \<open>The status it logs is the one sent if the handler sets the status at most once, before writing.\<close>

fun sentStatus :: "rw_call list \<Rightarrow> nat" where
  "sentStatus (WriteHeader n # calls) = n"
| "sentStatus _ = 200"

fun onlyWrites :: "rw_call list \<Rightarrow> bool" where
  "onlyWrites [] \<longleftrightarrow> True"
| "onlyWrites (Write _ # calls) \<longleftrightarrow> onlyWrites calls"
| "onlyWrites (WriteHeader _ # calls) \<longleftrightarrow> False"

lemma statusWriter_onlyWrites: "onlyWrites calls \<Longrightarrow> statusWriter n calls = n"
  by (induction calls rule: onlyWrites.induct) auto

lemma statusWriter_sent:
  assumes "onlyWrites (case calls of WriteHeader _ # rest \<Rightarrow> rest | _ \<Rightarrow> calls)"
  shows "statusWriter 200 calls = sentStatus calls"
  using assms statusWriter_onlyWrites by (cases calls rule: sentStatus.cases) (auto split: list.splits rw_call.splits)

section \<open>Routing\<close>

text \<open>
  \<open>http.ServeMux\<close>: a pattern that ends in a slash matches all paths below it, any other only itself; the
  longest matching pattern wins.  Left out are the redirections by which \<open>ServeMux\<close> answers a path that is not
  clean or lacks the final slash of a pattern; the model answers such a path as not found, and in both cases no handler is
  reached.
\<close>

definition patternMatches :: "string \<Rightarrow> string \<Rightarrow> bool" where
  "patternMatches path p \<longleftrightarrow> p = path \<or> HasSuffix p ''/'' \<and> HasPrefix path p"

fun longestMatch :: "string \<Rightarrow> (string \<times> 'h) list \<Rightarrow> (string \<times> 'h) option" where
  "longestMatch path [] = None"
| "longestMatch path ((p, h) # routes) =
     (case longestMatch path routes of
        None \<Rightarrow> if patternMatches path p then Some (p, h) else None
      | Some (q, g) \<Rightarrow> if patternMatches path p \<and> length p > length q then Some (p, h) else Some (q, g))"

definition ServeMux :: "(string \<times> 'h) list \<Rightarrow> string \<Rightarrow> 'h option" where
  "ServeMux routes path = map_option snd (longestMatch path routes)"

datatype api =
    CodeGenerationService | AuthnService | CommitServiceV1Beta1 | GraphServiceV1Beta1 | DownloadServiceV1Beta1
  | ModuleService | UploadService | GraphServiceV1 | DownloadServiceV1 | CommitServiceV1 | OwnerService

datatype endpoint = Api api | Readyz | Livez | OAuth2

definition DeviceRegistrationPath :: string where
  "DeviceRegistrationPath = ''/oauth2/device/registration''"

definition apis :: "api list" where
  "apis = [CodeGenerationService, AuthnService, CommitServiceV1Beta1, GraphServiceV1Beta1, DownloadServiceV1Beta1,
     ModuleService, UploadService, GraphServiceV1, DownloadServiceV1, CommitServiceV1, OwnerService]"

definition muxRoutes :: "(api \<Rightarrow> string) \<Rightarrow> (string \<times> endpoint) list" where
  "muxRoutes pat =
     map (\<lambda>a. (pat a, Api a)) apis @
     [(''/readyz'', Readyz), (''/livez'', Livez), (DeviceRegistrationPath, OAuth2),
      (DeviceAuthorizationPath, OAuth2), (DeviceTokenPath, OAuth2)]"

datatype device_handler = DeviceRegistration | DeviceAuthorization | DeviceToken

text \<open>\<open>Handler\<close> of \<open>OAuth2Service\<close>: a multiplexer of its own with the same three paths.\<close>

definition oauth2Handler :: "string \<Rightarrow> device_handler option" where
  "oauth2Handler path =
     ServeMux [(DeviceRegistrationPath, DeviceRegistration), (DeviceAuthorizationPath, DeviceAuthorization),
       (DeviceTokenPath, DeviceToken)] path"

section \<open>Serving a request\<close>

datatype 'a http_reply = NotFoundPage | PlainText string | DeviceReply reply | ApiReply "'a res"

text \<open>
  The readings of the clock, the random bytes and the header of one request.  \<open>handle\<close> is the API: what a service does
  for the user in the context.
\<close>

record 'a call_env =
  ce_now1 :: time
  ce_now2 :: time
  ce_random :: "byte list"
  ce_hdr :: string
  ce_rq :: http_request
  ce_handle :: "api \<Rightarrow> string option \<Rightarrow> 'a res"

text \<open>\<open>time.Time.Unix\<close>: the seconds since 1970, 62135596800 of them after Go's zero time.\<close>

definition Unix :: "time \<Rightarrow> int" where
  "Unix t = t div 1000000000 - 62135596800"

definition serveDevice ::
  "(64 word \<Rightarrow> 64 word \<Rightarrow> nat \<Rightarrow> 64 word) \<Rightarrow> Config \<Rightarrow> web \<Rightarrow> OIDCProvider option \<Rightarrow> 'a call_env \<Rightarrow>
   device_handler \<Rightarrow> auth_state \<Rightarrow> reply \<times> auth_state" where
  "serveDevice frac c w oidc e h st =
     (case h of
        DeviceRegistration \<Rightarrow> (handleDeviceRegistration oidc c (Unix (ce_now1 e)) (ce_rq e), st)
      | DeviceAuthorization \<Rightarrow> (handleDeviceAuthorization w oidc (ce_rq e), st)
      | DeviceToken \<Rightarrow> handleDeviceToken frac c w oidc (ce_random e) (ce_now1 e) (ce_rq e) st)"

definition serveHTTP ::
  "(api \<Rightarrow> string) \<Rightarrow> (64 word \<Rightarrow> 64 word \<Rightarrow> nat \<Rightarrow> 64 word) \<Rightarrow> Config \<Rightarrow> web \<Rightarrow> OIDCProvider option \<Rightarrow>
   string \<Rightarrow> 'a call_env \<Rightarrow> auth_state \<Rightarrow> 'a http_reply \<times> auth_state" where
  "serveHTTP pat frac c w oidc path e st =
     (case ServeMux (muxRoutes pat) path of
        None \<Rightarrow> (NotFoundPage, st)
      | Some Readyz \<Rightarrow> (PlainText ''ready'', st)
      | Some Livez \<Rightarrow> (PlainText ''live'', st)
      | Some OAuth2 \<Rightarrow>
          (case oauth2Handler path of
             None \<Rightarrow> (NotFoundPage, st)
           | Some h \<Rightarrow> (case serveDevice frac c w oidc e h st of (r, st') \<Rightarrow> (DeviceReply r, st')))
      | Some (Api a) \<Rightarrow>
          (case serveRequest frac c (ce_handle e a) (ce_now1 e) (ce_now2 e) (ce_hdr e) st of
             (r, st') \<Rightarrow> (ApiReply r, st')))"

section \<open>What a request can reach\<close>

lemma longestMatch_Some:
  "longestMatch path routes = Some (p, h) \<Longrightarrow> (p, h) \<in> set routes \<and> patternMatches path p"
  by (induction routes arbitrary: p h rule: longestMatch.induct)
    (auto split: option.splits if_splits)

lemma longestMatch_longest:
  "(q, g) \<in> set routes \<Longrightarrow> patternMatches path q \<Longrightarrow>
   \<exists>p h. longestMatch path routes = Some (p, h) \<and> length q \<le> length p"
proof (induction routes)
  case Nil
  then show ?case by simp
next
  case (Cons r routes)
  obtain p h where r: "r = (p, h)" by fastforce
  show ?case
  proof (cases "(q, g) \<in> set routes")
    case True
    then obtain p' h' where "longestMatch path routes = Some (p', h')" "length q \<le> length p'"
      using Cons.IH Cons.prems(2) by blast
    then show ?thesis unfolding r by auto
  next
    case False
    then have "p = q" "h = g" using Cons.prems(1) r by auto
    then show ?thesis using Cons.prems(2) unfolding r
      by (cases "longestMatch path routes") auto
  qed
qed

lemma ServeMux_Some:
  assumes "ServeMux routes path = Some h"
  shows "\<exists>p. (p, h) \<in> set routes \<and> patternMatches path p"
  using assms longestMatch_Some by (fastforce simp: ServeMux_def)

text \<open>The fixed paths match only themselves.\<close>

lemma patternMatches_fixed [simp]:
  "patternMatches path ''/readyz'' \<longleftrightarrow> path = ''/readyz''"
  "patternMatches path ''/livez'' \<longleftrightarrow> path = ''/livez''"
  "patternMatches path DeviceRegistrationPath \<longleftrightarrow> path = DeviceRegistrationPath"
  "patternMatches path DeviceAuthorizationPath \<longleftrightarrow> path = DeviceAuthorizationPath"
  "patternMatches path DeviceTokenPath \<longleftrightarrow> path = DeviceTokenPath"
  by (auto simp: patternMatches_def HasSuffix_def DeviceRegistrationPath_def DeviceAuthorizationPath_def
      DeviceTokenPath_def)

lemma route_cases:
  assumes "ServeMux (muxRoutes pat) path = Some h"
  shows "case h of
      Api a \<Rightarrow> HasPrefix path (pat a)
    | Readyz \<Rightarrow> path = ''/readyz'' | Livez \<Rightarrow> path = ''/livez''
    | OAuth2 \<Rightarrow> path \<in> {DeviceRegistrationPath, DeviceAuthorizationPath, DeviceTokenPath}"
  using ServeMux_Some [OF assms] unfolding muxRoutes_def
  by (auto simp: patternMatches_def [of _ "pat _"] HasPrefix_def)

lemma oauth2Handler_path:
  "oauth2Handler DeviceRegistrationPath = Some DeviceRegistration"
  "oauth2Handler DeviceAuthorizationPath = Some DeviceAuthorization"
  "oauth2Handler DeviceTokenPath = Some DeviceToken"
  by (simp_all add: oauth2Handler_def ServeMux_def)
    (simp_all add: DeviceRegistrationPath_def DeviceAuthorizationPath_def DeviceTokenPath_def)

text \<open>The token of a request is in the table and has not expired; \<open>u\<close> is its user, \<open>r\<close> its record.\<close>

definition admits :: "'a call_env \<Rightarrow> auth_state \<Rightarrow> nat \<Rightarrow> string \<Rightarrow> bool" where
  "admits e st r u \<longleftrightarrow> (\<exists>tok. authHeader (ce_hdr e) = Inr tok \<and> tokens st tok = Some r
     \<and> \<not> IsExpired (infoAt st r) (ce_now1 e) \<and> u = Username (infoAt st r))"

lemma serveRequest_cases:
  assumes "\<not> cf_NoLogin c" "serveRequest frac c (ce_handle e a) (ce_now1 e) (ce_now2 e) (ce_hdr e) st = (x, st')"
  shows "(\<exists>r u. admits e st r u \<and> x = ce_handle e a (Some u) \<and> st' = slide frac c (ce_now2 e) r st)
    \<or> (\<nexists>r u. admits e st r u) \<and> (\<exists>msg. x = Inl (unauthenticated msg)) \<and> (st' = st \<or>
        (\<exists>tok r. tokens st tok = Some r \<and> IsExpired (infoAt st r) (ce_now1 e) \<and> st' = dropToken tok st))"
  using assms
  by (auto simp: serveRequest_def authInterceptor_def admits_def contextWithUser_def authHeader_def Let_def
      split: sum.splits option.splits if_splits)

section \<open>Properties\<close>

text \<open>
  C5. The unauthenticated surface: unless logins are switched off, a request is answered by a service of the API
  only below that service's path, for the user of a live token, whose expiration it extends; otherwise such a
  request is refused and changes nothing but that it may remove an expired token.  The only other request that
  changes the table of tokens is a login that the provider accepted; the health checks, the other
  device paths and unknown paths leave it alone.
\<close>

theorem server_guarded:
  assumes "\<not> cf_NoLogin c" and "serveHTTP pat frac c w oidc path e st = (rep, st')"
  shows "(\<exists>a x. HasPrefix path (pat a) \<and> rep = ApiReply x \<and>
       ((\<exists>r u. admits e st r u \<and> x = ce_handle e a (Some u) \<and> st' = slide frac c (ce_now2 e) r st)
        \<or> (\<nexists>r u. admits e st r u) \<and> (\<exists>msg. x = Inl (unauthenticated msg)) \<and> (st' = st \<or>
            (\<exists>tok r. tokens st tok = Some r \<and> IsExpired (infoAt st r) (ce_now1 e) \<and> st' = dropToken tok st))))
    \<or> (\<exists>reply p u tok expires. path = DeviceTokenPath \<and> rep = DeviceReply reply \<and> oidc = Some p
         \<and> providerLogin w p (ce_rq e) u \<and> st' = storeToken u tok expires st)
    \<or> st' = st \<and> (rep = NotFoundPage \<or> rep = PlainText ''ready'' \<and> path = ''/readyz'' \<or>
        rep = PlainText ''live'' \<and> path = ''/livez'' \<or>
        (\<exists>reply. rep = DeviceReply reply \<and> path \<in> {DeviceRegistrationPath, DeviceAuthorizationPath, DeviceTokenPath}))"
proof (cases "ServeMux (muxRoutes pat) path")
  case None
  then show ?thesis using assms(2) by (simp add: serveHTTP_def)
next
  case (Some h)
  note path = route_cases [OF Some]
  show ?thesis
  proof (cases h)
    case (Api a)
    then obtain x where s: "serveRequest frac c (ce_handle e a) (ce_now1 e) (ce_now2 e) (ce_hdr e) st = (x, st')"
      "rep = ApiReply x" using assms(2) Some by (auto simp: serveHTTP_def split: prod.splits)
    have "HasPrefix path (pat a)" using path Api by simp
    with s(2) serveRequest_cases [OF assms(1) s(1)] show ?thesis by blast
  next
    case OAuth2
    then obtain d where d: "oauth2Handler path = Some d" "path = DeviceTokenPath \<longleftrightarrow> d = DeviceToken"
      using path oauth2Handler_path
      by (auto simp: DeviceRegistrationPath_def DeviceAuthorizationPath_def DeviceTokenPath_def)
    then obtain reply where r: "serveDevice frac c w oidc e d st = (reply, st')" "rep = DeviceReply reply"
      using assms(2) Some OAuth2 by (auto simp: serveHTTP_def split: prod.splits)
    show ?thesis
    proof (cases d)
      case DeviceToken
      then show ?thesis using r d handleDeviceToken_cases [of frac c w oidc "ce_random e" "ce_now1 e" "ce_rq e" st reply st']
        by (auto simp: serveDevice_def)
    qed (use r path OAuth2 in \<open>auto simp: serveDevice_def\<close>)
  qed (use assms(2) Some path in \<open>auto simp: serveHTTP_def\<close>)
qed

text \<open>The patterns of the generated code.\<close>

fun examplePat :: "api \<Rightarrow> string" where
  "examplePat CodeGenerationService = ''/buf.alpha.registry.v1alpha1.CodeGenerationService/''"
| "examplePat AuthnService = ''/buf.alpha.registry.v1alpha1.AuthnService/''"
| "examplePat CommitServiceV1Beta1 = ''/buf.registry.module.v1beta1.CommitService/''"
| "examplePat GraphServiceV1Beta1 = ''/buf.registry.module.v1beta1.GraphService/''"
| "examplePat DownloadServiceV1Beta1 = ''/buf.registry.module.v1beta1.DownloadService/''"
| "examplePat ModuleService = ''/buf.registry.module.v1.ModuleService/''"
| "examplePat UploadService = ''/buf.registry.module.v1.UploadService/''"
| "examplePat GraphServiceV1 = ''/buf.registry.module.v1.GraphService/''"
| "examplePat DownloadServiceV1 = ''/buf.registry.module.v1.DownloadService/''"
| "examplePat CommitServiceV1 = ''/buf.registry.module.v1.CommitService/''"
| "examplePat OwnerService = ''/buf.registry.owner.v1.OwnerService/''"

definition exampleCall :: "string \<Rightarrow> nat call_env" where
  "exampleCall hdr = \<lparr>ce_now1 = 5, ce_now2 = 6, ce_random = replicate 32 0, ce_hdr = hdr,
     ce_rq = exampleForm, ce_handle = (\<lambda>a u. Inr (case u of None \<Rightarrow> 0 | Some n \<Rightarrow> length n))\<rparr>"

lemma example_route:
  "ServeMux (muxRoutes examplePat) ''/buf.registry.owner.v1.OwnerService/GetOwners'' = Some (Api OwnerService)"
  by code_simp

theorem server_guarded_witness:
  "fst (serveHTTP examplePat (\<lambda>_ _ _. 0) (exampleConfig ''b'') exampleWeb None
      ''/buf.registry.owner.v1.OwnerService/GetOwners'' (exampleCall ''Bearer n'')
      (storeToken ''bob'' ''n'' 10 exampleAuth)) = ApiReply (Inr 3)"
proof -
  let ?st = "storeToken ''bob'' ''n'' 10 exampleAuth"
  obtain rep st' where s: "serveHTTP examplePat (\<lambda>_ _ _. 0) (exampleConfig ''b'') exampleWeb None
      ''/buf.registry.owner.v1.OwnerService/GetOwners'' (exampleCall ''Bearer n'') ?st = (rep, st')" by fastforce
  have t: "tokens ?st ''n'' = Some (nextInfo exampleAuth)" by (simp add: tokens_storeToken)
  then have a: "admits (exampleCall ''Bearer n'') ?st (nextInfo exampleAuth) ''bob''"
    using exampleHeader
    by (simp add: admits_def exampleCall_def IsExpired_def infoAt_storeToken)
  then have u: "admits (exampleCall ''Bearer n'') ?st r u \<Longrightarrow> u = ''bob''" for r u
    by (auto simp: admits_def)
  have "\<exists>x. rep = ApiReply x" using s example_route by (auto simp: serveHTTP_def split: prod.splits)
  moreover have "\<not> cf_NoLogin (exampleConfig ''b'')" by (simp add: exampleConfig_def)
  note server_guarded [OF this s]
  ultimately have "\<exists>a. rep = ApiReply (ce_handle (exampleCall ''Bearer n'') a (Some ''bob''))"
    using a u by auto
  then show ?thesis using s by (auto simp: exampleCall_def)
qed

end
