(* ===== verification/Telemetry.thy ===== *)
theory Telemetry
  imports Prelude
begin

text \<open>
  OpenTelemetry set-up (\<open>internal/telemetry/otel.go\<close>, \<open>options.go\<close>).  The exporters, the resource
  and the shutdown functions of the providers belong to the OpenTelemetry SDK and are parameters; a
  provider is the record of what it was constructed with.  A shutdown function acts on an arbitrary
  state of the SDK.  Joined errors (\<open>errors.Join\<close>) are the list of the errors joined, the empty list
  for nil.  The lemmas show that the returned function runs every registered shutdown once, in the
  order of registration, reports all their errors and does nothing when called again; that a failing
  set-up has shut down what it had started; and which exporters take part.
\<close>

section \<open>Options (options.go)\<close>

record ('t, 'm, 'l) options =
  traceExporter :: 't
  metricExporter :: 'm
  logExporter :: 'l
  o_version :: string
  o_instanceId :: string
  o_ns :: string

type_synonym ('t, 'm, 'l) Option = "('t, 'm, 'l) options \<Rightarrow> ('t, 'm, 'l) options"

definition WithTraceExporter :: "'t \<Rightarrow> ('t, 'm, 'l) Option" where
  "WithTraceExporter exporter opts = opts\<lparr>traceExporter := exporter\<rparr>"

definition WithMetricExporter :: "'m \<Rightarrow> ('t, 'm, 'l) Option" where
  "WithMetricExporter exporter opts = opts\<lparr>metricExporter := exporter\<rparr>"

definition WithLogExporter :: "'l \<Rightarrow> ('t, 'm, 'l) Option" where
  "WithLogExporter exporter opts = opts\<lparr>logExporter := exporter\<rparr>"

definition WithVersion :: "string \<Rightarrow> ('t, 'm, 'l) Option" where
  "WithVersion version opts = opts\<lparr>o_version := version\<rparr>"

definition WithInstanceId :: "string \<Rightarrow> ('t, 'm, 'l) Option" where
  "WithInstanceId instanceId opts = opts\<lparr>o_instanceId := instanceId\<rparr>"

definition WithNamespace :: "string \<Rightarrow> ('t, 'm, 'l) Option" where
  "WithNamespace ns opts = opts\<lparr>o_ns := ns\<rparr>"

section \<open>The SDK\<close>

text \<open>The exporters' constructors and the shutdown functions of the two kinds of providers.\<close>

record resource_attributes =
  ServiceName :: string
  ServiceVersion :: string
  ServiceInstanceID :: string
  ServiceNamespace :: string

record 't TracerProvider =
  tp_Batcher :: 't
  tp_BatchTimeout :: int
  tp_Resource :: resource_attributes

record 'm MeterProvider =
  mp_Exporter :: 'm
  mp_Interval :: int
  mp_Resource :: resource_attributes

record 'l LoggerProvider =
  lp_Exporter :: 'l
  lp_Resource :: resource_attributes

record ('t, 'm, 'l, 's) sdk =
  stdouttraceNew :: "'t res"
  stdoutmetricNew :: "'m res"
  stdoutlogNew :: "'l res"
  tracerShutdown :: "'t TracerProvider \<Rightarrow> 's \<Rightarrow> 's \<times> goerr option"
  loggerShutdown :: "'l LoggerProvider \<Rightarrow> 's \<Rightarrow> 's \<times> goerr option"

datatype propagator = TraceContext | Baggage

text \<open>The globals that \<open>otel.Set\<dots>\<close> and \<open>global.SetLoggerProvider\<close> assign, with the SDK's state.\<close>

record ('t, 'l, 's) otel =
  g_Propagator :: "propagator list"
  g_TracerProvider :: "'t TracerProvider option"
  g_LoggerProvider :: "'l LoggerProvider option"
  g_sdk :: 's

section \<open>Setup (otel.go)\<close>

definition newOptions :: "'t \<Rightarrow> 'm \<Rightarrow> 'l \<Rightarrow> ('t, 'm, 'l) options" where
  "newOptions t m l =
     \<lparr>traceExporter = t, metricExporter = m, logExporter = l, o_version = [], o_instanceId = [], o_ns = []\<rparr>"

definition defaultOptions :: "('t, 'm, 'l, 's) sdk \<Rightarrow> ('t, 'm, 'l) options res" where
  "defaultOptions k =
     (case stdouttraceNew k of
        Inl err \<Rightarrow> Inl err
      | Inr te \<Rightarrow>
     (case stdoutmetricNew k of
        Inl err \<Rightarrow> Inl err
      | Inr me \<Rightarrow>
     (case stdoutlogNew k of
        Inl err \<Rightarrow> Inl err
      | Inr le \<Rightarrow> Inr (newOptions te me le))))"

definition newPropagator :: "propagator list" where
  "newPropagator = [TraceContext, Baggage]"

definition second :: int where "second = 1000000000"

definition newTraceProvider :: "resource_attributes \<Rightarrow> ('t, 'm, 'l) options \<Rightarrow> 't TracerProvider res" where
  "newTraceProvider res opts =
     Inr \<lparr>tp_Batcher = traceExporter opts, tp_BatchTimeout = second, tp_Resource = res\<rparr>"

definition newMeterProvider :: "resource_attributes \<Rightarrow> ('t, 'm, 'l) options \<Rightarrow> 'm MeterProvider res" where
  "newMeterProvider res opts =
     Inr \<lparr>mp_Exporter = metricExporter opts, mp_Interval = 3 * second, mp_Resource = res\<rparr>"

definition newLoggerProvider :: "resource_attributes \<Rightarrow> ('t, 'm, 'l) options \<Rightarrow> 'l LoggerProvider res" where
  "newLoggerProvider res opts = Inr \<lparr>lp_Exporter = logExporter opts, lp_Resource = res\<rparr>"

text \<open>
  The closure \<open>shutdown\<close>: its state is the slice \<open>shutdownFuncs\<close>, which it sets to nil.  The first
  result is the new slice.
\<close>

fun joinShutdowns :: "('s \<Rightarrow> 's \<times> goerr option) list \<Rightarrow> goerr list \<Rightarrow> 's \<Rightarrow> 's \<times> goerr list" where
  "joinShutdowns [] err s = (s, err)"
| "joinShutdowns (fn # fns) err s =
     (case fn s of
        (s', None) \<Rightarrow> joinShutdowns fns err s'
      | (s', Some e) \<Rightarrow> joinShutdowns fns (err @ [e]) s')"

definition shutdown ::
  "('s \<Rightarrow> 's \<times> goerr option) list \<Rightarrow> 's \<Rightarrow> ('s \<Rightarrow> 's \<times> goerr option) list \<times> 's \<times> goerr list" where
  "shutdown shutdownFuncs s = (case joinShutdowns shutdownFuncs [] s of (s', err) \<Rightarrow> ([], s', err))"

text \<open>\<open>handleErr\<close>: the error of the set-up joined with those of the clean-up.\<close>

definition handleErr ::
  "goerr \<Rightarrow> ('s \<Rightarrow> 's \<times> goerr option) list \<Rightarrow> 's \<Rightarrow> ('s \<Rightarrow> 's \<times> goerr option) list \<times> 's \<times> goerr list" where
  "handleErr inErr shutdownFuncs s =
     (case shutdown shutdownFuncs s of (fns, s', err) \<Rightarrow> (fns, s', inErr # err))"

text \<open>
  \<open>Setup\<close> with the constructors of the two providers it uses as arguments: the globals, the slice that the
  returned function will run (\<open>None\<close> where that function is nil) and the error.
\<close>

definition SetupWith ::
  "(resource_attributes \<Rightarrow> ('t, 'm, 'l) options \<Rightarrow> 't TracerProvider res) \<Rightarrow>
   (resource_attributes \<Rightarrow> ('t, 'm, 'l) options \<Rightarrow> 'l LoggerProvider res) \<Rightarrow>
   ('t, 'm, 'l, 's) sdk \<Rightarrow> ('t, 'm, 'l) Option list \<Rightarrow> ('t, 'l, 's) otel \<Rightarrow>
   ('t, 'l, 's) otel \<times> ('s \<Rightarrow> 's \<times> goerr option) list option \<times> goerr list" where
  "SetupWith mkTrace mkLogger k opts g =
     (case defaultOptions k of
        Inl err \<Rightarrow> (g, None, [err])
      | Inr options0 \<Rightarrow>
          let options = fold (\<lambda>opt. opt) opts options0;
              res = \<lparr>ServiceName = ''pbr'', ServiceVersion = o_version options,
                     ServiceInstanceID = o_instanceId options, ServiceNamespace = o_ns options\<rparr>;
              g1 = g\<lparr>g_Propagator := newPropagator\<rparr>
          in (case mkTrace res options of
                Inl err \<Rightarrow> (case handleErr err [] (g_sdk g1) of
                    (fns, s, errs) \<Rightarrow> (g1\<lparr>g_sdk := s\<rparr>, Some fns, errs))
              | Inr tracerProvider \<Rightarrow>
                  let fns1 = [tracerShutdown k tracerProvider];
                      g2 = g1\<lparr>g_TracerProvider := Some tracerProvider\<rparr>
                  in (case mkLogger res options of
                        Inl err \<Rightarrow> (case handleErr err fns1 (g_sdk g2) of
                            (fns, s, errs) \<Rightarrow> (g2\<lparr>g_sdk := s\<rparr>, Some fns, errs))
                      | Inr loggerProvider \<Rightarrow>
                          (g2\<lparr>g_LoggerProvider := Some loggerProvider\<rparr>,
                           Some (fns1 @ [loggerShutdown k loggerProvider]), []))))"

definition Setup ::
  "('t, 'm, 'l, 's) sdk \<Rightarrow> ('t, 'm, 'l) Option list \<Rightarrow> ('t, 'l, 's) otel \<Rightarrow>
   ('t, 'l, 's) otel \<times> ('s \<Rightarrow> 's \<times> goerr option) list option \<times> goerr list" where
  "Setup = SetupWith newTraceProvider newLoggerProvider"

section \<open>Shutting down\<close>

text \<open>What a list of shutdown functions does one after the other, and the errors they return.\<close>

definition runAll :: "('s \<Rightarrow> 's \<times> goerr option) list \<Rightarrow> 's \<Rightarrow> 's" where
  "runAll fns s = fold (\<lambda>fn s. fst (fn s)) fns s"

fun errorsOf :: "('s \<Rightarrow> 's \<times> goerr option) list \<Rightarrow> 's \<Rightarrow> goerr list" where
  "errorsOf [] s = []"
| "errorsOf (fn # fns) s = (case snd (fn s) of None \<Rightarrow> [] | Some e \<Rightarrow> [e]) @ errorsOf fns (fst (fn s))"

lemma joinShutdowns_runAll: "joinShutdowns fns err s = (runAll fns s, err @ errorsOf fns s)"
  by (induction fns err s rule: joinShutdowns.induct) (auto simp: runAll_def split: prod.splits option.splits)

lemma shutdown_once:
  "shutdown fns s = ([], runAll fns s, errorsOf fns s)"
  "shutdown (fst (shutdown fns s)) s' = ([], s', [])"
  by (simp_all add: shutdown_def joinShutdowns_runAll runAll_def)

text \<open>
  A failing constructor of the logger provider shuts the tracer provider down again, and the function
  that is returned beside the error has nothing left to do.
\<close>

lemma Setup_failure:
  assumes "SetupWith mkTrace mkLogger k opts g = (g', r, errs)" "errs \<noteq> []"
  shows "(r = None \<and> g' = g)
    \<or> (r = Some [] \<and> g_LoggerProvider g' = g_LoggerProvider g
        \<and> (g_sdk g' = g_sdk g \<and> g_TracerProvider g' = g_TracerProvider g
           \<or> (\<exists>tp. g_TracerProvider g' = Some tp \<and> g_sdk g' = runAll [tracerShutdown k tp] (g_sdk g))))"
  using assms
  by (auto simp: SetupWith_def handleErr_def shutdown_once runAll_def Let_def split: sum.splits)

text \<open>A set-up that succeeds registers the shutdown of both providers, and none has run.\<close>

lemma Setup_success:
  assumes "Setup k opts g = (g', r, [])"
  shows "\<exists>tp lp. g_TracerProvider g' = Some tp \<and> g_LoggerProvider g' = Some lp
    \<and> r = Some [tracerShutdown k tp, loggerShutdown k lp] \<and> g_sdk g' = g_sdk g
    \<and> g_Propagator g' = [TraceContext, Baggage]"
  using assms
  by (auto simp: Setup_def SetupWith_def handleErr_def shutdown_once newTraceProvider_def
      newLoggerProvider_def newPropagator_def Let_def split: sum.splits)

text \<open>
  With working exporters the providers get the exporters and the attributes the options ask for, the
  last option of a kind deciding.
\<close>

lemma Setup_options:
  assumes "defaultOptions k = Inr o0"
  shows "\<exists>tp lp. Setup k opts g = (g\<lparr>g_Propagator := newPropagator, g_TracerProvider := Some tp,
        g_LoggerProvider := Some lp\<rparr>, Some [tracerShutdown k tp, loggerShutdown k lp], [])
    \<and> tp_Batcher tp = traceExporter (fold (\<lambda>opt. opt) opts o0)
    \<and> lp_Exporter lp = logExporter (fold (\<lambda>opt. opt) opts o0)
    \<and> ServiceVersion (tp_Resource tp) = o_version (fold (\<lambda>opt. opt) opts o0)
    \<and> lp_Resource lp = tp_Resource tp"
  by (simp add: assms Setup_def SetupWith_def newTraceProvider_def newLoggerProvider_def Let_def)
    (intro exI conjI, rule refl, simp_all)

text \<open>
  The metric exporter takes no part: the code that installs a meter provider is commented out, so
  \<open>WithMetricExporter\<close> has no effect.
\<close>

lemma metric_exporter_unused:
  assumes "\<And>opt o1 m. opt \<in> set opts \<Longrightarrow> \<exists>m'. opt (o1\<lparr>metricExporter := m\<rparr>) = (opt o1)\<lparr>metricExporter := m'\<rparr>"
  shows "Setup k (WithMetricExporter e # opts) g = Setup k opts g"
proof (cases "defaultOptions k")
  case (Inl err)
  then show ?thesis by (simp add: Setup_def SetupWith_def)
next
  case (Inr o0)
  have "\<exists>m'. fold (\<lambda>opt. opt) opts (o1\<lparr>metricExporter := m\<rparr>) = (fold (\<lambda>opt. opt) opts o1)\<lparr>metricExporter := m'\<rparr>" for o1 m
    using assms
  proof (induction opts arbitrary: o1 m)
    case Nil
    show ?case by auto
  next
    case (Cons opt opts)
    obtain m' where "opt (o1\<lparr>metricExporter := m\<rparr>) = (opt o1)\<lparr>metricExporter := m'\<rparr>"
      using Cons.prems by (meson list.set_intros(1))
    then show ?case using Cons.IH [of m' "opt o1"] Cons.prems by simp
  qed
  then obtain m' where "fold (\<lambda>opt. opt) opts (WithMetricExporter e o0) = (fold (\<lambda>opt. opt) opts o0)\<lparr>metricExporter := m'\<rparr>"
    unfolding WithMetricExporter_def by blast
  then show ?thesis using Inr
    by (simp add: Setup_def SetupWith_def newTraceProvider_def newLoggerProvider_def Let_def)
qed

end
