(* ===== verification/Sync_Map.thy ===== *)
theory Sync_Map
  imports Prelude "HOL-Library.AList"
begin

text \<open>
  The generic concurrent map (\<open>internal/util/map.go\<close>): a typed wrapper around \<open>sync.Map\<close>, whose
  operations are atomic.  The map is the association list of its entries in the order in which
  \<open>Range\<close> visits them, with distinct keys.  Where the code returns Go's zero value, the value is the
  argument \<open>zero\<close>.  The lemmas relate every operation to the map of the entries; \<open>Range\<close> sees each entry
  once, up to the first for which the function answers \<open>false\<close>.
\<close>

type_synonym ('k, 'v) SyncMap = "('k \<times> 'v) list"

definition SM_Delete :: "'k \<Rightarrow> ('k, 'v) SyncMap \<Rightarrow> ('k, 'v) SyncMap" where
  "SM_Delete key m = AList.delete key m"

definition SM_Load :: "'v \<Rightarrow> 'k \<Rightarrow> ('k, 'v) SyncMap \<Rightarrow> 'v \<times> bool" where
  "SM_Load zero key m = (case map_of m key of None \<Rightarrow> (zero, False) | Some v \<Rightarrow> (v, True))"

definition SM_LoadAndDelete :: "'v \<Rightarrow> 'k \<Rightarrow> ('k, 'v) SyncMap \<Rightarrow> ('v \<times> bool) \<times> ('k, 'v) SyncMap" where
  "SM_LoadAndDelete zero key m =
     (case map_of m key of
        None \<Rightarrow> ((zero, False), m)
      | Some v \<Rightarrow> ((v, True), AList.delete key m))"

definition SM_Store :: "'k \<Rightarrow> 'v \<Rightarrow> ('k, 'v) SyncMap \<Rightarrow> ('k, 'v) SyncMap" where
  "SM_Store key value m = AList.update key value m"

definition SM_LoadOrStore :: "'k \<Rightarrow> 'v \<Rightarrow> ('k, 'v) SyncMap \<Rightarrow> ('v \<times> bool) \<times> ('k, 'v) SyncMap" where
  "SM_LoadOrStore key value m =
     (case map_of m key of
        Some a \<Rightarrow> ((a, True), m)
      | None \<Rightarrow> ((value, False), AList.update key value m))"

text \<open>\<open>f\<close> is a closure over a state \<open>'a\<close>, as in every use of \<open>Range\<close>.\<close>

fun SM_Range :: "('k \<Rightarrow> 'v \<Rightarrow> 'a \<Rightarrow> bool \<times> 'a) \<Rightarrow> ('k, 'v) SyncMap \<Rightarrow> 'a \<Rightarrow> 'a" where
  "SM_Range f [] st = st"
| "SM_Range f ((key, value) # m) st =
     (case f key value st of (True, st') \<Rightarrow> SM_Range f m st' | (False, st') \<Rightarrow> st')"

section \<open>Operations and maps\<close>

definition entriesOK :: "('k, 'v) SyncMap \<Rightarrow> bool" where
  "entriesOK m \<longleftrightarrow> distinct (map fst m)"

lemma SM_entriesOK:
  assumes "entriesOK m"
  shows "entriesOK (SM_Delete key m)" "entriesOK (SM_Store key value m)"
    "entriesOK (snd (SM_LoadAndDelete zero key m))" "entriesOK (snd (SM_LoadOrStore key value m))"
  using assms
  by (auto simp: entriesOK_def SM_Delete_def SM_Store_def SM_LoadAndDelete_def SM_LoadOrStore_def
      distinct_delete distinct_update split: option.splits)

lemma SM_Load_Store: "SM_Load zero k (SM_Store key value m) = (if k = key then (value, True) else SM_Load zero k m)"
  by (simp add: SM_Load_def SM_Store_def update_conv')

lemma SM_Load_Delete: "SM_Load zero k (SM_Delete key m) = (if k = key then (zero, False) else SM_Load zero k m)"
  by (simp add: SM_Load_def SM_Delete_def delete_conv')

text \<open>The combined operations are \<open>Load\<close> followed, where they change the map, by \<open>Store\<close> or \<open>Delete\<close>.\<close>

lemma SM_LoadAndDelete_correct:
  "fst (SM_LoadAndDelete zero key m) = SM_Load zero key m
   \<and> map_of (snd (SM_LoadAndDelete zero key m)) = map_of (SM_Delete key m)"
  by (auto simp: SM_LoadAndDelete_def SM_Load_def SM_Delete_def delete_conv' fun_upd_idem split: option.splits)

lemma SM_LoadOrStore_correct:
  "SM_LoadOrStore key value m =
     (if snd (SM_Load zero key m) then (SM_Load zero key m, m) else ((value, False), SM_Store key value m))"
  by (auto simp: SM_LoadOrStore_def SM_Load_def SM_Store_def split: option.splits)

text \<open>A \<open>Range\<close> that never stops folds over all entries, each once.\<close>

lemma SM_Range_all:
  assumes "\<And>k v st. fst (f k v st)"
  shows "SM_Range f m st = fold (\<lambda>(k, v) st. snd (f k v st)) m st"
proof (induction m arbitrary: st)
  case Nil
  show ?case by simp
next
  case (Cons e m)
  obtain k v where e: "e = (k, v)" by fastforce
  obtain st' where "f k v st = (True, st')" using assms [of k v st] by (cases "f k v st") auto
  then show ?case using Cons.IH e by simp
qed

text \<open>A \<open>Range\<close> that searches stops at the first entry it looks for.\<close>

lemma SM_Range_find:
  "SM_Range (\<lambda>k v st. if P k v then (False, Some (k, v)) else (True, st)) m st =
     (case find (\<lambda>(k, v). P k v) m of Some e \<Rightarrow> Some e | None \<Rightarrow> st)"
  by (induction m arbitrary: st) (auto split: prod.splits)

end
