(* ===== verification/Spec2Isabelle.thy ===== *)
theory Spec2Isabelle
  imports Graph_Walks Module_Service Concurrent_Service Label_Races Process Http_Server Telemetry Sync_Map
begin

text \<open>
  Verification of pbr, a Protocol Buffers registry in Go (\<open>src/cmd\<close>, \<open>src/internal\<close>).  This theory imports all
  others; each of them holds the definitions of one part, its lemmas and its properties.

  \<^bold>\<open>The program.\<close>  Clients (the \<open>buf\<close> tool) upload modules of proto files, download them, ask for the
  graph of their dependencies and have code generated.  The content is kept in a bucket of blobs
  addressed by their SHAKE256 digest; owners, modules, commits and labels are documents of four
  collections.  \<open>registry\<close> builds modules and commits on these stores; \<open>service\<close> serves them over
  the v1beta1 and v1 APIs, behind an interceptor that checks tokens; users log in through an OpenID
  Connect provider; code generation runs plugins as containers.

  \<^bold>\<open>Theories and sources.\<close>
  \<^item> \<open>Prelude\<close>: Go strings, errors (\<open>goerr\<close>, results \<open>goerr + 'a\<close>), \<open>strings\<close>, \<open>encoding/hex\<close>, sorting.
  \<^item> \<open>Util\<close>: \<open>util/id.go\<close>, with an executable SHA-256.
  \<^item> \<open>Digest\<close>, \<open>Manifest\<close>: \<open>storage/storage.go\<close>, \<open>storage/manifest.go\<close>; texts and digests of modules and manifests.
  \<^item> \<open>Backend\<close>, \<open>Blob_Store\<close>, \<open>Metadata\<close>, \<open>Listing\<close>: \<open>storage/blob.go\<close>, \<open>storage/metadata.go\<close>,
    \<open>storage/docstore.go\<close> over an abstract bucket and abstract collections; the laws they promise are locales,
    interpreted on these definitions.
  \<^item> \<open>Buf_Lock\<close>, \<open>Registry\<close>, \<open>Module_Commits\<close>, \<open>Commit_Store\<close>: \<open>registry/registry.go\<close>, \<open>registry/module.go\<close>; the
    invariant of the registry and the contract of \<open>CreateCommit\<close>.
  \<^item> \<open>Interleaving\<close>, \<open>Concurrent_Registry\<close>, \<open>Label_Races\<close>, \<open>Concurrent_Service\<close>: the same operations, and the handlers
    that use them, as programs that run concurrently.
  \<^item> \<open>Commit_Service\<close>, \<open>Download_Service\<close>, \<open>Graph_Service\<close>, \<open>Graph_Walks\<close>, \<open>Upload_Service\<close>, \<open>Module_Service\<close>: the handlers of
    \<open>service/commit.go\<close>, \<open>download.go\<close>, \<open>graph.go\<close> (and their \<open>_v1\<close> files), \<open>upload.go\<close>, \<open>module.go\<close>, \<open>owners.go\<close>.
  \<^item> \<open>Durations\<close>, \<open>Config\<close>: \<open>config/config.go\<close>, with \<open>strconv.Atoi\<close> and \<open>time.ParseDuration\<close>.
  \<^item> \<open>Auth\<close>: the token table and the interceptor of \<open>service/service.go\<close>, \<open>service/authn.go\<close>.
  \<^item> \<open>Url_Values\<close>, \<open>Device_Login\<close>: \<open>service/oidc.go\<close>, \<open>service/oauth2.go\<close>, with the forms of \<open>net/url\<close>.
  \<^item> \<open>Codegen\<close>: \<open>codegen/plugin.go\<close>, \<open>codegen/ocifsrunner.go\<close>, \<open>codegen/runner.go\<close>, \<open>service/code-generation.go\<close>.
  \<^item> \<open>Startup\<close>: \<open>New\<close> of \<open>service/service.go\<close> and how it puts the handlers behind the interceptor.
  \<^item> \<open>Http_Server\<close>: the routes \<open>New\<close> registers, \<open>Handler\<close> of \<open>service/oauth2.go\<close> and \<open>debugMiddleware\<close>.
  \<^item> \<open>Process\<close>: \<open>cmd/pbr/main.go\<close>, \<open>Serve\<close> and \<open>Shutdown\<close>; the goroutines as step relations.
  \<^item> \<open>Telemetry\<close>, \<open>Sync_Map\<close>: \<open>telemetry/otel.go\<close>, \<open>telemetry/options.go\<close>, \<open>util/map.go\<close>.

  \<^bold>\<open>Conventions.\<close>  A definition has the name of the Go function, with the prefix \<open>Reg_\<close>, \<open>Mod_\<close>,
  \<open>Meta_\<close>, \<open>Blob_\<close>, \<open>Svc_\<close>, \<open>SvcV1_\<close> where the name is a method of several types.  An operation takes the state of
  the stores and returns the new one with its result; every early return and panic is a branch.  An operation with the
  prefix \<open>P_\<close> is the same code as a program of atomic steps, each a single call to the bucket or to a
  collection.  Pointers that may be nil are options; durations are \<open>64 word\<close>, time is an integer of nanoseconds.  A Go map is
  a function to options, or an association list where the code ranges over it; then the list's order stands for the
  unspecified order of \<open>range\<close>.  Logging and tracing are left out.

  \<^bold>\<open>What the lemmas show.\<close>  Storage: digests, manifests and lock files print and parse back; the B5 digest
  binds files and dependencies; paging loses no commit.  Registry: an invariant of everything reachable by the
  operations, that what is uploaded is what is served, that labels never dangle, and that the API's
  requests refine the registry's operations.  The server takes no lock around these operations, so they are also
  proved concurrently: \<open>Interleaving\<close> has a rely-guarantee rule for programs over a shared state, and with
  it, in every interleaving of any number of requests, the invariant holds, downloads are never torn and
  what an upload has acknowledged is delivered; identical uploads can however make two commits
  (\<open>concurrent_duplicates\<close>), and the labels of two uploads can be mixed (\<open>concurrent_labels_torn\<close>).  Server: which
  requests reach a service without a token (none), and that a shutdown cuts requests off
  (\<open>graceful_shutdown_cut_off\<close>).  Telemetry: every registered shutdown runs once.  Graph: both API
  versions agree, the walk returns on cyclic dependencies, its result is consistent, and of each module it shows the
  dependencies of exactly one version.  Commits: both versions of the service agree, which rests on every
  module of a reachable registry having the default label \<open>main\<close>.  Authentication: an interleaving of the critical sections of any
  number of requests with logins keeps one token per user; a login revokes the old token for all
  later requests; no handler runs without a live token; a failed login changes nothing.  Configuration: which fields are
  substituted and which are not; what a token's life and the grace period are read as, also where the product wraps.  Code generation: which
  calls each path through the runner and the plugin makes to give back what it took, and in which order.  Where the code falls short of its purpose the theorem
  states what it does (\<open>graph_edges\<close>, \<open>public_imports_missed\<close>, \<open>token_ttl_exact\<close>, \<open>ParseConfig_substitutes\<close>, \<open>runner_releases\<close>,
  \<open>plugin_calls\<close>).

  \<^bold>\<open>Bounds and fuel.\<close>  The graph walks recurse over stored dependencies and take fuel; \<open>graph_returns\<close> shows that any
  fuel above the number of modules gives the same result, since a module is walked once.  Every other loop
  is structural or has a measure.

  \<^bold>\<open>Parameters and hypotheses.\<close>  SHAKE256 is a parameter of which nothing but (where stated) injectivity on the texts
  at hand is assumed.  The bucket and the collections keep what is written (their documented contract).
  Where the graph looks modules up by the key \<open>owner/name\<close>, the stored owners' names are assumed free of \<open>/\<close>
  (\<open>slashFree\<close>).  \<open>frac\<close> is the floating-point product of \<open>time.ParseDuration\<close>; the YAML decoder,
  \<open>envsubst\<close>, JSON decoding and the HTTP client are arbitrary functions.  The calls to the image
  file system, container runtime and operating system have arbitrary outcomes and are recorded in a trace; the
  theorems are about the calls in it, not about what they do.

  For the concurrent theorems the contents and manifests that are uploaded lie in a set on which SHAKE256 is
  injective; a collection's or bucket's single calls are atomic, as their drivers document.  \<open>net/http\<close> is
  modelled as far as the code relies on it: the patterns of \<open>ServeMux\<close>, \<open>ErrServerClosed\<close> at once when
  \<open>Shutdown\<close> is called, and \<open>Shutdown\<close>'s wait for the requests.  The paths of the API's services come from
  generated code and are an argument.

  \<^bold>\<open>Not modelled.\<close>  What is left are imports, declarations of names, logging, tracing and the calls of libraries
  that have no result: the construction of log handlers, the registration of flags, the cleartext HTTP/2 handler, which takes connections
  over from the server.  Of the handlers that only read, the downloads alone are written out
  as programs; the others are any program that changes nothing (\<open>reads\<close>).  Reads that race with writes (\<open>IsExpired\<close>) are taken as
  atomic.  A blocking read of a plugin's pipes is taken to return.
\<close>

end
